(* ===== verification/Prelude.thy ===== *)
theory Prelude
  imports Main "HOL-Library.Word"
begin

text \<open>
  Shared vocabulary of the development: names for the machine integers of the Rust code,
  Rust's checked, saturating and wrapping arithmetic on them, readers over byte slices with
  the errors of \<^verbatim>\<open>std::io\<close>, the external byte order codec as a parameter with its contract,
  and generic lemmas used by several components.
\<close>

unbundle bit_operations_syntax

named_theorems codec_simps \<open>read-after-write facts of the wire codecs\<close>
named_theorems codec_defs \<open>definitions of the readers and writers of single fields\<close>
named_theorems credit_defs \<open>definitions of the flow credit operations\<close>
named_theorems robs_defs \<open>definitions of the observable collections\<close>

type_synonym u8 = "8 word"
type_synonym u16 = "16 word"
type_synonym u32 = "32 word"
type_synonym u64 = "64 word"
type_synonym bytes = "u8 list"

section \<open>Rust arithmetic\<close>

text \<open>\<^verbatim>\<open>checked_add\<close> gives nothing on overflow, \<^verbatim>\<open>saturating_*\<close> stops at the bounds of
  the type. Wrapping arithmetic is \<^verbatim>\<open>+\<close> and \<^verbatim>\<open>-\<close> on words.\<close>

definition checked_add :: "u32 \<Rightarrow> u32 \<Rightarrow> u32 option" where
  "checked_add a b = (if unat a + unat b < 2 ^ 32 then Some (a + b) else None)"

definition saturating_add :: "u32 \<Rightarrow> u32 \<Rightarrow> u32" where
  "saturating_add a b = (if unat a + unat b < 2 ^ 32 then a + b else - 1)"

definition saturating_sub :: "u32 \<Rightarrow> u32 \<Rightarrow> u32" where
  "saturating_sub a b = (if b \<le> a then a - b else 0)"

definition saturating_mul :: "u32 \<Rightarrow> u32 \<Rightarrow> u32" where
  "saturating_mul a b = (if unat a * unat b < 2 ^ 32 then a * b else - 1)"

text \<open>\<^verbatim>\<open>clamp\<close> panics when the bounds are the wrong way round; every use below has constant
  or checked bounds.\<close>

definition clamp :: "u32 \<Rightarrow> u32 \<Rightarrow> u32 \<Rightarrow> u32" where
  "clamp lo hi x = (if x < lo then lo else if hi < x then hi else x)"

lemma u32_unat_less [simp]: "unat (x :: u32) < 4294967296"
  using unsigned_less [of x, where ?'a = nat] by simp

lemma u32_max [simp]: "unat (- 1 :: u32) = 4294967295"
  by (simp add: unsigned_minus_1_eq_mask mask_eq_exp_minus_1)

lemma unat_add_u32: "unat a + unat b < 4294967296 \<Longrightarrow> unat (a + b :: u32) = unat a + unat b"
  by (simp add: unat_word_ariths)

lemma unat_sub_u32: "b \<le> a \<Longrightarrow> unat (a - b :: u32) = unat a - unat b"
  by (rule unat_sub)

lemma checked_add_Some:
  "checked_add a b = Some c \<longleftrightarrow> unat a + unat b < 4294967296 \<and> c = a + b"
  by (auto simp: checked_add_def)

lemma checked_add_None: "checked_add a b = None \<longleftrightarrow> 4294967296 \<le> unat a + unat b"
  by (auto simp: checked_add_def)

lemma unat_saturating_add: "unat (saturating_add a b) = min (unat a + unat b) 4294967295"
  by (auto simp: saturating_add_def unat_add_u32 min_def)

lemma unat_saturating_sub: "unat (saturating_sub a b) = unat a - unat b"
  by (auto simp: saturating_sub_def unat_sub_u32 word_le_nat_alt)

lemma unat_min_u32: "unat (min a b :: u32) = min (unat a) (unat b)"
  by (auto simp: min_def word_le_nat_alt)

lemma unat_max_u32: "unat (max a b :: u32) = max (unat a) (unat b)"
  by (auto simp: max_def word_le_nat_alt)

lemma unat_div_u32: "unat (a div b :: u32) = unat a div unat b"
  by (rule unat_div)

lemma clamp_bounds: "lo \<le> hi \<Longrightarrow> lo \<le> clamp lo hi x \<and> clamp lo hi x \<le> hi"
  by (auto simp: clamp_def)

lemma clamp_id: "lo \<le> x \<Longrightarrow> x \<le> hi \<Longrightarrow> clamp lo hi x = x"
  by (auto simp: clamp_def)

lemma unat_clamp:
  "lo \<le> hi \<Longrightarrow> unat (clamp lo hi x) = max (unat lo) (min (unat hi) (unat x))"
  by (auto simp: clamp_def word_le_nat_alt word_less_nat_alt)

section \<open>Panics\<close>

text \<open>An operation that may panic returns \<open>Panic\<close> or its result.\<close>

datatype 'a exec = Panic | Ret 'a

fun exec_bind :: "'a exec \<Rightarrow> ('a \<Rightarrow> 'b exec) \<Rightarrow> 'b exec" where
  "exec_bind Panic f = Panic"
| "exec_bind (Ret x) f = f x"

lemma exec_bind_Ret: "exec_bind e f = Ret y \<longleftrightarrow> (\<exists>x. e = Ret x \<and> f x = Ret y)"
  by (cases e) auto

lemma exec_bind_assoc: "exec_bind (exec_bind e f) g = exec_bind e (\<lambda>x. exec_bind (f x) g)"
  by (cases e) auto

section \<open>Readers over byte slices\<close>

text \<open>A reader consumes a prefix of the slice and hands back the rest, as
  \<^verbatim>\<open>impl io::Read for &[u8]\<close> does. Of the error kinds the code distinguishes only the end of
  the slice from invalid data.\<close>

datatype io_error = UnexpectedEof | InvalidData string

type_synonym 'a reader = "bytes \<Rightarrow> io_error + 'a \<times> bytes"

definition rret :: "'a \<Rightarrow> 'a reader" where
  "rret x bs = Inr (x, bs)"

definition rfail :: "io_error \<Rightarrow> 'a reader" where
  "rfail e bs = Inl e"

definition rbind :: "'a reader \<Rightarrow> ('a \<Rightarrow> 'b reader) \<Rightarrow> 'b reader" where
  "rbind r f bs = (case r bs of Inl e \<Rightarrow> Inl e | Inr (x, rest) \<Rightarrow> f x rest)"

definition rmap :: "('a \<Rightarrow> 'b) \<Rightarrow> 'a reader \<Rightarrow> 'b reader" where
  "rmap g r = rbind r (\<lambda>x. rret (g x))"

fun read_u8 :: "u8 reader" where
  "read_u8 [] = Inl UnexpectedEof"
| "read_u8 (b # bs) = Inr (b, bs)"

text \<open>\<^verbatim>\<open>read_u8().unwrap_or_default()\<close>: a missing byte reads as zero.\<close>

fun read_u8_or_default :: "u8 reader" where
  "read_u8_or_default [] = Inr (0, [])"
| "read_u8_or_default (b # bs) = Inr (b, bs)"

definition read_exact :: "nat \<Rightarrow> bytes reader" where
  "read_exact n bs = (if length bs < n then Inl UnexpectedEof else Inr (take n bs, drop n bs))"

lemma rret_apply [codec_simps]: "rret x bs = Inr (x, bs)"
  by (simp add: rret_def)

lemma rbind_Inr [codec_simps]: "r bs = Inr (x, rest) \<Longrightarrow> rbind r f bs = f x rest"
  by (simp add: rbind_def)

lemma rmap_Inr [codec_simps]: "r bs = Inr (x, rest) \<Longrightarrow> rmap g r bs = Inr (g x, rest)"
  by (simp add: rmap_def rbind_def rret_def)

lemma read_exact_append [codec_simps]:
  "length xs = n \<Longrightarrow> read_exact n (xs @ rest) = Inr (xs, rest)"
  by (auto simp: read_exact_def)

section \<open>The external byte order codec\<close>

text \<open>
  Fixed width integers are written by the \<^verbatim>\<open>byteorder\<close> crate (\<^verbatim>\<open>write_u32::<LE>\<close> and its
  kin), which is not part of the repository. It is a parameter of the model: the three widths
  the code uses, each with the function that gives the bytes and the function that reads the
  value back from exactly that many bytes. The contract is the documented one: a value takes
  its width in bytes and reads back unchanged.
\<close>

record byteorder =
  put16 :: "u16 \<Rightarrow> bytes"
  get16 :: "bytes \<Rightarrow> u16"
  put32 :: "u32 \<Rightarrow> bytes"
  get32 :: "bytes \<Rightarrow> u32"
  put64 :: "u64 \<Rightarrow> bytes"
  get64 :: "bytes \<Rightarrow> u64"

definition byteorder_ok :: "byteorder \<Rightarrow> bool" where
  "byteorder_ok bo \<longleftrightarrow>
     (\<forall>n. length (put16 bo n) = 2 \<and> get16 bo (put16 bo n) = n) \<and>
     (\<forall>n. length (put32 bo n) = 4 \<and> get32 bo (put32 bo n) = n) \<and>
     (\<forall>n. length (put64 bo n) = 8 \<and> get64 bo (put64 bo n) = n)"

definition read_u16 :: "byteorder \<Rightarrow> u16 reader" where
  "read_u16 bo = rmap (get16 bo) (read_exact 2)"

definition read_u32 :: "byteorder \<Rightarrow> u32 reader" where
  "read_u32 bo = rmap (get32 bo) (read_exact 4)"

definition read_u64 :: "byteorder \<Rightarrow> u64 reader" where
  "read_u64 bo = rmap (get64 bo) (read_exact 8)"

locale byteorder_codec =
  fixes bo :: byteorder
  assumes put16_len: "length (put16 bo n16) = 2"
    and get_put16: "get16 bo (put16 bo n16) = n16"
    and put32_len: "length (put32 bo n32) = 4"
    and get_put32: "get32 bo (put32 bo n32) = n32"
    and put64_len: "length (put64 bo n64) = 8"
    and get_put64: "get64 bo (put64 bo n64) = n64"
begin

lemma read_u16_put: "read_u16 bo (put16 bo n @ rest) = Inr (n, rest)"
  by (simp add: read_u16_def codec_simps put16_len get_put16)

lemma read_u32_put: "read_u32 bo (put32 bo n @ rest) = Inr (n, rest)"
  by (simp add: read_u32_def codec_simps put32_len get_put32)

lemma read_u64_put: "read_u64 bo (put64 bo n @ rest) = Inr (n, rest)"
  by (simp add: read_u64_def codec_simps put64_len get_put64)

end

lemma byteorder_ok_iff: "byteorder_ok bo \<longleftrightarrow> byteorder_codec bo"
  by (auto simp: byteorder_ok_def byteorder_codec_def)

text \<open>A concrete instance: little endian digits, as \<^verbatim>\<open>to_le_bytes\<close> of the standard library.\<close>

primrec le_bytes :: "nat \<Rightarrow> nat \<Rightarrow> bytes" where
  "le_bytes 0 n = []"
| "le_bytes (Suc k) n = word_of_nat n # le_bytes k (n div 256)"

primrec le_value :: "bytes \<Rightarrow> nat" where
  "le_value [] = 0"
| "le_value (b # bs) = unat b + 256 * le_value bs"

lemma length_le_bytes [simp]: "length (le_bytes k n) = k"
  by (induction k arbitrary: n) auto

lemma le_value_le_bytes: "le_value (le_bytes k n) = n mod 256 ^ k"
proof (induction k arbitrary: n)
  case (Suc k)
  have "unat (word_of_nat n :: u8) = n mod 256"
    by (simp add: unat_of_nat)
  moreover have "n mod 256 + 256 * (n div 256 mod 256 ^ k) = n mod 256 ^ Suc k"
    by (simp add: mod_mult2_eq)
  ultimately show ?case
    by (simp add: Suc.IH)
qed simp

definition le_byteorder :: byteorder where
  "le_byteorder =
     \<lparr>put16 = (\<lambda>n. le_bytes 2 (unat n)), get16 = (\<lambda>bs. word_of_nat (le_value bs)),
      put32 = (\<lambda>n. le_bytes 4 (unat n)), get32 = (\<lambda>bs. word_of_nat (le_value bs)),
      put64 = (\<lambda>n. le_bytes 8 (unat n)), get64 = (\<lambda>bs. word_of_nat (le_value bs))\<rparr>"

lemma le_word_of_value:
  "word_of_nat (unat n mod 65536) = (n :: u16)"
  "word_of_nat (unat k mod 18446744073709551616) = (k :: u64)"
proof -
  have "unat n < 65536" "unat k < 18446744073709551616"
    using unsigned_less [of n, where ?'a = nat] unsigned_less [of k, where ?'a = nat] by simp_all
  then show "word_of_nat (unat n mod 65536) = n" "word_of_nat (unat k mod 18446744073709551616) = k"
    by simp_all
qed

interpretation le: byteorder_codec le_byteorder
  by unfold_locales
    (simp_all add: le_byteorder_def le_value_le_bytes le_word_of_value)

lemma le_byteorder_ok: "byteorder_ok le_byteorder"
  by (simp add: byteorder_ok_iff le.byteorder_codec_axioms)

end
