(* ===== verification/Varint.thy ===== *)
theory Varint
  imports Prelude
begin

text \<open>
  The variable integer encoding of \<^verbatim>\<open>remoc/src/varint.rs\<close>: the encoder \<^verbatim>\<open>varint_u32\<close>, the
  byte-wise decoder \<^verbatim>\<open>VarintDecoder\<close>, and the reader and writer that fall back to four fixed
  bytes when the peer does not support the encoding. The lemmas show that reading gives back
  what was written, that an encoding takes one to five bytes, and that the decoder never shifts
  by more than the width of the value.
\<close>

section \<open>Constants\<close>

text \<open>The \<^verbatim>\<open>const fn\<close>s at \<^verbatim>\<open>u32\<close>, whose size is four bytes.\<close>

definition varint_max :: nat where
  "varint_max = (let bits = 4 * 8; roundup_bits = bits + (7 - 1) in roundup_bits div 7)"

definition max_of_last_byte :: u8 where
  "max_of_last_byte = (let max_bits = 4 * 8; extra_bits = max_bits mod 7
                       in push_bit extra_bits 1 - 1)"

lemma varint_max_5 [simp]: "varint_max = 5"
  by (simp add: varint_max_def)

lemma max_of_last_byte_15 [simp]: "max_of_last_byte = 15"
  by (simp add: max_of_last_byte_def)

section \<open>Encoder\<close>

text \<open>The loop over the output buffer, with the number of slots left.\<close>

primrec varint_loop :: "nat \<Rightarrow> u32 \<Rightarrow> bytes" where
  "varint_loop 0 v = []"
| "varint_loop (Suc k) v =
     (if v < 128 then [ucast v]
      else (ucast v OR 0x80) # varint_loop k (drop_bit 7 v))"

definition varint_u32 :: "u32 \<Rightarrow> bytes" where
  "varint_u32 n = varint_loop varint_max n"

definition write_v32 :: "byteorder \<Rightarrow> bool \<Rightarrow> u32 \<Rightarrow> bytes" where
  "write_v32 bo varint n = (if \<not> varint then put32 bo n else varint_u32 n)"

section \<open>Decoder\<close>

record varint_decoder =
  acc :: u32
  pos :: nat

definition new_decoder :: varint_decoder where
  "new_decoder = \<lparr>acc = 0, pos = 0\<rparr>"

definition decoder_is_empty :: "varint_decoder \<Rightarrow> bool" where
  "decoder_is_empty d \<longleftrightarrow> pos d = 0"

definition decode :: "varint_decoder \<Rightarrow> u8 \<Rightarrow> varint_decoder \<times> (io_error + u32 option)" where
  "decode d val =
     (let carry = ucast (val AND 0x7F) :: u32;
          d = d\<lparr>acc := acc d OR push_bit (7 * pos d) carry\<rparr>
      in if val AND 0x80 = 0 then
           (if pos d = varint_max - 1 \<and> val > max_of_last_byte
            then (d, Inl (InvalidData ''invalid varint''))
            else (d\<lparr>acc := 0, pos := 0\<rparr>, Inr (Some (acc d))))
         else
           (let d = d\<lparr>pos := pos d + 1\<rparr>
            in (d, if pos d < varint_max then Inr None
                   else Inl (InvalidData ''invalid varint''))))"

fun read_varint :: "varint_decoder \<Rightarrow> u32 reader" where
  "read_varint d [] = Inl UnexpectedEof"
| "read_varint d (val # bs) =
     (case decode d val of
        (d', Inl e) \<Rightarrow> Inl e
      | (d', Inr (Some out)) \<Rightarrow> Inr (out, bs)
      | (d', Inr None) \<Rightarrow> read_varint d' bs)"

definition read_v32 :: "byteorder \<Rightarrow> bool \<Rightarrow> u32 reader" where
  "read_v32 bo varint = (if \<not> varint then read_u32 bo else read_varint new_decoder)"

section \<open>Bits\<close>

lemma mask7: "x AND 127 = take_bit 7 (x :: 'a :: len word)"
  by (simp add: take_bit_eq_mask mask_eq_exp_minus_1)

lemma ucast_take7: "ucast (ucast (v :: u32) AND 127 :: u8) = take_bit 7 v"
  by (rule bit_word_eqI) (auto simp: mask7 bit_simps)

lemma continue_bit: "((ucast (v :: u32) OR 128) AND 128 :: u8) \<noteq> 0"
proof -
  have "bit ((ucast v OR 128) AND 128 :: u8) 7"
    by (simp add: bit_simps)
  then show ?thesis
    by (metis bit_0_eq bot_apply bot_bool_def)
qed

lemma continue_payload: "((ucast (v :: u32) OR 128) AND 127 :: u8) = ucast v AND 127"
proof -
  have "(128 :: u8) AND 127 = 0"
    by simp
  then show ?thesis
    by (simp add: bit.conj_disj_distrib2)
qed

lemma small_no_continue:
  assumes "v < (128 :: u32)"
  shows "(ucast v AND 128 :: u8) = 0" and "take_bit 7 v = v"
proof -
  show v: "take_bit 7 v = v"
    using assms
    by (simp add: word_unat_eq_iff unsigned_take_bit_eq take_bit_nat_eq_self_iff word_less_nat_alt)
  have "\<not> bit (ucast v :: u8) 7"
    using v by (metis bit_take_bit_iff bit_ucast_iff less_irrefl)
  then have "(ucast v AND 2 ^ 7 :: u8) = 0"
    by (subst and_exp_eq_0_iff_not_bit)
  then show "(ucast v AND 128 :: u8) = 0"
    by simp
qed

lemma push_bit_split7:
  "push_bit n (take_bit 7 v) OR push_bit (7 + n) (drop_bit 7 v) = push_bit n (v :: u32)"
proof (rule bit_word_eqI)
  fix k assume "k < LENGTH(32)"
  moreover have "7 + (k - (7 + n)) = k - n" if "7 + n \<le> k"
    using that by simp
  ultimately show "bit (push_bit n (take_bit 7 v) OR push_bit (7 + n) (drop_bit 7 v)) k \<longleftrightarrow>
      bit (push_bit n v) k"
    by (cases "7 + n \<le> k") (auto simp: bit_simps)
qed

lemma unat_drop_bit7: "unat (drop_bit 7 v :: u32) = unat v div 128"
  by (subst unat_drop_bit_eq) (simp add: drop_bit_eq_div)

section \<open>Reading back what was written\<close>

text \<open>
  The loop invariant of the decoder: it holds the bits below \<open>7 * p\<close> of the value, and the
  encoder is about to write the rest, of which \<open>32 - 7 * p\<close> bits can be set.
\<close>

lemma read_varint_loop:
  assumes "k + p = 5" "unat v < 2 ^ (32 - 7 * p)" "0 < k"
  shows "read_varint \<lparr>acc = a, pos = p\<rparr> (varint_loop k v @ rest) =
    Inr (a OR push_bit (7 * p) v, rest)"
  using assms
proof (induction k arbitrary: v p a)
  case (Suc k)
  show ?case
  proof (cases "v < 128")
    case True
    have "\<not> ((ucast v :: u8) > 15)" if "p = 4"
      using Suc.prems(2) that by (simp add: word_less_nat_alt unsigned_ucast_eq take_bit_nat_eq_self)
    moreover have "push_bit (7 * p) (ucast (ucast v AND 127 :: u8)) = push_bit (7 * p) v"
      using True by (simp add: ucast_take7 small_no_continue)
    ultimately show ?thesis
      using True small_no_continue [OF True] by (auto simp: decode_def Let_def)
  next
    case False
    then have big: "128 \<le> unat v"
      by (simp add: word_less_nat_alt)
    have "p < 4"
    proof (rule ccontr)
      assume "\<not> p < 4"
      with Suc.prems have "p = 4" by simp
      with Suc.prems(2) big show False by simp
    qed
    have "32 - 7 * p = 7 + (32 - 7 * Suc p)"
      using \<open>p < 4\<close> by simp
    then have "(2 :: nat) ^ (32 - 7 * p) = 128 * 2 ^ (32 - 7 * Suc p)"
      by (simp only: power_add) simp
    with Suc.prems(2) have "unat (drop_bit 7 v) < 2 ^ (32 - 7 * Suc p)"
      by (simp add: unat_drop_bit7 less_mult_imp_div_less mult.commute)
    with Suc.IH [of "Suc p" "drop_bit 7 v" "a OR push_bit (7 * p) (take_bit 7 v)"] Suc.prems \<open>p < 4\<close>
    have "read_varint \<lparr>acc = a OR push_bit (7 * p) (take_bit 7 v), pos = Suc p\<rparr>
        (varint_loop k (drop_bit 7 v) @ rest) =
      Inr (a OR push_bit (7 * p) v, rest)"
      by (simp add: or.assoc push_bit_split7)
    then show ?thesis
      using False \<open>p < 4\<close>
      by (simp add: decode_def Let_def continue_bit continue_payload ucast_take7)
  qed
qed simp

lemma read_varint_u32:
  "read_varint new_decoder (varint_u32 n @ rest) = Inr (n, rest)"
  using read_varint_loop [of 5 0 n 0 rest] by (simp add: new_decoder_def varint_u32_def)

lemma length_varint_loop:
  "0 < k \<Longrightarrow> 1 \<le> length (varint_loop k v) \<and> length (varint_loop k v) \<le> k"
proof (induction k arbitrary: v)
  case (Suc k)
  then show ?case
    by (cases k) auto
qed simp

lemma length_varint_u32: "1 \<le> length (varint_u32 n) \<and> length (varint_u32 n) \<le> 5"
  using length_varint_loop [of 5 n] by (simp add: varint_u32_def)

lemma length_write_v32:
  "byteorder_ok bo \<Longrightarrow> 1 \<le> length (write_v32 bo varint n) \<and> length (write_v32 bo varint n) \<le> 5"
  using length_varint_u32 [of n] by (simp add: write_v32_def byteorder_ok_def)

lemma read_write_v32 [codec_simps]:
  assumes "byteorder_ok bo"
  shows "read_v32 bo varint (write_v32 bo varint n @ rest) = Inr (n, rest)"
proof -
  have "read_u32 bo (put32 bo n @ rest) = Inr (n, rest)"
    using assms by (intro byteorder_codec.read_u32_put) (simp add: byteorder_ok_iff)
  then show ?thesis
    by (simp add: read_v32_def write_v32_def read_varint_u32)
qed

section \<open>The decoder on arbitrary input\<close>

text \<open>The decoder only ever continues with \<^verbatim>\<open>pos\<close> below \<^verbatim>\<open>varint_max\<close>, so its shift stays below
  the width of the value.\<close>

lemma decode_pos: "decode d val = (d', Inr r) \<Longrightarrow> pos d' < varint_max"
  by (auto simp: decode_def Let_def split: if_splits)

lemma decode_Some_reset: "decode d val = (d', Inr (Some n)) \<Longrightarrow> d' = new_decoder"
  by (auto simp: decode_def Let_def new_decoder_def split: if_splits)

lemma decode_None_pos: "decode d val = (d', Inr None) \<Longrightarrow> pos d' = Suc (pos d) \<and> pos d' < 5"
  by (auto simp: decode_def Let_def split: if_splits)

lemma read_varint_consumes:
  assumes "read_varint d bs = Inr (n, rest)" "pos d < 5"
  shows "\<exists>used. bs = used @ rest \<and> 1 \<le> length used \<and> length used + pos d \<le> 5"
  using assms
proof (induction d bs rule: read_varint.induct)
  case (2 d val bs)
  obtain d' r where dec: "decode d val = (d', r)"
    by (cases "decode d val")
  show ?case
  proof (cases r)
    case (Inr out)
    show ?thesis
    proof (cases out)
      case None
      with dec Inr have p: "pos d' = Suc (pos d)" "pos d' < 5"
        using decode_None_pos [of d val d'] by auto
      with "2.IH" [OF dec [symmetric] Inr None] "2.prems" dec Inr None
      obtain used where "bs = used @ rest" "1 \<le> length used" "length used + pos d' \<le> 5"
        by auto
      with p show ?thesis
        by (intro exI [of _ "val # used"]) auto
    next
      case (Some m)
      with dec Inr "2.prems" show ?thesis
        by (intro exI [of _ "[val]"]) auto
    qed
  qed (use "2.prems" dec in auto)
qed simp

lemma read_v32_consumes:
  assumes "read_v32 bo varint bs = Inr (n, rest)"
  shows "\<exists>used. bs = used @ rest \<and> 1 \<le> length used \<and> length used \<le> 5"
proof (cases varint)
  case True
  with assms read_varint_consumes [of new_decoder bs n rest] show ?thesis
    by (auto simp: read_v32_def new_decoder_def)
next
  case False
  with assms have "rest = drop 4 bs" "4 \<le> length bs"
    by (auto simp: read_v32_def read_u32_def rmap_def rbind_def rret_def read_exact_def split: if_splits)
  then show ?thesis
    by (intro exI [of _ "take 4 bs"]) auto
qed

lemma read_v32_shorter: "read_v32 bo varint bs = Inr (n, rest) \<Longrightarrow> length rest < length bs"
  using read_v32_consumes by fastforce

section \<open>Properties\<close>

text \<open>C26: Reading an integer written by \<^verbatim>\<open>write_v32\<close> gives the integer back and leaves exactly the
  bytes after it, in both encodings.\<close>

theorem v32_roundtrip:
  assumes "byteorder_ok bo"
  shows "read_v32 bo varint (write_v32 bo varint n @ rest) = Inr (n, rest)"
  using assms by (rule read_write_v32)

theorem v32_roundtrip_witness:
  "read_v32 le_byteorder True (write_v32 le_byteorder True 4294967295 @ [7]) = Inr (4294967295, [7])"
  by (rule v32_roundtrip [OF le_byteorder_ok])

text \<open>Decoding never looks at more than five bytes: whatever the input, a successful read of a
  variable integer consumes between one and five bytes of it, and the bytes consumed are a prefix
  of the input.\<close>

theorem varint_read_bounded:
  assumes "read_v32 bo varint bs = Inr (n, rest)"
  shows "\<exists>used. bs = used @ rest \<and> 1 \<le> length used \<and> length used \<le> varint_max"
  using read_v32_consumes [OF assms] by simp

theorem varint_read_bounded_witness:
  "\<exists>used. [0x80, 0x01, 9] = used @ [9 :: u8] \<and> 1 \<le> length used \<and> length used \<le> varint_max"
proof -
  have "read_v32 le_byteorder True [0x80, 0x01, 9] = Inr (128, [9])"
    by (simp add: read_v32_def new_decoder_def decode_def Let_def)
  then show ?thesis by (rule varint_read_bounded)
qed

end
