(* ===== verification/Sizer.thy ===== *)
theory Sizer
  imports Prelude
begin

text \<open>
  Receive buffer sizing of \<^verbatim>\<open>remoc/src/chmux/sizer.rs\<close>: the credit report exchanged between
  the endpoints, the default return threshold of a buffer size, and the two buffer sizers
  \<^verbatim>\<open>FixedBuffer\<close> and \<^verbatim>\<open>DynamicBuffer\<close>. The trait \<^verbatim>\<open>BufferSizer\<close> is the locale
  \<open>buffer_sizer\<close>: what the multiplexer asserts of every answer of a sizer.
\<close>

record credits_report =
  rep_current :: u32
  rep_min :: u32
  rep_seq :: u8

definition report_initial :: "u32 \<Rightarrow> credits_report" where
  "report_initial credits = \<lparr>rep_current = credits, rep_min = credits, rep_seq = 0\<rparr>"

definition report_consume :: "credits_report \<Rightarrow> u32 \<Rightarrow> credits_report" where
  "report_consume r credits =
     (let current = saturating_sub (rep_current r) credits
      in r\<lparr>rep_current := current, rep_min := min (rep_min r) current\<rparr>)"

record buffer_query =
  q_current_size :: u32
  q_used :: u32
  q_returnable :: u32
  q_seq :: u8
  q_report :: credits_report
  q_report_is_current :: bool

record buffer_size =
  bs_size :: u32
  bs_return_threshold :: u32
  bs_force_return :: bool

definition new_buffer_size :: "u32 \<Rightarrow> buffer_size" where
  "new_buffer_size sz =
     \<lparr>bs_size = sz, bs_return_threshold = clamp 1 1048576 (sz div 10), bs_force_return = False\<rparr>"

section \<open>Fixed buffer\<close>

type_synonym fixed_buffer = buffer_size

definition fixed_new :: "u32 \<Rightarrow> fixed_buffer" where
  "fixed_new sz = new_buffer_size sz"

definition fixed_initial :: "fixed_buffer \<Rightarrow> fixed_buffer \<times> buffer_size" where
  "fixed_initial b = (b, b)"

definition fixed_size :: "fixed_buffer \<Rightarrow> buffer_query \<Rightarrow> fixed_buffer \<times> buffer_size" where
  "fixed_size b query = (b, b)"

section \<open>Dynamic buffer\<close>

record dynamic_buffer =
  db_min :: u32
  db_max :: u32
  db_level_quot :: u32
  db_current :: buffer_size
  db_low_level :: u32
  db_high_level :: u32
  db_record_max :: u32

text \<open>\<^verbatim>\<open>new\<close> panics when the limits are the wrong way round, \<^verbatim>\<open>set_size\<close> when the public
  \<^verbatim>\<open>level_quot\<close> has been set to zero.\<close>

definition dynamic_new :: "u32 \<Rightarrow> u32 \<Rightarrow> dynamic_buffer option" where
  "dynamic_new mn mx =
     (if mn \<le> mx
      then Some \<lparr>db_min = mn, db_max = mx, db_level_quot = 2, db_current = new_buffer_size 0,
                 db_low_level = 0, db_high_level = 0, db_record_max = 0\<rparr>
      else None)"

definition set_size :: "dynamic_buffer \<Rightarrow> u32 \<Rightarrow> dynamic_buffer option" where
  "set_size b sz =
     (let sz = clamp (db_min b) (db_max b) sz
      in if bs_size (db_current b) = sz then Some b
         else if db_level_quot b = 0 then None
         else
           (let low = clamp 1024 1048576 (sz div db_level_quot b);
                b = b\<lparr>db_current := new_buffer_size sz, db_low_level := low, db_high_level := 4 * low\<rparr>
            in Some (if sz > db_record_max b then b\<lparr>db_record_max := sz\<rparr> else b)))"

definition dynamic_initial :: "dynamic_buffer \<Rightarrow> (dynamic_buffer \<times> buffer_size) option" where
  "dynamic_initial b = map_option (\<lambda>b. (b, db_current b)) (set_size b (db_min b))"

definition dynamic_size ::
  "dynamic_buffer \<Rightarrow> buffer_query \<Rightarrow> (dynamic_buffer \<times> buffer_size) option" where
  "dynamic_size b query =
     (if \<not> q_report_is_current query \<or> q_current_size query \<noteq> bs_size (db_current b)
      then Some (b, db_current b)
      else map_option (\<lambda>b. (b, db_current b))
        (if rep_min (q_report query) < db_low_level b
         then set_size b (saturating_mul (bs_size (db_current b)) 4)
         else if rep_min (q_report query) > db_high_level b
         then (let diff = min ((rep_min (q_report query) - db_high_level b) div 2) 65536
               in set_size b (saturating_sub (bs_size (db_current b)) diff))
         else Some b))"

section \<open>The interface the multiplexer relies on\<close>

text \<open>The multiplexer asserts that the return threshold of every answer is positive and not
  above the size.\<close>

definition valid_size :: "buffer_size \<Rightarrow> bool" where
  "valid_size s \<longleftrightarrow> 0 < bs_return_threshold s \<and> bs_return_threshold s \<le> bs_size s"

locale buffer_sizer =
  fixes initial :: "'b \<Rightarrow> ('b \<times> buffer_size) option"
    and size_of :: "'b \<Rightarrow> buffer_query \<Rightarrow> ('b \<times> buffer_size) option"
    and ready :: "'b \<Rightarrow> bool"
    and running :: "'b \<Rightarrow> bool"
  assumes initial_runs: "ready b \<Longrightarrow> \<exists>b' s. initial b = Some (b', s) \<and> running b' \<and> valid_size s"
    and size_runs: "running b \<Longrightarrow> \<exists>b' s. size_of b q = Some (b', s) \<and> running b' \<and> valid_size s"
begin

primrec answers :: "'b \<Rightarrow> buffer_query list \<Rightarrow> buffer_size list option" where
  "answers b [] = Some []"
| "answers b (q # qs) =
     (case size_of b q of None \<Rightarrow> None
      | Some (b', s) \<Rightarrow> map_option ((#) s) (answers b' qs))"

lemma answers_valid:
  "running b \<Longrightarrow> \<exists>ss. answers b qs = Some ss \<and> length ss = length qs \<and> (\<forall>s \<in> set ss. valid_size s)"
proof (induction qs arbitrary: b)
  case (Cons q qs)
  obtain b' s where "size_of b q = Some (b', s)" "running b'" "valid_size s"
    using size_runs [OF Cons.prems] by blast
  with Cons.IH [of b'] show ?case
    by auto
qed simp

end

lemma new_buffer_size_valid: "0 < sz \<Longrightarrow> valid_size (new_buffer_size sz)"
proof -
  assume "0 < sz"
  moreover have "unat (sz div 10) \<le> unat sz"
    by (simp add: unat_div_u32)
  ultimately show ?thesis
    by (auto simp: valid_size_def new_buffer_size_def clamp_def word_le_nat_alt word_less_nat_alt
        unat_div_u32)
qed

lemma bs_size_new [simp]: "bs_size (new_buffer_size sz) = sz"
  by (simp add: new_buffer_size_def)

interpretation fixed: buffer_sizer
  "\<lambda>b. Some (fixed_initial b)" "\<lambda>b q. Some (fixed_size b q)" valid_size valid_size
  by unfold_locales (auto simp: fixed_initial_def fixed_size_def)

text \<open>A dynamic buffer that has been set up: limits in order and positive, a usable quotient,
  and a current size within the limits with the default threshold.\<close>

definition dynamic_config :: "dynamic_buffer \<Rightarrow> bool" where
  "dynamic_config b \<longleftrightarrow> 0 < db_min b \<and> db_min b \<le> db_max b \<and> db_level_quot b \<noteq> 0"

definition dynamic_ready :: "dynamic_buffer \<Rightarrow> bool" where
  "dynamic_ready b \<longleftrightarrow> dynamic_config b \<and> db_current b = new_buffer_size (bs_size (db_current b))"

definition dynamic_running :: "dynamic_buffer \<Rightarrow> bool" where
  "dynamic_running b \<longleftrightarrow> dynamic_ready b \<and>
     db_min b \<le> bs_size (db_current b) \<and> bs_size (db_current b) \<le> db_max b"

lemma set_size_running:
  assumes "dynamic_ready b"
  shows "\<exists>b'. set_size b sz = Some b' \<and> dynamic_running b' \<and> valid_size (db_current b') \<and>
     bs_size (db_current b') = clamp (db_min b) (db_max b) sz \<and>
     db_min b' = db_min b \<and> db_max b' = db_max b"
proof -
  let ?c = "clamp (db_min b) (db_max b) sz"
  have cfg: "0 < db_min b" "db_min b \<le> db_max b" "db_level_quot b \<noteq> 0"
    and cur: "db_current b = new_buffer_size (bs_size (db_current b))"
    using assms by (auto simp: dynamic_ready_def dynamic_config_def)
  have c: "db_min b \<le> ?c" "?c \<le> db_max b"
    using clamp_bounds [OF cfg(2)] by auto
  then have "0 < ?c"
    using cfg(1) by (meson less_le_trans)
  then have v: "valid_size (new_buffer_size ?c)"
    by (rule new_buffer_size_valid)
  show ?thesis
    using cfg c v cur by (auto simp: set_size_def Let_def dynamic_running_def dynamic_ready_def dynamic_config_def)
qed

lemma dynamic_running_valid: "dynamic_running b \<Longrightarrow> valid_size (db_current b)"
  using new_buffer_size_valid [of "bs_size (db_current b)"]
  by (auto simp: dynamic_running_def dynamic_ready_def dynamic_config_def
      dest: less_le_trans)

lemma dynamic_size_cases:
  "dynamic_size b q = Some (b, db_current b) \<or>
   (\<exists>n. dynamic_size b q = map_option (\<lambda>b. (b, db_current b)) (set_size b n))"
  by (auto simp: dynamic_size_def Let_def)

interpretation dynamic: buffer_sizer dynamic_initial dynamic_size dynamic_ready dynamic_running
proof
  show "\<exists>b' s. dynamic_initial b = Some (b', s) \<and> dynamic_running b' \<and> valid_size s"
    if "dynamic_ready b" for b
    using set_size_running [OF that, of "db_min b"] by (auto simp: dynamic_initial_def)
  show "\<exists>b' s. dynamic_size b q = Some (b', s) \<and> dynamic_running b' \<and> valid_size s"
    if "dynamic_running b" for b q
    using dynamic_size_cases [of b q] that dynamic_running_valid [OF that]
      set_size_running [of b] by (fastforce simp: dynamic_running_def)
qed

lemma dynamic_size_limits:
  assumes "dynamic_running b" "dynamic_size b q = Some (b', s)"
  shows "db_min b \<le> bs_size s \<and> bs_size s \<le> db_max b \<and> db_min b' = db_min b \<and> db_max b' = db_max b"
proof -
  have ready: "dynamic_ready b"
    using assms(1) by (simp add: dynamic_running_def)
  show ?thesis
    using dynamic_size_cases [of b q]
  proof (elim disjE exE)
    fix n assume "dynamic_size b q = map_option (\<lambda>b. (b, db_current b)) (set_size b n)"
    with assms set_size_running [OF ready, of n] clamp_bounds [of "db_min b" "db_max b" n] ready
    show ?thesis by (auto simp: dynamic_ready_def dynamic_config_def)
  qed (use assms in \<open>auto simp: dynamic_running_def\<close>)
qed

end
