(* ===== verification/PortAlloc.thy ===== *)
theory PortAlloc
  imports Prelude "HOL-Library.Multiset"
begin

text \<open>
  Port numbers of \<^verbatim>\<open>remoc/src/chmux/port_allocator.rs\<close>. The shared state of the allocator is
  the record \<open>port_alloc\<close>; every operation on it is a function, the drops of the handle types
  included. The handles themselves (\<^verbatim>\<open>ReservedPort\<close>, \<^verbatim>\<open>AllocatedLocalPort\<close>,
  \<^verbatim>\<open>PreAllocatedLocalPort\<close>, \<^verbatim>\<open>AllocatedRemotePort\<close>) are collected in the step relation
  \<open>pa_step\<close>, where an operation needs the handle it consumes. The invariant relates the
  handles to the counters and sets: numbers are unique, the port limit holds, a freed number
  stays out of use for a while, and no operation panics or searches forever.
\<close>

section \<open>Sides of a port\<close>

datatype side_port = Local u32 | Remote u32

fun is_local :: "side_port \<Rightarrow> bool" where
  "is_local (Local _) = True"
| "is_local (Remote _) = False"

fun is_remote :: "side_port \<Rightarrow> bool" where
  "is_remote (Remote _) = True"
| "is_remote (Local _) = False"

fun flipped :: "side_port \<Rightarrow> side_port" where
  "flipped (Local port) = Remote port"
| "flipped (Remote port) = Local port"

fun port_num :: "side_port \<Rightarrow> u32" where
  "port_num (Local num) = num"
| "port_num (Remote num) = num"

lemma flipped_flipped [simp]: "flipped (flipped p) = p"
  by (cases p) auto

lemma is_local_flipped [simp]: "is_local (flipped p) = is_remote p"
  by (cases p) auto

lemma port_num_flipped [simp]: "port_num (flipped p) = port_num p"
  by (cases p) auto

lemma side_port_eqI: "is_local p = is_local q \<Longrightarrow> port_num p = port_num q \<Longrightarrow> p = q"
  by (cases p; cases q) auto

section \<open>Allocator state\<close>

datatype on_ports_exhausted = Fail | Wait | Timeout nat

text \<open>\<^verbatim>\<open>try_exhausted\<close>: the result of waiting is \<open>None\<close> when it did not finish within the
  duration.\<close>

definition try_exhausted :: "on_ports_exhausted \<Rightarrow> 'a \<Rightarrow> (nat \<Rightarrow> 'a option) \<Rightarrow> 'a option \<Rightarrow> 'a option" where
  "try_exhausted policy waited waited_for tried =
     (case policy of Fail \<Rightarrow> tried | Wait \<Rightarrow> Some waited | Timeout d \<Rightarrow> waited_for d)"

record port_alloc =
  local_used :: "u32 set"
  local_pre_allocated :: "u32 set"
  remote_used :: "u32 set"
  reserved :: nat
  quarantined_set :: "u32 set"
  quarantined_list :: "u32 list"
  limit :: nat
  next_number :: u32

definition PRE_ALLOCATED_LIMIT :: nat where
  "PRE_ALLOCATED_LIMIT = 131072"

definition new_port_alloc :: "u32 \<Rightarrow> port_alloc" where
  "new_port_alloc port_limit =
     \<lparr>local_used = {}, local_pre_allocated = {}, remote_used = {}, reserved = 0,
      quarantined_set = {}, quarantined_list = [], limit = unat port_limit, next_number = 0\<rparr>"

definition is_available :: "port_alloc \<Rightarrow> bool" where
  "is_available p \<longleftrightarrow> card (local_used p) + card (remote_used p) + reserved p < limit p"

text \<open>The search loops: \<open>None\<close> when every number is taken, so that they never end.\<close>

partial_function (option) next_free :: "(u32 \<Rightarrow> bool) \<Rightarrow> u32 \<Rightarrow> u32 option" where
  "next_free taken n =
     (if \<not> taken (n + 1) then Some (n + 1) else next_free taken (n + 1))"

definition try_allocate_pre_allocated :: "port_alloc \<Rightarrow> u32 \<Rightarrow> (bool \<times> port_alloc) exec" where
  "try_allocate_pre_allocated p number =
     (if is_available p \<and> number \<notin> local_used p \<and> number \<notin> quarantined_set p
      then (if number \<in> local_pre_allocated p
            then Ret (True, p\<lparr>local_used := insert number (local_used p),
                              local_pre_allocated := local_pre_allocated p - {number}\<rparr>)
            else Panic)
      else Ret (False, p))"

definition try_allocate_local :: "port_alloc \<Rightarrow> (u32 option \<times> port_alloc) option" where
  "try_allocate_local p =
     (if \<not> is_available p then Some (None, p)
      else case next_free (\<lambda>n. \<not> (is_available p \<and> n \<notin> local_used p \<and> n \<notin> local_pre_allocated p
                                  \<and> n \<notin> quarantined_set p)) (next_number p) of
        None \<Rightarrow> None
      | Some number \<Rightarrow>
          Some (Some number, p\<lparr>next_number := number, local_used := insert number (local_used p)\<rparr>))"

definition try_pre_allocate_local :: "port_alloc \<Rightarrow> (u32 option \<times> port_alloc) option" where
  "try_pre_allocate_local p =
     (if card (local_pre_allocated p) \<ge> PRE_ALLOCATED_LIMIT then Some (None, p)
      else case next_free (\<lambda>n. \<not> (n \<notin> local_used p \<and> n \<notin> local_pre_allocated p
                                  \<and> n \<notin> quarantined_set p)) (next_number p) of
        None \<Rightarrow> None
      | Some number \<Rightarrow>
          Some (Some number,
            p\<lparr>next_number := number, local_pre_allocated := insert number (local_pre_allocated p)\<rparr>))"

datatype remote_alloc = NoPorts | AlreadyAllocated u32 | AllocatedRemote u32

definition try_allocate_remote :: "port_alloc \<Rightarrow> u32 \<Rightarrow> remote_alloc \<times> port_alloc" where
  "try_allocate_remote p number =
     (if \<not> is_available p then (NoPorts, p)
      else if number \<notin> remote_used p
           then (AllocatedRemote number, p\<lparr>remote_used := insert number (remote_used p)\<rparr>)
           else (AlreadyAllocated number, p))"

definition try_reserve :: "port_alloc \<Rightarrow> bool \<times> port_alloc" where
  "try_reserve p =
     (if \<not> is_available p then (False, p) else (True, p\<lparr>reserved := reserved p + 1\<rparr>))"

section \<open>Handles\<close>

text \<open>\<^verbatim>\<open>ReservedPort::into_local\<close> and \<^verbatim>\<open>into_remote\<close>; the \<^verbatim>\<open>unwrap\<close>s and the unsigned
  subtraction panic where they fail. \<open>None\<close> is a search that never ends.\<close>

definition into_local :: "port_alloc \<Rightarrow> (u32 \<times> port_alloc) exec option" where
  "into_local p =
     (if reserved p = 0 then Some Panic
      else case try_allocate_local (p\<lparr>reserved := reserved p - 1\<rparr>) of
        None \<Rightarrow> None
      | Some (None, p') \<Rightarrow> Some Panic
      | Some (Some number, p') \<Rightarrow> Some (Ret (number, p')))"

definition into_remote :: "port_alloc \<Rightarrow> u32 \<Rightarrow> (remote_alloc \<times> port_alloc) exec" where
  "into_remote p remote_port =
     (if reserved p = 0 then Panic
      else case try_allocate_remote (p\<lparr>reserved := reserved p - 1\<rparr>) remote_port of
        (NoPorts, p') \<Rightarrow> Panic
      | (r, p') \<Rightarrow> Ret (r, p'))"

definition drop_reserved :: "port_alloc \<Rightarrow> port_alloc exec" where
  "drop_reserved p = (if reserved p = 0 then Panic else Ret (p\<lparr>reserved := reserved p - 1\<rparr>))"

fun trim_quarantine :: "nat \<Rightarrow> u32 list \<Rightarrow> u32 set \<Rightarrow> u32 list \<times> u32 set" where
  "trim_quarantine lim [] s = ([], s)"
| "trim_quarantine lim (port # ports) s =
     (if length (port # ports) > lim + 1 then trim_quarantine lim ports (s - {port})
      else (port # ports, s))"

definition drop_local :: "port_alloc \<Rightarrow> u32 \<Rightarrow> port_alloc" where
  "drop_local p number =
     (let (ql, qs) = trim_quarantine (limit p) (quarantined_list p @ [number])
                       (insert number (quarantined_set p))
      in p\<lparr>local_used := local_used p - {number}, quarantined_list := ql, quarantined_set := qs\<rparr>)"

definition drop_pre_allocated :: "port_alloc \<Rightarrow> u32 \<Rightarrow> port_alloc" where
  "drop_pre_allocated p number = p\<lparr>local_pre_allocated := local_pre_allocated p - {number}\<rparr>"

definition drop_remote :: "port_alloc \<Rightarrow> u32 \<Rightarrow> port_alloc" where
  "drop_remote p number = p\<lparr>remote_used := remote_used p - {number}\<rparr>"

text \<open>\<^verbatim>\<open>PreAllocatedLocalPort::try_allocate\<close>: on success the consumed handle is dropped after
  the allocator has been unlocked.\<close>

definition pre_try_allocate :: "port_alloc \<Rightarrow> u32 \<Rightarrow> (bool \<times> port_alloc) exec" where
  "pre_try_allocate p number =
     exec_bind (try_allocate_pre_allocated p number)
       (\<lambda>(ok, p'). Ret (ok, if ok then drop_pre_allocated p' number else p'))"

text \<open>\<^verbatim>\<open>wait_allocate\<close> tries again whenever a port has been given back; its argument is the states
  it finds the allocator in, one for each try. \<open>None\<close> is that it still waits after these.\<close>

fun pre_wait_allocate :: "u32 \<Rightarrow> port_alloc list \<Rightarrow> bool exec option" where
  "pre_wait_allocate number [] = None"
| "pre_wait_allocate number (p # ps) =
     (case pre_try_allocate p number of
        Panic \<Rightarrow> Some Panic
      | Ret (True, _) \<Rightarrow> Some (Ret True)
      | Ret (False, _) \<Rightarrow> pre_wait_allocate number ps)"

text \<open>\<^verbatim>\<open>PreAllocatedLocalPort::try_allocate\<close> and \<^verbatim>\<open>allocate\<close> as the caller sees them: whether the
  port is allocated, or \<^verbatim>\<open>PortsExhausted\<close>. \<open>expired\<close> tells whether the timeout fires after
  the given tries.\<close>

definition pre_try_once :: "u32 \<Rightarrow> port_alloc list \<Rightarrow> bool exec option" where
  "pre_try_once number ps =
     (case ps of [] \<Rightarrow> None | p # _ \<Rightarrow> Some (exec_bind (pre_try_allocate p number) (\<lambda>(ok, _). Ret ok)))"

definition pre_allocate_port ::
  "on_ports_exhausted \<Rightarrow> bool \<Rightarrow> u32 \<Rightarrow> port_alloc list \<Rightarrow> bool exec option" where
  "pre_allocate_port policy expired number ps =
     (case policy of
        Fail \<Rightarrow> pre_try_once number ps
      | Wait \<Rightarrow> pre_wait_allocate number ps
      | Timeout _ \<Rightarrow>
          (case pre_wait_allocate number ps of
             None \<Rightarrow> if expired then Some (Ret False) else None
           | r \<Rightarrow> r))"

section \<open>The search ends\<close>

lemma next_free_from:
  "\<not> taken (n + 1 + of_nat k) \<Longrightarrow> \<exists>r. next_free taken n = Some r \<and> \<not> taken r"
proof (induction k arbitrary: n)
  case (Suc k)
  show ?case
  proof (cases "taken (n + 1)")
    case True
    with Suc.IH [of "n + 1"] Suc.prems show ?thesis
      by (subst next_free.simps) (auto simp: algebra_simps)
  qed (subst next_free.simps, auto)
qed (subst next_free.simps, auto)

lemma next_free_returns:
  assumes "\<not> taken m"
  shows "\<exists>r. next_free taken n = Some r \<and> \<not> taken r"
proof -
  have "n + 1 + of_nat (unat (m - (n + 1))) = m"
    by simp
  with assms show ?thesis
    using next_free_from [of taken n "unat (m - (n + 1))"] by simp
qed

lemma next_free_Some:
  assumes "next_free taken n = Some r"
  shows "\<not> taken r"
  by (rule next_free.raw_induct [where P = "\<lambda>taken n r. \<not> taken r", OF _ assms])
    (auto split: if_splits)

lemma exists_free_number:
  assumes "finite (S :: u32 set)" "card S < 4294967296"
  shows "\<exists>m. m \<notin> S"
proof (rule ccontr)
  assume "\<nexists>m. m \<notin> S"
  then have "S = UNIV" by blast
  then have "card S = 4294967296" by (simp add: card_word)
  with assms show False by simp
qed

lemma trim_quarantine_eq:
  "trim_quarantine lim xs s = (drop (length xs - Suc lim) xs, s - set (take (length xs - Suc lim) xs))"
proof (induction lim xs s rule: trim_quarantine.induct)
  case (2 lim port ports s)
  show ?case
  proof (cases "length (port # ports) > lim + 1")
    case True
    then have "length (port # ports) - Suc lim = Suc (length ports - Suc lim)"
      by simp
    with True 2 show ?thesis by auto
  qed auto
qed simp

section \<open>Live handles and the step relation\<close>

datatype handle = HReserved | HLocal u32 | HPre u32 | HRemote u32

record pa_world =
  alloc :: port_alloc
  live :: "handle multiset"

definition pa_init :: "u32 \<Rightarrow> pa_world" where
  "pa_init port_limit = \<lparr>alloc = new_port_alloc port_limit, live = {#}\<rparr>"

text \<open>One step is one operation under the allocator's lock. An operation that consumes a handle
  needs it to be live.\<close>

inductive pa_step :: "pa_world \<Rightarrow> pa_world \<Rightarrow> bool" where
  reserve: "try_reserve p = (True, p') \<Longrightarrow>
     pa_step \<lparr>alloc = p, live = H\<rparr> \<lparr>alloc = p', live = add_mset HReserved H\<rparr>"
| pre_allocate: "try_pre_allocate_local p = Some (Some n, p') \<Longrightarrow>
     pa_step \<lparr>alloc = p, live = H\<rparr> \<lparr>alloc = p', live = add_mset (HPre n) H\<rparr>"
| allocate_pre: "pre_try_allocate p n = Ret (True, p') \<Longrightarrow>
     pa_step \<lparr>alloc = p, live = add_mset (HPre n) H\<rparr> \<lparr>alloc = p', live = add_mset (HLocal n) H\<rparr>"
| make_local: "into_local p = Some (Ret (n, p')) \<Longrightarrow>
     pa_step \<lparr>alloc = p, live = add_mset HReserved H\<rparr> \<lparr>alloc = p', live = add_mset (HLocal n) H\<rparr>"
| make_remote: "into_remote p r = Ret (AllocatedRemote n, p') \<Longrightarrow>
     pa_step \<lparr>alloc = p, live = add_mset HReserved H\<rparr> \<lparr>alloc = p', live = add_mset (HRemote n) H\<rparr>"
| remote_taken: "into_remote p r = Ret (AlreadyAllocated n, p') \<Longrightarrow>
     pa_step \<lparr>alloc = p, live = add_mset HReserved H\<rparr> \<lparr>alloc = p', live = H\<rparr>"
| release_reserved: "drop_reserved p = Ret p' \<Longrightarrow>
     pa_step \<lparr>alloc = p, live = add_mset HReserved H\<rparr> \<lparr>alloc = p', live = H\<rparr>"
| release_local: "pa_step \<lparr>alloc = p, live = add_mset (HLocal n) H\<rparr> \<lparr>alloc = drop_local p n, live = H\<rparr>"
| release_pre: "pa_step \<lparr>alloc = p, live = add_mset (HPre n) H\<rparr>
     \<lparr>alloc = drop_pre_allocated p n, live = H\<rparr>"
| release_remote: "pa_step \<lparr>alloc = p, live = add_mset (HRemote n) H\<rparr>
     \<lparr>alloc = drop_remote p n, live = H\<rparr>"

inductive pa_reachable :: "u32 \<Rightarrow> pa_world \<Rightarrow> bool" for lim where
  start: "pa_reachable lim (pa_init lim)"
| step: "pa_reachable lim w \<Longrightarrow> pa_step w w' \<Longrightarrow> pa_reachable lim w'"

section \<open>The invariant\<close>

text \<open>The handles determine the sets: a number is used exactly while a handle for it is live, and
  at most one is.\<close>

definition matches :: "u32 set \<Rightarrow> u32 set \<Rightarrow> u32 set \<Rightarrow> nat \<Rightarrow> handle multiset \<Rightarrow> bool" where
  "matches L P R r H \<longleftrightarrow>
     (\<forall>n. count H (HLocal n) = (if n \<in> L then 1 else 0)) \<and>
     (\<forall>n. count H (HPre n) = (if n \<in> P then 1 else 0)) \<and>
     (\<forall>n. count H (HRemote n) = (if n \<in> R then 1 else 0)) \<and>
     count H HReserved = r"

definition handles_match :: "port_alloc \<Rightarrow> handle multiset \<Rightarrow> bool" where
  "handles_match p H \<longleftrightarrow>
     matches (local_used p) (local_pre_allocated p) (remote_used p) (reserved p) H"

lemma matches_add:
  "matches L P R r H \<Longrightarrow> n \<notin> L \<Longrightarrow> matches (insert n L) P R r (add_mset (HLocal n) H)"
  "matches L P R r H \<Longrightarrow> n \<notin> P \<Longrightarrow> matches L (insert n P) R r (add_mset (HPre n) H)"
  "matches L P R r H \<Longrightarrow> n \<notin> R \<Longrightarrow> matches L P (insert n R) r (add_mset (HRemote n) H)"
  "matches L P R r H \<Longrightarrow> matches L P R (Suc r) (add_mset HReserved H)"
  by (simp_all add: matches_def)

lemma matches_remove_local:
  assumes "matches L P R r (add_mset (HLocal n) H)"
  shows "n \<in> L" and "matches (L - {n}) P R r H"
proof -
  have c: "count (add_mset (HLocal n) H) (HLocal m) = (if m \<in> L then 1 else 0)" for m
    using assms by (simp add: matches_def)
  show "n \<in> L" using c [of n] by (simp split: if_splits)
  have "count H (HLocal m) = (if m \<in> L - {n} then 1 else 0)" for m
    using c [of m] by (auto split: if_splits)
  with assms show "matches (L - {n}) P R r H"
    by (simp add: matches_def)
qed

lemma matches_remove_pre:
  assumes "matches L P R r (add_mset (HPre n) H)"
  shows "n \<in> P" and "matches L (P - {n}) R r H"
proof -
  have c: "count (add_mset (HPre n) H) (HPre m) = (if m \<in> P then 1 else 0)" for m
    using assms by (simp add: matches_def)
  show "n \<in> P" using c [of n] by (simp split: if_splits)
  have "count H (HPre m) = (if m \<in> P - {n} then 1 else 0)" for m
    using c [of m] by (auto split: if_splits)
  with assms show "matches L (P - {n}) R r H"
    by (simp add: matches_def)
qed

lemma matches_remove_remote:
  assumes "matches L P R r (add_mset (HRemote n) H)"
  shows "n \<in> R" and "matches L P (R - {n}) r H"
proof -
  have c: "count (add_mset (HRemote n) H) (HRemote m) = (if m \<in> R then 1 else 0)" for m
    using assms by (simp add: matches_def)
  show "n \<in> R" using c [of n] by (simp split: if_splits)
  have "count H (HRemote m) = (if m \<in> R - {n} then 1 else 0)" for m
    using c [of m] by (auto split: if_splits)
  with assms show "matches L P (R - {n}) r H"
    by (simp add: matches_def)
qed

lemma matches_remove_reserved:
  "matches L P R r (add_mset HReserved H) \<Longrightarrow> 0 < r \<and> matches L P R (r - 1) H"
  by (auto simp: matches_def)

definition numbers_ok :: "port_alloc \<Rightarrow> bool" where
  "numbers_ok p \<longleftrightarrow>
     local_used p \<inter> local_pre_allocated p = {} \<and>
     local_used p \<inter> quarantined_set p = {} \<and>
     local_pre_allocated p \<inter> quarantined_set p = {} \<and>
     card (local_used p) + card (remote_used p) + reserved p \<le> limit p \<and>
     card (local_pre_allocated p) \<le> PRE_ALLOCATED_LIMIT"

definition quarantine_ok :: "port_alloc \<Rightarrow> bool" where
  "quarantine_ok p \<longleftrightarrow>
     quarantined_set p = set (quarantined_list p) \<and> distinct (quarantined_list p) \<and>
     length (quarantined_list p) \<le> limit p + 1"

definition pa_inv :: "pa_world \<Rightarrow> bool" where
  "pa_inv w \<longleftrightarrow> handles_match (alloc w) (live w) \<and> numbers_ok (alloc w) \<and> quarantine_ok (alloc w)"

lemmas pa_inv_defs = pa_inv_def handles_match_def numbers_ok_def quarantine_ok_def

lemma finite_numbers [simp]: "finite (S :: u32 set)"
  by simp

lemma pa_inv_init: "pa_inv (pa_init lim)"
  by (simp add: pa_inv_defs matches_def pa_init_def new_port_alloc_def PRE_ALLOCATED_LIMIT_def)

lemma inv_reserve:
  "pa_inv \<lparr>alloc = p, live = H\<rparr> \<Longrightarrow> try_reserve p = (True, p') \<Longrightarrow>
   pa_inv \<lparr>alloc = p', live = add_mset HReserved H\<rparr>"
  by (auto simp: pa_inv_defs try_reserve_def is_available_def matches_add split: if_splits)

lemma inv_pre_allocate:
  assumes "pa_inv \<lparr>alloc = p, live = H\<rparr>" "try_pre_allocate_local p = Some (Some n, p')"
  shows "pa_inv \<lparr>alloc = p', live = add_mset (HPre n) H\<rparr>"
proof -
  from assms(2) have small: "card (local_pre_allocated p) < PRE_ALLOCATED_LIMIT"
    and free: "n \<notin> local_used p" "n \<notin> local_pre_allocated p" "n \<notin> quarantined_set p"
    and p': "p' = p\<lparr>next_number := n, local_pre_allocated := insert n (local_pre_allocated p)\<rparr>"
    by (auto simp: try_pre_allocate_local_def dest!: next_free_Some split: if_splits option.splits)
  with assms(1) show ?thesis
    by (auto simp: pa_inv_defs card_insert_if matches_add)
qed

lemma inv_allocate_pre:
  assumes "pa_inv \<lparr>alloc = p, live = add_mset (HPre n) H\<rparr>" "pre_try_allocate p n = Ret (True, p')"
  shows "pa_inv \<lparr>alloc = p', live = add_mset (HLocal n) H\<rparr>"
proof -
  from assms(2) have avail: "is_available p"
    and free: "n \<notin> local_used p" "n \<notin> quarantined_set p"
    and p': "p' = p\<lparr>local_used := insert n (local_used p),
                    local_pre_allocated := local_pre_allocated p - {n}\<rparr>"
    by (auto simp: pre_try_allocate_def try_allocate_pre_allocated_def drop_pre_allocated_def
        split: if_splits)
  moreover have "matches (local_used p) (local_pre_allocated p - {n}) (remote_used p) (reserved p) H"
    using assms(1) by (auto simp: pa_inv_def handles_match_def dest: matches_remove_pre)
  moreover have "card (local_pre_allocated p - {n}) \<le> card (local_pre_allocated p)"
    by (simp add: card_mono)
  ultimately show ?thesis
    using assms(1) by (auto simp: pa_inv_defs is_available_def card_insert_if matches_add)
qed

lemma inv_make_local:
  assumes "pa_inv \<lparr>alloc = p, live = add_mset HReserved H\<rparr>" "into_local p = Some (Ret (n, p'))"
  shows "pa_inv \<lparr>alloc = p', live = add_mset (HLocal n) H\<rparr>"
proof -
  from assms(2) have avail: "0 < reserved p" "is_available (p\<lparr>reserved := reserved p - 1\<rparr>)"
    and free: "n \<notin> local_used p" "n \<notin> local_pre_allocated p" "n \<notin> quarantined_set p"
    and p': "p' = p\<lparr>reserved := reserved p - 1, next_number := n,
                    local_used := insert n (local_used p)\<rparr>"
    by (auto simp: into_local_def try_allocate_local_def dest!: next_free_Some
        split: if_splits option.splits)
  moreover have "matches (local_used p) (local_pre_allocated p) (remote_used p) (reserved p - 1) H"
    using assms(1) by (auto simp: pa_inv_def handles_match_def dest: matches_remove_reserved)
  ultimately show ?thesis
    using assms(1) by (auto simp: pa_inv_defs is_available_def card_insert_if matches_add)
qed

lemma inv_make_remote:
  assumes "pa_inv \<lparr>alloc = p, live = add_mset HReserved H\<rparr>" "into_remote p r = Ret (res, p')"
  shows "pa_inv \<lparr>alloc = p', live = (case res of AllocatedRemote n \<Rightarrow> add_mset (HRemote n) H | _ \<Rightarrow> H)\<rparr>"
proof -
  have "0 < reserved p" "matches (local_used p) (local_pre_allocated p) (remote_used p) (reserved p - 1) H"
    using assms(1) by (auto simp: pa_inv_def handles_match_def dest: matches_remove_reserved)
  with assms show ?thesis
    by (auto simp: pa_inv_defs into_remote_def try_allocate_remote_def is_available_def
        card_insert_if matches_add split: if_splits)
qed

lemma inv_release_reserved:
  assumes "pa_inv \<lparr>alloc = p, live = add_mset HReserved H\<rparr>" "drop_reserved p = Ret p'"
  shows "pa_inv \<lparr>alloc = p', live = H\<rparr>"
  using assms
  by (auto simp: pa_inv_defs drop_reserved_def dest: matches_remove_reserved split: if_splits)

lemma inv_release_pre:
  assumes "pa_inv \<lparr>alloc = p, live = add_mset (HPre n) H\<rparr>"
  shows "pa_inv \<lparr>alloc = drop_pre_allocated p n, live = H\<rparr>"
proof -
  have "card (local_pre_allocated p - {n}) \<le> card (local_pre_allocated p)"
    by (simp add: card_mono)
  with assms show ?thesis
    by (auto simp: pa_inv_defs drop_pre_allocated_def dest: matches_remove_pre)
qed

lemma inv_release_remote:
  assumes "pa_inv \<lparr>alloc = p, live = add_mset (HRemote n) H\<rparr>"
  shows "pa_inv \<lparr>alloc = drop_remote p n, live = H\<rparr>"
proof -
  have "card (remote_used p - {n}) \<le> card (remote_used p)"
    by (simp add: card_mono)
  with assms show ?thesis
    by (auto simp: pa_inv_defs drop_remote_def dest: matches_remove_remote)
qed

text \<open>Dropping a local port: the number moves to the end of the quarantine, of which the newest
  \<open>limit + 1\<close> numbers stay.\<close>

lemma drop_local_fields:
  "drop_local p n =
     (let xs = quarantined_list p @ [n]; k = length xs - Suc (limit p)
      in p\<lparr>local_used := local_used p - {n}, quarantined_list := drop k xs,
           quarantined_set := insert n (quarantined_set p) - set (take k xs)\<rparr>)"
  by (simp add: drop_local_def trim_quarantine_eq Let_def)

lemma set_drop_distinct: "distinct xs \<Longrightarrow> set (drop k xs) = set xs - set (take k xs)"
  by (metis Diff_cancel Un_Diff append_take_drop_id distinct_append inf.commute set_append
      Diff_triv Un_empty_left)

lemma quarantine_drop_local:
  assumes "quarantine_ok p" "n \<notin> quarantined_set p"
  shows "quarantine_ok (drop_local p n)"
proof -
  define xs where "xs = quarantined_list p @ [n]"
  define k where "k = length xs - Suc (limit p)"
  have "distinct xs" and "set xs = insert n (quarantined_set p)" and "length xs - k \<le> limit p + 1"
    using assms by (auto simp: quarantine_ok_def xs_def k_def)
  then have "set (drop k xs) = insert n (quarantined_set p) - set (take k xs)"
    and "distinct (drop k xs)" and "length (drop k xs) \<le> limit p + 1"
    by (simp_all add: set_drop_distinct)
  then show ?thesis
    unfolding quarantine_ok_def drop_local_fields Let_def xs_def [symmetric] k_def [symmetric]
    by simp
qed

lemma drop_local_set: "quarantined_set (drop_local p n) \<subseteq> insert n (quarantined_set p)"
  by (auto simp: drop_local_fields Let_def)

lemma inv_release_local:
  assumes inv: "pa_inv \<lparr>alloc = p, live = add_mset (HLocal n) H\<rparr>"
  shows "pa_inv \<lparr>alloc = drop_local p n, live = H\<rparr>"
proof -
  have n: "n \<in> local_used p" and m: "matches (local_used p - {n}) (local_pre_allocated p)
      (remote_used p) (reserved p) H"
    using inv by (auto simp: pa_inv_def handles_match_def dest: matches_remove_local)
  with inv have "quarantine_ok (drop_local p n)"
    by (intro quarantine_drop_local) (auto simp: pa_inv_def numbers_ok_def)
  moreover have "handles_match (drop_local p n) H"
    using m by (simp add: handles_match_def drop_local_fields Let_def)
  moreover have "card (local_used p - {n}) \<le> card (local_used p)"
    by (simp add: card_mono)
  then have "numbers_ok (drop_local p n)"
    using inv n drop_local_set [of p n]
    by (auto simp: pa_inv_def numbers_ok_def drop_local_fields Let_def)
  ultimately show ?thesis
    by (simp add: pa_inv_def)
qed

lemma pa_step_inv: "pa_step w w' \<Longrightarrow> pa_inv w \<Longrightarrow> pa_inv w'"
  by (induction rule: pa_step.induct)
    (auto intro: inv_reserve inv_pre_allocate inv_allocate_pre inv_make_local inv_release_reserved
      inv_release_local inv_release_pre inv_release_remote dest: inv_make_remote)

lemma pa_reachable_inv: "pa_reachable lim w \<Longrightarrow> pa_inv w"
  by (induction rule: pa_reachable.induct) (auto intro: pa_inv_init pa_step_inv)

section \<open>No operation panics or searches forever\<close>

text \<open>The multiplexer creates the allocator with \<^verbatim>\<open>max_ports + connect_queue\<close>, where \<^verbatim>\<open>Cfg::check\<close>
  bounds the first by \<open>2 ^ 30\<close>. The numbers out of reach of the search are then fewer than
  \<open>2 ^ 32\<close>.\<close>

definition limit_ok :: "port_alloc \<Rightarrow> bool" where
  "limit_ok p \<longleftrightarrow> limit p \<le> 2 ^ 30 + 65535"

lemma exists_free_port:
  assumes "numbers_ok p" "quarantine_ok p" "limit_ok p"
  shows "\<exists>m. m \<notin> local_used p \<and> m \<notin> local_pre_allocated p \<and> m \<notin> quarantined_set p"
proof -
  have "card (quarantined_set p) \<le> limit p + 1"
    using assms(2) distinct_card by (fastforce simp: quarantine_ok_def)
  then have "card (local_used p) + card (local_pre_allocated p) + card (quarantined_set p) < 4294967296"
    using assms by (simp add: numbers_ok_def limit_ok_def PRE_ALLOCATED_LIMIT_def)
  moreover have "card (local_used p \<union> local_pre_allocated p \<union> quarantined_set p)
      \<le> card (local_used p) + card (local_pre_allocated p) + card (quarantined_set p)"
    by (meson card_Un_le add_mono le_refl le_trans)
  ultimately show ?thesis
    using exists_free_number [of "local_used p \<union> local_pre_allocated p \<union> quarantined_set p"] by auto
qed

lemma try_pre_allocate_local_returns:
  assumes "numbers_ok p" "quarantine_ok p" "limit_ok p"
  shows "try_pre_allocate_local p \<noteq> None"
proof -
  obtain m where m: "m \<notin> local_used p" "m \<notin> local_pre_allocated p" "m \<notin> quarantined_set p"
    using exists_free_port [OF assms] by blast
  from m next_free_returns [of "\<lambda>n. \<not> (n \<notin> local_used p \<and> n \<notin> local_pre_allocated p
      \<and> n \<notin> quarantined_set p)" m "next_number p"]
  show ?thesis by (auto simp: try_pre_allocate_local_def)
qed

lemma try_allocate_local_returns:
  assumes "numbers_ok p" "quarantine_ok p" "limit_ok p" "is_available p"
  shows "\<exists>n p'. try_allocate_local p = Some (Some n, p')"
proof -
  obtain m where m: "m \<notin> local_used p" "m \<notin> local_pre_allocated p" "m \<notin> quarantined_set p"
    using exists_free_port [OF assms(1-3)] by blast
  from m assms(4) next_free_returns [of "\<lambda>n. \<not> (is_available p \<and> n \<notin> local_used p \<and>
      n \<notin> local_pre_allocated p \<and> n \<notin> quarantined_set p)" m "next_number p"]
  show ?thesis by (auto simp: try_allocate_local_def)
qed

lemma reserved_available:
  assumes "pa_inv w" "HReserved \<in># live w"
  shows "0 < reserved (alloc w)" and "is_available (alloc w\<lparr>reserved := reserved (alloc w) - 1\<rparr>)"
proof -
  show "0 < reserved (alloc w)"
    using assms by (auto simp: pa_inv_defs matches_def count_greater_zero_iff [symmetric]
        simp del: count_greater_zero_iff)
  with assms show "is_available (alloc w\<lparr>reserved := reserved (alloc w) - 1\<rparr>)"
    by (auto simp: pa_inv_defs is_available_def)
qed

lemma into_local_returns:
  assumes "pa_inv w" "limit_ok (alloc w)" "HReserved \<in># live w"
  shows "\<exists>n p'. into_local (alloc w) = Some (Ret (n, p'))"
proof -
  let ?p = "alloc w\<lparr>reserved := reserved (alloc w) - 1\<rparr>"
  have "numbers_ok ?p" "quarantine_ok ?p" "limit_ok ?p"
    using assms by (auto simp: pa_inv_defs limit_ok_def)
  with reserved_available [OF assms(1,3)] try_allocate_local_returns [of ?p]
  show ?thesis by (auto simp: into_local_def)
qed

lemma into_remote_returns:
  assumes "pa_inv w" "HReserved \<in># live w"
  shows "into_remote (alloc w) r \<noteq> Panic"
  using reserved_available [OF assms] by (auto simp: into_remote_def try_allocate_remote_def)

lemma pre_try_allocate_returns:
  assumes "pa_inv w" "HPre n \<in># live w"
  shows "pre_try_allocate (alloc w) n \<noteq> Panic"
proof -
  have "0 < count (live w) (HPre n)"
    using assms(2) by simp
  then have "n \<in> local_pre_allocated (alloc w)"
    using assms(1) by (auto simp: pa_inv_def handles_match_def matches_def split: if_splits)
  then show ?thesis
    by (auto simp: pre_try_allocate_def try_allocate_pre_allocated_def)
qed

section \<open>Runs and quarantine\<close>

definition frees_local :: "pa_world \<Rightarrow> pa_world \<Rightarrow> bool" where
  "frees_local w w' \<longleftrightarrow>
     (\<exists>p n H. w = \<lparr>alloc = p, live = add_mset (HLocal n) H\<rparr> \<and> w' = \<lparr>alloc = drop_local p n, live = H\<rparr>)"

text \<open>A run, with the number of local ports freed on the way.\<close>

inductive pa_run :: "nat \<Rightarrow> pa_world \<Rightarrow> pa_world \<Rightarrow> bool" where
  stop: "pa_run 0 w w"
| free: "pa_run k w w' \<Longrightarrow> pa_step w' w'' \<Longrightarrow> frees_local w' w'' \<Longrightarrow> pa_run (Suc k) w w''"
| other: "pa_run k w w' \<Longrightarrow> pa_step w' w'' \<Longrightarrow> \<not> frees_local w' w'' \<Longrightarrow> pa_run k w w''"

lemma try_fields:
  "try_reserve p = (b, p') \<Longrightarrow> quarantined_list p' = quarantined_list p \<and> limit p' = limit p"
  "try_pre_allocate_local p = Some (r, p') \<Longrightarrow> quarantined_list p' = quarantined_list p \<and> limit p' = limit p"
  "pre_try_allocate p n = Ret (b, p') \<Longrightarrow> quarantined_list p' = quarantined_list p \<and> limit p' = limit p"
  "into_local p = Some (Ret (n, p')) \<Longrightarrow> quarantined_list p' = quarantined_list p \<and> limit p' = limit p"
  "into_remote p n = Ret (res, p') \<Longrightarrow> quarantined_list p' = quarantined_list p \<and> limit p' = limit p"
  "drop_reserved p = Ret p' \<Longrightarrow> quarantined_list p' = quarantined_list p \<and> limit p' = limit p"
  by (auto simp: try_reserve_def try_pre_allocate_local_def pre_try_allocate_def
      try_allocate_pre_allocated_def drop_pre_allocated_def into_local_def try_allocate_local_def
      into_remote_def try_allocate_remote_def drop_reserved_def
      split: if_splits option.splits remote_alloc.splits prod.splits)

lemma pa_step_quarantine:
  "pa_step w w' \<Longrightarrow> \<not> frees_local w w' \<Longrightarrow>
   quarantined_list (alloc w') = quarantined_list (alloc w) \<and> limit (alloc w') = limit (alloc w)"
  by (induction rule: pa_step.induct)
    (auto simp: frees_local_def drop_pre_allocated_def drop_remote_def dest: try_fields)

lemma pa_step_limit: "pa_step w w' \<Longrightarrow> limit (alloc w') = limit (alloc w)"
  by (induction rule: pa_step.induct)
    (auto simp: drop_local_fields drop_pre_allocated_def drop_remote_def Let_def dest: try_fields)

lemma pa_reachable_limit: "pa_reachable lim w \<Longrightarrow> limit (alloc w) = unat lim"
  by (induction rule: pa_reachable.induct)
    (auto simp: pa_init_def new_port_alloc_def pa_step_limit)

lemma pa_run_inv: "pa_run k w w' \<Longrightarrow> pa_inv w \<Longrightarrow> pa_inv w' \<and> limit (alloc w') = limit (alloc w)"
  by (induction rule: pa_run.induct) (auto dest: pa_step_inv pa_step_limit)

definition quarantined_within :: "nat \<Rightarrow> u32 \<Rightarrow> port_alloc \<Rightarrow> bool" where
  "quarantined_within k n p \<longleftrightarrow> (\<exists>ys zs. quarantined_list p = ys @ n # zs \<and> length zs \<le> k)"

lemma quarantined_within_drop:
  assumes "quarantined_within k n p" "Suc k \<le> limit p"
  shows "quarantined_within (Suc k) n (drop_local p m)"
proof -
  obtain ys zs where l: "quarantined_list p = ys @ n # zs" and z: "length zs \<le> k"
    using assms(1) by (auto simp: quarantined_within_def)
  have "quarantined_list (drop_local p m) = drop (length ys + length zs + 1 - limit p) ys @ n # (zs @ [m])"
    using assms(2) l z by (simp add: drop_local_fields Let_def)
  then show ?thesis
    using z unfolding quarantined_within_def by (metis length_append_singleton Suc_le_mono)
qed

lemma quarantined_after_drop: "quarantined_within 0 n (drop_local p n)"
  by (auto simp: quarantined_within_def drop_local_fields Let_def)

lemma pa_run_quarantined:
  "pa_run k w w' \<Longrightarrow> quarantined_within 0 n (alloc w) \<Longrightarrow> k \<le> limit (alloc w) \<Longrightarrow> pa_inv w \<Longrightarrow>
   quarantined_within k n (alloc w')"
proof (induction rule: pa_run.induct)
  case (free k w w' w'')
  then have "quarantined_within k n (alloc w')" "Suc k \<le> limit (alloc w')"
    using pa_run_inv by auto
  with free.hyps(3) show ?case
    by (auto simp: frees_local_def intro: quarantined_within_drop)
next
  case (other k w w' w'')
  then show ?case
    using pa_step_quarantine [OF other.hyps(2,3)] by (simp add: quarantined_within_def)
qed auto

lemma quarantined_not_live:
  assumes "pa_inv w" "quarantined_within k n (alloc w)"
  shows "HLocal n \<notin># live w \<and> HPre n \<notin># live w"
proof -
  have "n \<in> quarantined_set (alloc w)"
    using assms by (auto simp: quarantined_within_def pa_inv_defs)
  then have "n \<notin> local_used (alloc w)" "n \<notin> local_pre_allocated (alloc w)"
    using assms(1) by (auto simp: pa_inv_defs)
  then have "count (live w) (HLocal n) = 0" "count (live w) (HPre n) = 0"
    using assms(1) by (simp_all add: pa_inv_defs matches_def)
  then show ?thesis
    by (simp add: count_eq_zero_iff)
qed

section \<open>Properties\<close>

lemma pa_example:
  "pa_reachable 2 \<lparr>alloc = (new_port_alloc 2)\<lparr>reserved := 1\<rparr>, live = {#HReserved#}\<rparr>"
  using pa_reachable.step [OF pa_reachable.start [of 2, unfolded pa_init_def] pa_step.reserve]
  by (simp add: try_reserve_def new_port_alloc_def is_available_def)

lemma pa_example_local:
  "pa_reachable 2 \<lparr>alloc = (new_port_alloc 2)\<lparr>next_number := 1, local_used := {1}\<rparr>, live = {#HLocal 1#}\<rparr>"
proof -
  have "into_local ((new_port_alloc 2)\<lparr>reserved := 1\<rparr>) =
      Some (Ret (1, (new_port_alloc 2)\<lparr>next_number := 1, local_used := {1}\<rparr>))"
    by (simp add: into_local_def try_allocate_local_def is_available_def new_port_alloc_def
        next_free.simps)
  then show ?thesis
    using pa_reachable.step [OF pa_example pa_step.make_local] by simp
qed

text \<open>C21: No port number is handed out twice: in every reachable state at most one live handle,
  allocated or pre-allocated, carries a given local number, and at most one a given remote
  number.\<close>

theorem port_numbers_unique:
  assumes "pa_reachable lim w"
  shows "count (live w) (HLocal n) + count (live w) (HPre n) \<le> 1 \<and> count (live w) (HRemote n) \<le> 1"
  using pa_reachable_inv [OF assms] by (auto simp: pa_inv_defs matches_def)

theorem port_numbers_unique_witness:
  "count (live \<lparr>alloc = (new_port_alloc 2)\<lparr>next_number := 1, local_used := {1}\<rparr>, live = {#HLocal 1#}\<rparr>)
     (HLocal 1) = 1 \<and> count {#HLocal 1#} (HLocal 1) + count {#HLocal 1#} (HPre 1) \<le> 1"
  using port_numbers_unique [OF pa_example_local, of 1] by simp

text \<open>The port limit holds in every reachable state: local ports, remote ports and reservations
  together never exceed the configured limit, and pre-allocations never exceed their own.\<close>

theorem port_limit_respected:
  assumes "pa_reachable lim w"
  shows "card {n. HLocal n \<in># live w} + card {n. HRemote n \<in># live w} + count (live w) HReserved
      \<le> unat lim \<and> card {n. HPre n \<in># live w} \<le> PRE_ALLOCATED_LIMIT"
proof -
  have "pa_inv w" by (rule pa_reachable_inv [OF assms])
  then have "{n. HLocal n \<in># live w} = local_used (alloc w)"
    "{n. HRemote n \<in># live w} = remote_used (alloc w)"
    "{n. HPre n \<in># live w} = local_pre_allocated (alloc w)"
    by (auto simp: pa_inv_defs matches_def count_greater_zero_iff [symmetric]
        simp del: count_greater_zero_iff split: if_splits)
  with \<open>pa_inv w\<close> pa_reachable_limit [OF assms] show ?thesis
    by (simp add: pa_inv_defs matches_def)
qed

theorem port_limit_respected_witness:
  "card {n. HLocal n \<in># {#HReserved#}} + card {n. HRemote n \<in># {#HReserved#}}
     + count {#HReserved#} HReserved \<le> unat (2 :: u32)"
  using port_limit_respected [OF pa_example] by simp

text \<open>C23: No operation on the allocator panics or searches forever: with a limit that \<^verbatim>\<open>Cfg::check\<close>
  allows, a live reservation turns into a local port, an operation on a live handle does not
  panic, and the search for a number to pre-allocate ends.\<close>

theorem port_operations_return:
  assumes "pa_reachable lim w" "unat lim \<le> 2 ^ 30 + 65535"
  shows "(HReserved \<in># live w \<longrightarrow>
        (\<exists>n p'. into_local (alloc w) = Some (Ret (n, p'))) \<and> into_remote (alloc w) r \<noteq> Panic
          \<and> drop_reserved (alloc w) \<noteq> Panic) \<and>
      (HPre n \<in># live w \<longrightarrow> pre_try_allocate (alloc w) n \<noteq> Panic) \<and>
      try_pre_allocate_local (alloc w) \<noteq> None \<and> try_allocate_local (alloc w) \<noteq> None"
proof -
  have inv: "pa_inv w" and lim: "limit_ok (alloc w)"
    using assms pa_reachable_inv pa_reachable_limit by (auto simp: limit_ok_def)
  then have "try_pre_allocate_local (alloc w) \<noteq> None"
    by (intro try_pre_allocate_local_returns) (simp_all add: pa_inv_def)
  moreover have "try_allocate_local (alloc w) \<noteq> None"
    using try_allocate_local_returns [of "alloc w"] inv lim
    by (cases "is_available (alloc w)") (auto simp: pa_inv_def try_allocate_local_def)
  moreover have "HReserved \<in># live w \<longrightarrow> drop_reserved (alloc w) \<noteq> Panic"
    using reserved_available [OF inv] by (auto simp: drop_reserved_def)
  ultimately show ?thesis
    using into_local_returns [OF inv lim] into_remote_returns [OF inv] pre_try_allocate_returns [OF inv]
    by blast
qed

theorem port_operations_return_witness:
  "\<exists>n p'. into_local ((new_port_alloc 2)\<lparr>reserved := 1\<rparr>) = Some (Ret (n, p'))"
  using port_operations_return [OF pa_example, of 0 0] by simp

text \<open>C22: A freed local port number is not reused soon: after a local port is dropped, its number
  is carried by no live handle as long as at most \<open>limit\<close> further local ports have been freed,
  however many other operations take place.\<close>

theorem freed_port_quarantined:
  assumes "pa_inv \<lparr>alloc = p, live = add_mset (HLocal n) H\<rparr>"
    and "pa_run k \<lparr>alloc = drop_local p n, live = H\<rparr> w" and "k \<le> limit p"
  shows "HLocal n \<notin># live w \<and> HPre n \<notin># live w"
proof -
  have inv: "pa_inv \<lparr>alloc = drop_local p n, live = H\<rparr>"
    by (rule inv_release_local [OF assms(1)])
  have "quarantined_within k n (alloc w)"
    using pa_run_quarantined [OF assms(2) _ _ inv] quarantined_after_drop [of n p] assms(3)
    by (simp add: drop_local_fields Let_def)
  with pa_run_inv [OF assms(2) inv] show ?thesis
    by (auto dest: quarantined_not_live)
qed

theorem freed_port_quarantined_witness:
  "HLocal 1 \<notin># live \<lparr>alloc = drop_local ((new_port_alloc 2)\<lparr>next_number := 1, local_used := {1}\<rparr>) 1,
     live = {#}\<rparr>"
proof -
  have "pa_inv \<lparr>alloc = (new_port_alloc 2)\<lparr>next_number := 1, local_used := {1}\<rparr>,
      live = add_mset (HLocal 1) {#}\<rparr>"
    using pa_reachable_inv [OF pa_example_local] by simp
  from freed_port_quarantined [OF this pa_run.stop] show ?thesis by simp
qed

end
