(* ===== verification/Cfg.thy ===== *)
theory Cfg
  imports PortAlloc
begin

text \<open>
  Configuration of \<^verbatim>\<open>remoc/src/chmux/cfg.rs\<close>. Durations are in nanoseconds. The type of the
  receive buffer sizer and the versions of the external \<^verbatim>\<open>postbag\<close> codec are type parameters.
\<close>

record 'v capabilities =
  cap_global_credits :: bool
  cap_received_report :: bool
  cap_port_side :: bool
  cap_pre_connect :: bool
  cap_varint :: bool
  cap_compact_transported :: bool
  cap_port_id :: bool
  cap_postbag_version :: 'v
  cap_postbag_allow_skip :: bool

definition default_capabilities :: "'v \<Rightarrow> bool \<Rightarrow> 'v capabilities" where
  "default_capabilities postbag_default postbag_allow_skip =
     \<lparr>cap_global_credits = True, cap_received_report = True, cap_port_side = True,
      cap_pre_connect = True, cap_varint = True, cap_compact_transported = True,
      cap_port_id = True, cap_postbag_version = postbag_default,
      cap_postbag_allow_skip = postbag_allow_skip\<rparr>"

record ('v, 'b) cfg =
  connection_timeout :: "nat option"
  flush_interval :: "nat option"
  io_buffer_size :: nat
  io_frame_len_varint :: "bool option"
  max_ports :: u32
  ports_exhausted :: on_ports_exhausted
  max_data_size :: nat
  max_received_ports :: nat
  chunk_size :: u32
  port_receive_buffer :: u32
  port_receive_throttle :: u32
  shared_receive_buffer :: 'b
  shared_send_queue :: nat
  transport_send_queue :: nat
  transport_receive_queue :: nat
  connect_queue :: u16
  mpsc_parallel :: nat
  cfg_capabilities :: "'v capabilities"

definition default_cfg :: "'b \<Rightarrow> 'v capabilities \<Rightarrow> ('v, 'b) cfg" where
  "default_cfg sizer caps =
     \<lparr>connection_timeout = Some (150 * 10 ^ 9), flush_interval = None, io_buffer_size = 65536,
      io_frame_len_varint = None, max_ports = 8192, ports_exhausted = Timeout (60 * 10 ^ 9),
      max_data_size = 524288, max_received_ports = 128, chunk_size = 32768,
      port_receive_buffer = 131072, port_receive_throttle = 1048576,
      shared_receive_buffer = sizer, shared_send_queue = 32, transport_send_queue = 32,
      transport_receive_queue = 64, connect_queue = 128, mpsc_parallel = 0,
      cfg_capabilities = caps\<rparr>"

definition cfg_check :: "('v, 'b) cfg \<Rightarrow> unit exec" where
  "cfg_check cfg =
     (if max_ports cfg > 2 ^ 30 then Panic
      else if chunk_size cfg < 4 then Panic
      else if port_receive_buffer cfg < 4 then Panic
      else if shared_send_queue cfg = 0 then Panic
      else if transport_send_queue cfg = 0 then Panic
      else if transport_receive_queue cfg = 0 then Panic
      else if connect_queue cfg = 0 then Panic
      else Ret ())"

definition MAX_MSG_LENGTH :: nat where
  "MAX_MSG_LENGTH = 16"

definition max_frame_length :: "('v, 'b) cfg \<Rightarrow> u32 exec" where
  "max_frame_length cfg =
     (case checked_add (word_of_nat MAX_MSG_LENGTH) (chunk_size cfg) of
        Some len \<Rightarrow> Ret len | None \<Rightarrow> Panic)"

lemma default_cfg_check: "cfg_check (default_cfg sizer caps) = Ret ()"
  by (simp add: cfg_check_def default_cfg_def)

lemma max_frame_length_value:
  "unat (chunk_size cfg) \<le> 4294967279 \<Longrightarrow>
   \<exists>len. max_frame_length cfg = Ret len \<and> unat len = 16 + unat (chunk_size cfg)"
  by (auto simp: max_frame_length_def MAX_MSG_LENGTH_def checked_add_def unat_add_u32
      split: option.splits)

end
