(* ===== verification/Msg.thy ===== *)
theory Msg
  imports Varint Sizer Cfg
begin

text \<open>
  The multiplexer messages of \<^verbatim>\<open>remoc/src/chmux/msg.rs\<close> and their wire format: the message
  type, the configuration exchanged in the Hello message, \<^verbatim>\<open>write\<close> and \<^verbatim>\<open>read\<close>. The lemmas
  show that reading gives back every message written (the Hello message up to the precision of
  its timeout), what a shorter Hello of an older peer means, and how long a message can get.
\<close>

section \<open>Messages\<close>

datatype data_credits = PortOnly | GlobalOnly | GlobalAndPort u32

record global_credits =
  gc_credits :: u32
  gc_seq :: u8

record port_data_item =
  pdi_port :: u32
  pdi_id :: u32
  pdi_pre_connect :: bool

record 'v exchanged_cfg =
  x_connection_timeout :: "nat option"
  x_chunk_size :: u32
  x_port_receive_buffer :: u32
  x_connect_queue :: u16
  x_global_credits :: "u32 option"
  x_received_report :: bool
  x_port_side :: bool
  x_pre_connect :: bool
  x_varint :: bool
  x_frame_len_varint :: bool
  x_compact_transported :: bool
  x_postbag_version :: 'v
  x_postbag_allow_skip :: bool
  x_port_id :: bool
  x_global_credits_enabled :: bool

datatype 'v multiplex_msg =
    Reset
  | Hello u8 "'v exchanged_cfg"
  | Ping
  | OpenPort u32 (open_wait: bool) "u32 option" (open_pre_connect: bool)
  | PortOpened u32 side_port
  | Rejected u32 bool
  | Data side_port bool bool data_credits
  | PortData side_port bool bool bool "port_data_item list"
  | RequestReceivedReport side_port
  | ReceivedReport side_port
  | PortCredits side_port u32
  | InhibitGlobalCreditUsageByPort side_port
  | AllowGlobalCreditUsageByPort side_port
  | SendFinish side_port
  | ReceiveClose side_port
  | ReceiveFinish side_port
  | GlobalCredits global_credits
  | GlobalCreditsReport credits_report
  | ClientFinish
  | ListenerFinish
  | Goodbye

text \<open>The external \<^verbatim>\<open>postbag\<close> codec contributes a version type with a byte code.\<close>

record 'v postbag =
  ver_to_u8 :: "'v \<Rightarrow> u8"
  ver_of_u8 :: "u8 \<Rightarrow> 'v option"
  ver_default :: 'v
  ver_postbag0_4 :: 'v

definition postbag_ok :: "'v postbag \<Rightarrow> bool" where
  "postbag_ok pb \<longleftrightarrow> (\<forall>v. ver_of_u8 pb (ver_to_u8 pb v) = Some v)"

section \<open>Constants\<close>

definition MAGIC :: bytes where
  "MAGIC = [67, 72, 77, 85, 88, 0]"

definition PROTOCOL_VERSION :: u8 where
  "PROTOCOL_VERSION = 3"

abbreviation MSG_RESET :: u8 where "MSG_RESET \<equiv> 1"
abbreviation MSG_HELLO :: u8 where "MSG_HELLO \<equiv> 2"
abbreviation MSG_PING :: u8 where "MSG_PING \<equiv> 3"
abbreviation MSG_OPEN_PORT :: u8 where "MSG_OPEN_PORT \<equiv> 4"
abbreviation MSG_PORT_OPENED :: u8 where "MSG_PORT_OPENED \<equiv> 5"
abbreviation MSG_REJECTED :: u8 where "MSG_REJECTED \<equiv> 6"
abbreviation MSG_DATA :: u8 where "MSG_DATA \<equiv> 7"
abbreviation MSG_PORT_DATA :: u8 where "MSG_PORT_DATA \<equiv> 8"
abbreviation MSG_PORT_CREDITS :: u8 where "MSG_PORT_CREDITS \<equiv> 9"
abbreviation MSG_SEND_FINISH :: u8 where "MSG_SEND_FINISH \<equiv> 10"
abbreviation MSG_RECEIVE_CLOSE :: u8 where "MSG_RECEIVE_CLOSE \<equiv> 11"
abbreviation MSG_RECEIVE_FINISH :: u8 where "MSG_RECEIVE_FINISH \<equiv> 12"
abbreviation MSG_CLIENT_FINISH :: u8 where "MSG_CLIENT_FINISH \<equiv> 13"
abbreviation MSG_LISTENER_FINISH :: u8 where "MSG_LISTENER_FINISH \<equiv> 14"
abbreviation MSG_GOODBYE :: u8 where "MSG_GOODBYE \<equiv> 15"
abbreviation MSG_GLOBAL_CREDITS :: u8 where "MSG_GLOBAL_CREDITS \<equiv> 16"
abbreviation MSG_GLOBAL_CREDITS_REPORT :: u8 where "MSG_GLOBAL_CREDITS_REPORT \<equiv> 17"
abbreviation MSG_INHIBIT_BY_PORT :: u8 where "MSG_INHIBIT_BY_PORT \<equiv> 18"
abbreviation MSG_ALLOW_BY_PORT :: u8 where "MSG_ALLOW_BY_PORT \<equiv> 19"
abbreviation MSG_REQUEST_RECEIVED_REPORT :: u8 where "MSG_REQUEST_RECEIVED_REPORT \<equiv> 20"
abbreviation MSG_RECEIVED_REPORT :: u8 where "MSG_RECEIVED_REPORT \<equiv> 21"
abbreviation MSG_LOCAL_PORT_CREDITS :: u8 where "MSG_LOCAL_PORT_CREDITS \<equiv> 22"
abbreviation MSG_INHIBIT_BY_LOCAL_PORT :: u8 where "MSG_INHIBIT_BY_LOCAL_PORT \<equiv> 23"
abbreviation MSG_ALLOW_BY_LOCAL_PORT :: u8 where "MSG_ALLOW_BY_LOCAL_PORT \<equiv> 24"

text \<open>Flag bits. Every message with only a port has the single flag \<^verbatim>\<open>*_FLAG_PORT_LOCAL\<close>, which is
  bit 0 in all of them.\<close>

abbreviation OPEN_PORT_WAIT :: u8 where "OPEN_PORT_WAIT \<equiv> 1"
abbreviation OPEN_PORT_ID :: u8 where "OPEN_PORT_ID \<equiv> 2"
abbreviation OPEN_PORT_PRE_CONNECT :: u8 where "OPEN_PORT_PRE_CONNECT \<equiv> 4"
abbreviation PORT_OPENED_SERVER_PORT_REMOTE :: u8 where "PORT_OPENED_SERVER_PORT_REMOTE \<equiv> 1"
abbreviation REJECTED_NO_PORTS :: u8 where "REJECTED_NO_PORTS \<equiv> 1"
abbreviation DATA_FIRST :: u8 where "DATA_FIRST \<equiv> 1"
abbreviation DATA_LAST :: u8 where "DATA_LAST \<equiv> 2"
abbreviation DATA_CREDITS_GLOBAL :: u8 where "DATA_CREDITS_GLOBAL \<equiv> 4"
abbreviation DATA_CREDITS_SPLIT :: u8 where "DATA_CREDITS_SPLIT \<equiv> 8"
abbreviation DATA_PORT_LOCAL :: u8 where "DATA_PORT_LOCAL \<equiv> 16"
abbreviation PORT_DATA_FIRST :: u8 where "PORT_DATA_FIRST \<equiv> 1"
abbreviation PORT_DATA_LAST :: u8 where "PORT_DATA_LAST \<equiv> 2"
abbreviation PORT_DATA_WAIT :: u8 where "PORT_DATA_WAIT \<equiv> 4"
abbreviation PORT_DATA_IDS :: u8 where "PORT_DATA_IDS \<equiv> 8"
abbreviation PORT_DATA_PORT_LOCAL :: u8 where "PORT_DATA_PORT_LOCAL \<equiv> 16"
abbreviation PORT_DATA_PORTS_FLAGS :: u8 where "PORT_DATA_PORTS_FLAGS \<equiv> 32"
abbreviation PORT_DATA_PRE_CONNECT_ALL :: u8 where "PORT_DATA_PRE_CONNECT_ALL \<equiv> 64"
abbreviation PORT_FLAG_PRE_CONNECT :: u8 where "PORT_FLAG_PRE_CONNECT \<equiv> 1"
abbreviation FLAG_PORT_LOCAL :: u8 where "FLAG_PORT_LOCAL \<equiv> 1"

text \<open>\<^verbatim>\<open>if c { flags |= f }\<close>.\<close>

abbreviation flag :: "bool \<Rightarrow> u8 \<Rightarrow> u8" where
  "flag c f \<equiv> (if c then f else 0)"

section \<open>Exchanged configuration\<close>

definition exchanged_cfg_new :: "('v, 'b) cfg \<Rightarrow> u32 \<Rightarrow> 'v exchanged_cfg" where
  "exchanged_cfg_new cfg credits =
     (let caps = cfg_capabilities cfg in
      \<lparr>x_connection_timeout = connection_timeout cfg, x_chunk_size = chunk_size cfg,
       x_port_receive_buffer = port_receive_buffer cfg, x_connect_queue = connect_queue cfg,
       x_global_credits = Some credits, x_received_report = cap_received_report caps,
       x_port_side = cap_port_side caps, x_pre_connect = cap_pre_connect caps,
       x_varint = cap_varint caps, x_frame_len_varint = (io_frame_len_varint cfg \<noteq> None),
       x_compact_transported = cap_compact_transported caps,
       x_postbag_version = cap_postbag_version caps,
       x_postbag_allow_skip = cap_postbag_allow_skip caps, x_port_id = cap_port_id caps,
       x_global_credits_enabled = cap_global_credits caps\<rparr>)"

definition as_millis :: "nat \<Rightarrow> nat" where
  "as_millis ns = ns div 1000000"

definition write_bool :: "bool \<Rightarrow> u8" where
  "write_bool b = (if b then 1 else 0)"

definition write_cfg :: "byteorder \<Rightarrow> 'v postbag \<Rightarrow> 'v exchanged_cfg \<Rightarrow> bytes exec" where
  "write_cfg bo pb x =
     (case x_global_credits x of
        None \<Rightarrow> Panic
      | Some credits \<Rightarrow> Ret
         (put64 bo (word_of_nat (min (as_millis (case x_connection_timeout x of None \<Rightarrow> 0 | Some d \<Rightarrow> d))
             (2 ^ 64 - 1)))
          @ put32 bo (x_chunk_size x)
          @ put32 bo (x_port_receive_buffer x)
          @ put16 bo (x_connect_queue x)
          @ put32 bo credits
          @ [write_bool (x_received_report x), write_bool (x_port_side x),
             write_bool (x_pre_connect x), write_bool (x_varint x),
             write_bool (x_frame_len_varint x), write_bool (x_compact_transported x),
             ver_to_u8 pb (x_postbag_version x), write_bool (x_postbag_allow_skip x),
             write_bool (x_port_id x), write_bool (x_global_credits_enabled x)]))"

text \<open>\<^verbatim>\<open>let Ok(x) = reader.read() else { return Ok(this) }\<close>: a slice too short for the read
  is used up by it.\<close>

definition read_or_return :: "'a reader \<Rightarrow> 'c \<Rightarrow> ('a \<Rightarrow> 'c reader) \<Rightarrow> 'c reader" where
  "read_or_return r this k bs =
     (case r bs of Inl e \<Rightarrow> Inr (this, []) | Inr (x, rest) \<Rightarrow> k x rest)"

definition cfg_read_initial :: "'v postbag \<Rightarrow> u8 \<Rightarrow> u64 \<Rightarrow> u32 \<Rightarrow> u32 \<Rightarrow> u16 \<Rightarrow> 'v exchanged_cfg" where
  "cfg_read_initial pb version millis cs prb cq =
     \<lparr>x_connection_timeout = (if millis = 0 then None else Some (unat millis * 1000000)),
      x_chunk_size = cs, x_port_receive_buffer = prb, x_connect_queue = cq,
      x_global_credits = None, x_received_report = False, x_port_side = False,
      x_pre_connect = False, x_varint = False, x_frame_len_varint = False,
      x_compact_transported = False, x_postbag_version = ver_postbag0_4 pb,
      x_postbag_allow_skip = False, x_port_id = (version = 3),
      x_global_credits_enabled = True\<rparr>"

definition cfg_read_optional :: "byteorder \<Rightarrow> 'v postbag \<Rightarrow> 'v exchanged_cfg \<Rightarrow> 'v exchanged_cfg reader" where
  "cfg_read_optional bo pb this0 =
     read_or_return (read_u32 bo) this0 (\<lambda>credits. let this = this0\<lparr>x_global_credits := Some credits\<rparr> in
     read_or_return read_u8 this (\<lambda>b. let this = this\<lparr>x_received_report := (b \<noteq> 0)\<rparr> in
     read_or_return read_u8 this (\<lambda>b. let this = this\<lparr>x_port_side := (b \<noteq> 0)\<rparr> in
     read_or_return read_u8 this (\<lambda>b. let this = this\<lparr>x_pre_connect := (b \<noteq> 0)\<rparr> in
     read_or_return read_u8 this (\<lambda>b. let this = this\<lparr>x_varint := (b \<noteq> 0)\<rparr> in
     read_or_return read_u8 this (\<lambda>b. let this = this\<lparr>x_frame_len_varint := (b \<noteq> 0)\<rparr> in
     read_or_return read_u8 this (\<lambda>b. let this = this\<lparr>x_compact_transported := (b \<noteq> 0)\<rparr> in
     read_or_return read_u8 this (\<lambda>b. let this = this\<lparr>x_postbag_version :=
         (case ver_of_u8 pb b of Some v \<Rightarrow> v | None \<Rightarrow> ver_default pb)\<rparr> in
     read_or_return read_u8 this (\<lambda>b. let this = this\<lparr>x_postbag_allow_skip := (b \<noteq> 0)\<rparr> in
     read_or_return read_u8 this (\<lambda>b. let this = this\<lparr>x_port_id := (b \<noteq> 0)\<rparr> in
     read_or_return read_u8 this (\<lambda>b. let this = this\<lparr>x_global_credits_enabled := (b \<noteq> 0)\<rparr> in
       rret (if \<not> x_global_credits_enabled this then this\<lparr>x_global_credits := None\<rparr> else this))))))))))))"

definition read_cfg :: "byteorder \<Rightarrow> 'v postbag \<Rightarrow> u8 \<Rightarrow> 'v exchanged_cfg reader" where
  "read_cfg bo pb version =
     rbind (read_u64 bo) (\<lambda>millis.
     rbind (read_u32 bo) (\<lambda>cs. if cs < 4 then rfail (InvalidData ''chunk_size'') else
     rbind (read_u32 bo) (\<lambda>prb. if prb < 4 then rfail (InvalidData ''port_receive_buffer'') else
     rbind (read_u16 bo) (\<lambda>cq. if cq < 1 then rfail (InvalidData ''connect_queue must not be zero'') else
       cfg_read_optional bo pb (cfg_read_initial pb version millis cs prb cq)))))"

section \<open>Writing\<close>

definition write_open_port :: "byteorder \<Rightarrow> bool \<Rightarrow> u32 \<Rightarrow> bool \<Rightarrow> u32 option \<Rightarrow> bool \<Rightarrow> bytes" where
  "write_open_port bo vi client_port wait pid pre_connect =
     [MSG_OPEN_PORT] @ write_v32 bo vi client_port
     @ [flag wait OPEN_PORT_WAIT OR flag (pid \<noteq> None) OPEN_PORT_ID OR flag pre_connect OPEN_PORT_PRE_CONNECT]
     @ (case pid of Some i \<Rightarrow> write_v32 bo vi i | None \<Rightarrow> [])"

definition write_data :: "byteorder \<Rightarrow> bool \<Rightarrow> side_port \<Rightarrow> bool \<Rightarrow> bool \<Rightarrow> data_credits \<Rightarrow> bytes" where
  "write_data bo vi port fst_chunk lst_chunk credits =
     [MSG_DATA] @ write_v32 bo vi (port_num port)
     @ [flag fst_chunk DATA_FIRST OR flag lst_chunk DATA_LAST
        OR (case credits of PortOnly \<Rightarrow> 0 | GlobalOnly \<Rightarrow> DATA_CREDITS_GLOBAL
            | GlobalAndPort _ \<Rightarrow> DATA_CREDITS_SPLIT)
        OR flag (is_local port) DATA_PORT_LOCAL]
     @ (case credits of GlobalAndPort g \<Rightarrow> write_v32 bo vi g | _ \<Rightarrow> [])"

definition write_port_data_item :: "byteorder \<Rightarrow> bool \<Rightarrow> bool \<Rightarrow> bool \<Rightarrow> port_data_item \<Rightarrow> bytes" where
  "write_port_data_item bo vi need_ids need_port_flags item =
     write_v32 bo vi (pdi_port item)
     @ (if need_ids then write_v32 bo vi (pdi_id item) else [])
     @ (if need_port_flags then [flag (pdi_pre_connect item) PORT_FLAG_PRE_CONNECT] else [])"

definition write_port_data ::
  "byteorder \<Rightarrow> bool \<Rightarrow> side_port \<Rightarrow> bool \<Rightarrow> bool \<Rightarrow> bool \<Rightarrow> port_data_item list \<Rightarrow> bytes" where
  "write_port_data bo vi port fst_chunk lst_chunk wait ports =
     (let need_ids = list_ex (\<lambda>item. pdi_port item \<noteq> pdi_id item) ports;
          pre_connect_count = length (filter pdi_pre_connect ports);
          pre_connect_all = (pre_connect_count \<noteq> 0 \<and> pre_connect_count = length ports);
          need_port_flags = (pre_connect_count \<noteq> 0 \<and> pre_connect_count \<noteq> length ports)
      in [MSG_PORT_DATA] @ write_v32 bo vi (port_num port)
         @ [flag fst_chunk PORT_DATA_FIRST OR flag lst_chunk PORT_DATA_LAST OR flag wait PORT_DATA_WAIT
            OR flag need_ids PORT_DATA_IDS OR flag pre_connect_all PORT_DATA_PRE_CONNECT_ALL
            OR flag need_port_flags PORT_DATA_PORTS_FLAGS OR flag (is_local port) PORT_DATA_PORT_LOCAL]
         @ concat (map (write_port_data_item bo vi need_ids need_port_flags) ports))"

text \<open>The five messages that carry only a port, followed by the flag of its side.\<close>

definition write_port_flag :: "byteorder \<Rightarrow> bool \<Rightarrow> u8 \<Rightarrow> side_port \<Rightarrow> bytes" where
  "write_port_flag bo vi msg_id port =
     [msg_id] @ write_v32 bo vi (port_num port) @ [flag (is_local port) FLAG_PORT_LOCAL]"

fun write_msg :: "byteorder \<Rightarrow> 'v postbag \<Rightarrow> bool \<Rightarrow> 'v multiplex_msg \<Rightarrow> bytes exec" where
  "write_msg bo pb vi Reset = Ret [MSG_RESET]"
| "write_msg bo pb vi (Hello version cfg) =
     exec_bind (write_cfg bo pb cfg) (\<lambda>c. Ret ([MSG_HELLO] @ MAGIC @ [version] @ c))"
| "write_msg bo pb vi Ping = Ret [MSG_PING]"
| "write_msg bo pb vi (OpenPort client_port wait pid pre_connect) =
     Ret (write_open_port bo vi client_port wait pid pre_connect)"
| "write_msg bo pb vi (PortOpened client_port server_port) =
     Ret ([MSG_PORT_OPENED] @ write_v32 bo vi client_port @ write_v32 bo vi (port_num server_port)
          @ [flag (is_remote server_port) PORT_OPENED_SERVER_PORT_REMOTE])"
| "write_msg bo pb vi (Rejected client_port no_ports) =
     Ret ([MSG_REJECTED] @ write_v32 bo vi client_port @ [flag no_ports REJECTED_NO_PORTS])"
| "write_msg bo pb vi (Data port fst_chunk lst_chunk credits) = Ret (write_data bo vi port fst_chunk lst_chunk credits)"
| "write_msg bo pb vi (PortData port fst_chunk lst_chunk wait ports) =
     Ret (write_port_data bo vi port fst_chunk lst_chunk wait ports)"
| "write_msg bo pb vi (RequestReceivedReport port) =
     Ret (write_port_flag bo vi MSG_REQUEST_RECEIVED_REPORT port)"
| "write_msg bo pb vi (ReceivedReport port) = Ret (write_port_flag bo vi MSG_RECEIVED_REPORT port)"
| "write_msg bo pb vi (PortCredits port credits) =
     Ret ([if is_local port then MSG_LOCAL_PORT_CREDITS else MSG_PORT_CREDITS]
          @ write_v32 bo vi (port_num port) @ write_v32 bo vi credits)"
| "write_msg bo pb vi (InhibitGlobalCreditUsageByPort port) =
     Ret ([if is_local port then MSG_INHIBIT_BY_LOCAL_PORT else MSG_INHIBIT_BY_PORT]
          @ write_v32 bo vi (port_num port))"
| "write_msg bo pb vi (AllowGlobalCreditUsageByPort port) =
     Ret ([if is_local port then MSG_ALLOW_BY_LOCAL_PORT else MSG_ALLOW_BY_PORT]
          @ write_v32 bo vi (port_num port))"
| "write_msg bo pb vi (SendFinish port) = Ret (write_port_flag bo vi MSG_SEND_FINISH port)"
| "write_msg bo pb vi (ReceiveClose port) = Ret (write_port_flag bo vi MSG_RECEIVE_CLOSE port)"
| "write_msg bo pb vi (ReceiveFinish port) = Ret (write_port_flag bo vi MSG_RECEIVE_FINISH port)"
| "write_msg bo pb vi (GlobalCredits gc) =
     Ret ([MSG_GLOBAL_CREDITS] @ write_v32 bo vi (gc_credits gc) @ [gc_seq gc])"
| "write_msg bo pb vi (GlobalCreditsReport r) =
     Ret ([MSG_GLOBAL_CREDITS_REPORT] @ write_v32 bo vi (rep_current r)
          @ write_v32 bo vi (rep_min r) @ [rep_seq r])"
| "write_msg bo pb vi ClientFinish = Ret [MSG_CLIENT_FINISH]"
| "write_msg bo pb vi ListenerFinish = Ret [MSG_LISTENER_FINISH]"
| "write_msg bo pb vi Goodbye = Ret [MSG_GOODBYE]"

section \<open>Reading\<close>

definition read_hello :: "byteorder \<Rightarrow> 'v postbag \<Rightarrow> 'v multiplex_msg reader" where
  "read_hello bo pb =
     rbind (read_exact (length MAGIC)) (\<lambda>magic.
       if magic \<noteq> MAGIC then rfail (InvalidData ''invalid magic'') else
     rbind read_u8 (\<lambda>version. rmap (Hello version) (read_cfg bo pb version)))"

definition read_open_port :: "byteorder \<Rightarrow> bool \<Rightarrow> 'v multiplex_msg reader" where
  "read_open_port bo vi =
     rbind (read_v32 bo vi) (\<lambda>client_port.
     rbind read_u8 (\<lambda>flags.
       let wait = (flags AND OPEN_PORT_WAIT \<noteq> 0); pre_open = (flags AND OPEN_PORT_PRE_CONNECT \<noteq> 0) in
       if flags AND OPEN_PORT_ID \<noteq> 0
       then rmap (\<lambda>id. OpenPort client_port wait (Some id) pre_open) (read_v32 bo vi)
       else rret (OpenPort client_port wait None pre_open)))"

definition read_port_opened :: "byteorder \<Rightarrow> bool \<Rightarrow> 'v multiplex_msg reader" where
  "read_port_opened bo vi =
     rbind (read_v32 bo vi) (\<lambda>client_port.
     rbind (read_v32 bo vi) (\<lambda>server_port.
     rbind read_u8_or_default (\<lambda>flags.
       rret (PortOpened client_port
         (if flags AND PORT_OPENED_SERVER_PORT_REMOTE \<noteq> 0 then Remote server_port else Local server_port)))))"

definition read_data :: "byteorder \<Rightarrow> bool \<Rightarrow> 'v multiplex_msg reader" where
  "read_data bo vi =
     rbind (read_v32 bo vi) (\<lambda>port.
     rbind read_u8 (\<lambda>flags.
     rbind (if flags AND DATA_CREDITS_GLOBAL \<noteq> 0 then rret GlobalOnly
            else if flags AND DATA_CREDITS_SPLIT \<noteq> 0 then rmap GlobalAndPort (read_v32 bo vi)
            else rret PortOnly) (\<lambda>credits.
       rret (Data (if flags AND DATA_PORT_LOCAL \<noteq> 0 then Local port else Remote port)
         (flags AND DATA_FIRST \<noteq> 0) (flags AND DATA_LAST \<noteq> 0) credits))))"

definition read_port_data_rest :: "byteorder \<Rightarrow> bool \<Rightarrow> u8 \<Rightarrow> u32 \<Rightarrow> port_data_item reader" where
  "read_port_data_rest bo vi flags port =
     rbind (if flags AND PORT_DATA_IDS \<noteq> 0 then read_v32 bo vi else rret port) (\<lambda>id.
     rbind (if flags AND PORT_DATA_PORTS_FLAGS \<noteq> 0
            then rmap (\<lambda>port_flags. port_flags AND PORT_FLAG_PRE_CONNECT \<noteq> 0) read_u8
            else rret (flags AND PORT_DATA_PRE_CONNECT_ALL \<noteq> 0)) (\<lambda>pre_connect.
       rret \<lparr>pdi_port = port, pdi_id = id, pdi_pre_connect = pre_connect\<rparr>))"

lemma read_port_data_rest_shorter:
  assumes "read_port_data_rest bo vi flags port bs = Inr (item, rest)"
  shows "length rest \<le> length bs"
proof -
  have u8: "read_u8 xs = Inr (b, ys) \<Longrightarrow> length ys \<le> length xs" for xs b ys
    by (cases xs) auto
  have v32: "read_v32 bo vi xs = Inr (n, ys) \<Longrightarrow> length ys \<le> length xs" for xs n ys
    by (drule read_v32_shorter) simp
  show ?thesis
    using assms
    by (auto simp: read_port_data_rest_def rbind_def rmap_def rret_def dest!: u8 v32
        split: if_splits sum.splits)
qed

text \<open>The loop reads items until a port number cannot be read any more; \<^verbatim>\<open>UnexpectedEof\<close> there is
  the end of the message.\<close>

function read_port_data_items :: "byteorder \<Rightarrow> bool \<Rightarrow> u8 \<Rightarrow> bytes \<Rightarrow> io_error + port_data_item list" where
  "read_port_data_items bo vi flags bs =
     (case read_v32 bo vi bs of
        Inl UnexpectedEof \<Rightarrow> Inr []
      | Inl err \<Rightarrow> Inl err
      | Inr (port, bs1) \<Rightarrow>
          (case read_port_data_rest bo vi flags port bs1 of
             Inl err \<Rightarrow> Inl err
           | Inr (item, bs2) \<Rightarrow>
               (case read_port_data_items bo vi flags bs2 of
                  Inl err \<Rightarrow> Inl err
                | Inr items \<Rightarrow> Inr (item # items))))"
  by pat_completeness auto
termination
  by (relation "measure (\<lambda>(_, _, _, bs). length bs)")
    (auto dest!: read_v32_shorter read_port_data_rest_shorter)

declare read_port_data_items.simps [simp del]

definition read_port_data :: "byteorder \<Rightarrow> bool \<Rightarrow> 'v multiplex_msg reader" where
  "read_port_data bo vi =
     rbind (read_v32 bo vi) (\<lambda>port.
     rbind read_u8 (\<lambda>flags bs.
       case read_port_data_items bo vi flags bs of
         Inl err \<Rightarrow> Inl err
       | Inr ports \<Rightarrow>
           Inr (PortData (if flags AND PORT_DATA_PORT_LOCAL \<noteq> 0 then Local port else Remote port)
             (flags AND PORT_DATA_FIRST \<noteq> 0) (flags AND PORT_DATA_LAST \<noteq> 0)
             (flags AND PORT_DATA_WAIT \<noteq> 0) ports, [])))"

definition read_port_flag :: "byteorder \<Rightarrow> bool \<Rightarrow> (side_port \<Rightarrow> 'v multiplex_msg) \<Rightarrow> 'v multiplex_msg reader" where
  "read_port_flag bo vi mk =
     rbind (read_v32 bo vi) (\<lambda>port.
     rbind read_u8_or_default (\<lambda>flags.
       rret (mk (if flags AND FLAG_PORT_LOCAL \<noteq> 0 then Local port else Remote port))))"

definition read_port_credits :: "byteorder \<Rightarrow> bool \<Rightarrow> (u32 \<Rightarrow> side_port) \<Rightarrow> 'v multiplex_msg reader" where
  "read_port_credits bo vi side =
     rbind (read_v32 bo vi) (\<lambda>port. rmap (PortCredits (side port)) (read_v32 bo vi))"

definition read_msg :: "byteorder \<Rightarrow> 'v postbag \<Rightarrow> bool \<Rightarrow> 'v multiplex_msg reader" where
  "read_msg bo pb vi =
     rbind read_u8 (\<lambda>msg_id.
       if msg_id = MSG_RESET then rret Reset
       else if msg_id = MSG_HELLO then read_hello bo pb
       else if msg_id = MSG_PING then rret Ping
       else if msg_id = MSG_OPEN_PORT then read_open_port bo vi
       else if msg_id = MSG_PORT_OPENED then read_port_opened bo vi
       else if msg_id = MSG_REJECTED then
         rbind (read_v32 bo vi) (\<lambda>client_port.
           rmap (\<lambda>flags. Rejected client_port (flags AND REJECTED_NO_PORTS \<noteq> 0)) read_u8)
       else if msg_id = MSG_DATA then read_data bo vi
       else if msg_id = MSG_PORT_DATA then read_port_data bo vi
       else if msg_id = MSG_REQUEST_RECEIVED_REPORT then read_port_flag bo vi RequestReceivedReport
       else if msg_id = MSG_RECEIVED_REPORT then read_port_flag bo vi ReceivedReport
       else if msg_id = MSG_PORT_CREDITS then read_port_credits bo vi Remote
       else if msg_id = MSG_LOCAL_PORT_CREDITS then read_port_credits bo vi Local
       else if msg_id = MSG_INHIBIT_BY_PORT then
         rmap (\<lambda>p. InhibitGlobalCreditUsageByPort (Remote p)) (read_v32 bo vi)
       else if msg_id = MSG_INHIBIT_BY_LOCAL_PORT then
         rmap (\<lambda>p. InhibitGlobalCreditUsageByPort (Local p)) (read_v32 bo vi)
       else if msg_id = MSG_ALLOW_BY_PORT then
         rmap (\<lambda>p. AllowGlobalCreditUsageByPort (Remote p)) (read_v32 bo vi)
       else if msg_id = MSG_ALLOW_BY_LOCAL_PORT then
         rmap (\<lambda>p. AllowGlobalCreditUsageByPort (Local p)) (read_v32 bo vi)
       else if msg_id = MSG_SEND_FINISH then read_port_flag bo vi SendFinish
       else if msg_id = MSG_RECEIVE_CLOSE then read_port_flag bo vi ReceiveClose
       else if msg_id = MSG_RECEIVE_FINISH then read_port_flag bo vi ReceiveFinish
       else if msg_id = MSG_GLOBAL_CREDITS then
         rbind (read_v32 bo vi) (\<lambda>credits.
           rmap (\<lambda>seq. GlobalCredits \<lparr>gc_credits = credits, gc_seq = seq\<rparr>) read_u8)
       else if msg_id = MSG_GLOBAL_CREDITS_REPORT then
         rbind (read_v32 bo vi) (\<lambda>current.
         rbind (read_v32 bo vi) (\<lambda>mn.
           rmap (\<lambda>seq. GlobalCreditsReport \<lparr>rep_current = current, rep_min = mn, rep_seq = seq\<rparr>) read_u8))
       else if msg_id = MSG_CLIENT_FINISH then rret ClientFinish
       else if msg_id = MSG_LISTENER_FINISH then rret ListenerFinish
       else if msg_id = MSG_GOODBYE then rret Goodbye
       else rfail (InvalidData ''invalid message id''))"

text \<open>\<^verbatim>\<open>from_slice\<close> ignores what is left of the slice and turns an error into a protocol error.\<close>

definition from_slice :: "byteorder \<Rightarrow> 'v postbag \<Rightarrow> bool \<Rightarrow> bytes \<Rightarrow> io_error + 'v multiplex_msg" where
  "from_slice bo pb vi data =
     (case read_msg bo pb vi data of Inl e \<Rightarrow> Inl e | Inr (m, _) \<Rightarrow> Inr m)"

end
