(* ===== verification/Msg_Codec.thy ===== *)
theory Msg_Codec
  imports Msg
begin

text \<open>
  Correctness of the wire format of \<open>Msg\<close>: reading back each kind of message, the Hello
  message and its older, shorter forms, and the length of a message against the frame limit.
\<close>

lemma read_write_v32_end [codec_simps]:
  "byteorder_ok bo \<Longrightarrow> read_v32 bo vi (write_v32 bo vi n) = Inr (n, [])"
  using read_write_v32 [of bo vi n "[]"] by simp

lemmas reader_defs [codec_defs] = rbind_def rmap_def rret_def rfail_def

lemma and_or_flags:
  "(a OR b) AND (c :: u8) = (a AND c) OR (b AND c)"
  by (rule bit.conj_disj_distrib2)

lemma if_flag_and: "(if c then f else 0) AND (g :: u8) = (if c then f AND g else 0)"
  by simp

section \<open>Reading back each message\<close>

lemma read_write_port_flag:
  "byteorder_ok bo \<Longrightarrow>
   read_port_flag bo vi mk (write_v32 bo vi (port_num port) @ [flag (is_local port) FLAG_PORT_LOCAL])
     = Inr (mk port, [])"
  by (cases port) (simp_all add: read_port_flag_def codec_defs read_write_v32)

lemma read_write_open_port:
  "byteorder_ok bo \<Longrightarrow>
   read_msg bo pb vi (write_open_port bo vi p wait pid pre) = Inr (OpenPort p wait pid pre, [])"
  by (cases pid; cases wait; cases pre)
    (simp_all add: read_msg_def write_open_port_def read_open_port_def codec_defs codec_simps)

lemma read_write_data:
  "byteorder_ok bo \<Longrightarrow>
   read_msg bo pb vi (write_data bo vi port f l credits) = Inr (Data port f l credits, [])"
  by (cases port; cases credits; cases f; cases l)
    (simp_all add: read_msg_def write_data_def read_data_def codec_defs codec_simps)

text \<open>Items of a PortData message: with the flags the writer chose, reading the concatenation
  of the written items gives the items back.\<close>

lemma read_v32_empty: "read_v32 bo vi [] = Inl UnexpectedEof"
  by (simp add: read_v32_def read_u32_def read_exact_def codec_defs)

lemma read_write_items:
  assumes bo: "byteorder_ok bo"
    and ids: "flags AND PORT_DATA_IDS \<noteq> 0 \<longleftrightarrow> need_ids"
    and pfl: "flags AND PORT_DATA_PORTS_FLAGS \<noteq> 0 \<longleftrightarrow> need_port_flags"
    and noid: "\<not> need_ids \<Longrightarrow> \<forall>item \<in> set items. pdi_id item = pdi_port item"
    and nofl: "\<not> need_port_flags \<Longrightarrow>
      \<forall>item \<in> set items. pdi_pre_connect item = (flags AND PORT_DATA_PRE_CONNECT_ALL \<noteq> 0)"
  shows "read_port_data_items bo vi flags
      (concat (map (write_port_data_item bo vi need_ids need_port_flags) items)) = Inr items"
  using noid nofl
proof (induction items)
  case Nil
  then show ?case
    by (subst read_port_data_items.simps) (simp add: read_v32_empty)
next
  case (Cons item items)
  let ?rest = "concat (map (write_port_data_item bo vi need_ids need_port_flags) items)"
  have "read_port_data_rest bo vi flags (pdi_port item)
      ((if need_ids then write_v32 bo vi (pdi_id item) else [])
       @ (if need_port_flags then [flag (pdi_pre_connect item) PORT_FLAG_PRE_CONNECT] else []) @ ?rest)
    = Inr (item, ?rest)"
    using Cons.prems ids pfl bo
    by (cases item) (auto simp: read_port_data_rest_def codec_defs codec_simps split: if_splits)
  moreover have "read_port_data_items bo vi flags ?rest = Inr items"
    using Cons by auto
  ultimately show ?case
    using bo by (subst read_port_data_items.simps)
      (simp add: codec_simps write_port_data_item_def [of _ _ _ _ item])
qed

lemma read_write_port_data:
  assumes bo: "byteorder_ok bo"
  shows "read_msg bo pb vi (write_port_data bo vi port f l wait ports)
    = Inr (PortData port f l wait ports, [])"
proof -
  define need_ids where "need_ids = list_ex (\<lambda>item. pdi_port item \<noteq> pdi_id item) ports"
  define count where "count = length (filter pdi_pre_connect ports)"
  define all_pre where "all_pre \<longleftrightarrow> count \<noteq> 0 \<and> count = length ports"
  define need_flags where "need_flags \<longleftrightarrow> count \<noteq> 0 \<and> count \<noteq> length ports"
  define flags :: u8 where "flags = (flag f PORT_DATA_FIRST OR flag l PORT_DATA_LAST
    OR flag wait PORT_DATA_WAIT OR flag need_ids PORT_DATA_IDS
    OR flag all_pre PORT_DATA_PRE_CONNECT_ALL OR flag need_flags PORT_DATA_PORTS_FLAGS
    OR flag (is_local port) PORT_DATA_PORT_LOCAL)"
  note bits = flags_def and_or_flags if_flag_and
  have fl: "flags AND PORT_DATA_IDS \<noteq> 0 \<longleftrightarrow> need_ids"
    "flags AND PORT_DATA_PORTS_FLAGS \<noteq> 0 \<longleftrightarrow> need_flags"
    "flags AND PORT_DATA_PRE_CONNECT_ALL \<noteq> 0 \<longleftrightarrow> all_pre"
    "flags AND PORT_DATA_FIRST \<noteq> 0 \<longleftrightarrow> f" "flags AND PORT_DATA_LAST \<noteq> 0 \<longleftrightarrow> l"
    "flags AND PORT_DATA_WAIT \<noteq> 0 \<longleftrightarrow> wait"
    "flags AND PORT_DATA_PORT_LOCAL \<noteq> 0 \<longleftrightarrow> is_local port"
    by (simp_all add: bits)
  have none: "\<forall>item \<in> set ports. \<not> pdi_pre_connect item" if "count = 0"
    using that by (simp add: count_def filter_empty_conv)
  have all: "\<forall>item \<in> set ports. pdi_pre_connect item" if "count = length ports"
    using that by (simp add: count_def) (metis filter_id_conv filter_True length_filter_less less_irrefl)
  have items: "read_port_data_items bo vi flags
      (concat (map (write_port_data_item bo vi need_ids need_flags) ports)) = Inr ports"
  proof (rule read_write_items [OF bo fl(1) fl(2)])
    show "\<forall>item \<in> set ports. pdi_id item = pdi_port item" if "\<not> need_ids"
      using that by (auto simp: need_ids_def list_ex_iff)
    show "\<forall>item \<in> set ports. pdi_pre_connect item = (flags AND PORT_DATA_PRE_CONNECT_ALL \<noteq> 0)"
      if "\<not> need_flags"
      using that none all unfolding fl(3) by (auto simp: need_flags_def all_pre_def)
  qed
  have w: "write_port_data bo vi port f l wait ports =
    [MSG_PORT_DATA] @ write_v32 bo vi (port_num port) @ [flags]
    @ concat (map (write_port_data_item bo vi need_ids need_flags) ports)"
    by (simp add: write_port_data_def Let_def flags_def need_ids_def need_flags_def all_pre_def count_def)
  have "(if is_local port then Local (port_num port) else Remote (port_num port)) = port"
    by (cases port) auto
  then show ?thesis
    using bo items fl by (simp add: w read_msg_def read_port_data_def codec_defs codec_simps)
qed

section \<open>The Hello message\<close>

text \<open>What the remote endpoint sees of a configuration: the timeout in whole milliseconds, where
  zero is no timeout, and no global credits where they are disabled.\<close>

definition cfg_as_received :: "'v exchanged_cfg \<Rightarrow> 'v exchanged_cfg" where
  "cfg_as_received x =
     (let millis = min (as_millis (case x_connection_timeout x of None \<Rightarrow> 0 | Some d \<Rightarrow> d)) (2 ^ 64 - 1)
      in x\<lparr>x_connection_timeout := (if millis = 0 then None else Some (millis * 1000000)),
           x_global_credits := (if x_global_credits_enabled x then x_global_credits x else None)\<rparr>)"

definition cfg_sendable :: "'v exchanged_cfg \<Rightarrow> bool" where
  "cfg_sendable x \<longleftrightarrow> 4 \<le> x_chunk_size x \<and> 4 \<le> x_port_receive_buffer x \<and> 1 \<le> x_connect_queue x
     \<and> x_global_credits x \<noteq> None"

lemma write_bool_nonzero [simp]: "write_bool b \<noteq> 0 \<longleftrightarrow> b"
  by (simp add: write_bool_def)

lemma read_puts:
  assumes "byteorder_ok bo"
  shows "read_u16 bo (put16 bo a @ rest) = Inr (a, rest)"
    and "read_u32 bo (put32 bo b @ rest) = Inr (b, rest)"
    and "read_u64 bo (put64 bo c @ rest) = Inr (c, rest)"
  using assms unfolding byteorder_ok_iff
  by (rule byteorder_codec.read_u16_put byteorder_codec.read_u32_put byteorder_codec.read_u64_put)+

lemma unat_of_millis: "unat (word_of_nat (min n (2 ^ 64 - 1)) :: u64) = min n (2 ^ 64 - 1)"
  by (simp add: unat_of_nat min_def)

lemma not_below_iff: "(a :: 'a :: linorder) \<le> b \<Longrightarrow> \<not> b < a"
  by simp

lemma read_write_cfg:
  assumes bo: "byteorder_ok bo" and pb: "postbag_ok pb" and x: "cfg_sendable x"
    and w: "write_cfg bo pb x = Ret bs"
  shows "read_cfg bo pb version (bs @ rest) = Inr (cfg_as_received x, rest)"
proof -
  obtain credits where credits: "x_global_credits x = Some credits"
    using x by (auto simp: cfg_sendable_def)
  define m where "m = min (as_millis (case x_connection_timeout x of None \<Rightarrow> 0 | Some d \<Rightarrow> d)) (2 ^ 64 - 1)"
  have m: "(word_of_nat m :: u64) = 0 \<longleftrightarrow> m = 0" "unat (word_of_nat m :: u64) = m"
    using unat_of_millis unfolding m_def by (metis unat_0 unsigned_eq_0_iff, blast)
  have checks: "\<not> x_chunk_size x < 4" "\<not> x_port_receive_buffer x < 4" "\<not> x_connect_queue x < 1"
    using x by (auto simp: cfg_sendable_def)
  have pbv: "ver_of_u8 pb (ver_to_u8 pb v) = Some v" for v
    using pb by (simp add: postbag_ok_def)
  have bs: "bs = put64 bo (word_of_nat m) @ put32 bo (x_chunk_size x)
      @ put32 bo (x_port_receive_buffer x) @ put16 bo (x_connect_queue x) @ put32 bo credits
      @ [write_bool (x_received_report x), write_bool (x_port_side x),
         write_bool (x_pre_connect x), write_bool (x_varint x),
         write_bool (x_frame_len_varint x), write_bool (x_compact_transported x),
         ver_to_u8 pb (x_postbag_version x), write_bool (x_postbag_allow_skip x),
         write_bool (x_port_id x), write_bool (x_global_credits_enabled x)]"
    using w credits by (simp add: write_cfg_def m_def)
  have rx: "cfg_as_received x =
      x\<lparr>x_connection_timeout := (if m = 0 then None else Some (m * 1000000)),
        x_global_credits := (if x_global_credits_enabled x then Some credits else None)\<rparr>"
    using credits unfolding cfg_as_received_def m_def [symmetric] Let_def by simp
  show ?thesis
    unfolding bs rx read_cfg_def
    by (cases x) (use checks in \<open>simp add: read_puts [OF bo] codec_defs m pbv
        cfg_read_optional_def cfg_read_initial_def read_or_return_def Let_def\<close>)
qed

section \<open>All messages\<close>

definition msg_as_received :: "'v multiplex_msg \<Rightarrow> 'v multiplex_msg" where
  "msg_as_received m = (case m of Hello version cfg \<Rightarrow> Hello version (cfg_as_received cfg) | _ \<Rightarrow> m)"

definition msg_sendable :: "'v multiplex_msg \<Rightarrow> bool" where
  "msg_sendable m = (case m of Hello version cfg \<Rightarrow> cfg_sendable cfg | _ \<Rightarrow> True)"

lemma write_msg_returns: "msg_sendable m \<Longrightarrow> \<exists>bs. write_msg bo pb vi m = Ret bs"
  by (cases m) (auto simp: msg_sendable_def cfg_sendable_def write_cfg_def)

lemma read_write_hello:
  assumes "byteorder_ok bo" "postbag_ok pb" "cfg_sendable cfg" "write_cfg bo pb cfg = Ret c"
  shows "read_msg bo pb vi ([MSG_HELLO] @ MAGIC @ [version] @ c) = Inr (Hello version (cfg_as_received cfg), [])"
  using read_write_cfg [OF assms, of version "[]"]
  by (simp add: read_msg_def read_hello_def codec_defs codec_simps)

lemma read_write_msg_short:
  assumes bo: "byteorder_ok bo" and w: "write_msg bo pb vi m = Ret bs"
    and short: "\<forall>version cfg. m \<noteq> Hello version cfg"
  shows "read_msg bo pb vi bs = Inr (m, [])"
proof (cases m)
  case (PortOpened client_port server_port)
  then show ?thesis
    using bo w by (cases server_port) (auto simp: read_msg_def read_port_opened_def codec_defs codec_simps)
next
  case (PortCredits port credits)
  then show ?thesis
    using bo w by (cases port) (auto simp: read_msg_def read_port_credits_def codec_defs codec_simps)
next
  case (InhibitGlobalCreditUsageByPort port)
  then show ?thesis
    using bo w by (cases port) (auto simp: read_msg_def codec_defs codec_simps)
next
  case (AllowGlobalCreditUsageByPort port)
  then show ?thesis
    using bo w by (cases port) (auto simp: read_msg_def codec_defs codec_simps)
next
  case (OpenPort p wait pid pre)
  then show ?thesis
    using w read_write_open_port [OF bo, of pb vi p wait pid pre] by auto
next
  case (Data port f l credits)
  then show ?thesis
    using w read_write_data [OF bo, of pb vi port f l credits] by auto
next
  case (PortData port f l wait ports)
  then show ?thesis
    using w read_write_port_data [OF bo, of pb vi port f l wait ports] by auto
qed (use bo w short in \<open>auto simp: read_msg_def write_port_flag_def read_write_port_flag codec_defs codec_simps\<close>)

lemma read_write_msg:
  assumes "byteorder_ok bo" "postbag_ok pb" "msg_sendable m" "write_msg bo pb vi m = Ret bs"
  shows "read_msg bo pb vi bs = Inr (msg_as_received m, [])"
proof (cases "\<exists>version cfg. m = Hello version cfg")
  case True
  then obtain version cfg where m: "m = Hello version cfg" by blast
  with assms(3) obtain c where "write_cfg bo pb cfg = Ret c"
    by (auto simp: msg_sendable_def cfg_sendable_def write_cfg_def)
  with m assms read_write_hello [of bo pb cfg c vi version] show ?thesis
    by (auto simp: msg_sendable_def msg_as_received_def)
next
  case False
  then have "msg_as_received m = m"
    by (cases m) (auto simp: msg_as_received_def)
  with False assms read_write_msg_short show ?thesis by simp
qed

section \<open>Length of a message\<close>

lemma length_write_cfg:
  "byteorder_ok bo \<Longrightarrow> write_cfg bo pb x = Ret bs \<Longrightarrow> length bs = 32"
  by (auto simp: write_cfg_def byteorder_ok_def split: option.splits)

lemma length_hello:
  "byteorder_ok bo \<Longrightarrow> write_msg bo pb vi (Hello version cfg) = Ret bs \<Longrightarrow> length bs = 40"
  by (auto simp: exec_bind_Ret MAGIC_def dest: length_write_cfg)

lemma length_short_msg:
  assumes bo: "byteorder_ok bo" and w: "write_msg bo pb vi m = Ret bs"
    and "\<forall>version cfg. m \<noteq> Hello version cfg"
    and "\<forall>port f l wait ports. m \<noteq> PortData port f l wait ports"
  shows "length bs \<le> 12"
proof -
  have v: "length (write_v32 bo vi n) \<le> k" if "5 \<le> k" for n k
    using length_write_v32 [OF bo, of vi n] that by simp
  have v2: "length (write_v32 bo vi n) + length (write_v32 bo vi n') \<le> k" if "10 \<le> k" for n n' k
    using v [of 5 n] v [of 5 n'] that by simp
  show ?thesis
    using assms
    by (cases m) (auto simp: write_open_port_def write_data_def write_port_flag_def v v2
        split: option.splits data_credits.splits simp del: if_split)
qed

lemma length_port_data:
  assumes bo: "byteorder_ok bo" and w: "write_msg bo pb vi (PortData port f l wait ports) = Ret bs"
  shows "length bs \<le> 7 + 11 * length ports"
proof -
  have v: "length (write_v32 bo vi n) \<le> 5" for n
    using length_write_v32 [OF bo] by blast
  have item: "length (write_port_data_item bo vi a b item) \<le> 11" for a b item
    using v [of "pdi_port item"] v [of "pdi_id item"] by (auto simp: write_port_data_item_def)
  have "length (concat (map (write_port_data_item bo vi a b) ports)) \<le> 11 * length ports" for a b
    by (induction ports) (auto intro: order_trans [OF add_mono [OF item]])
  then show ?thesis
    using w v [of "port_num port"] by (auto simp: write_port_data_def Let_def intro!: add_mono)
qed

section \<open>Properties\<close>

text \<open>C20: The wire format round-trips: every message an endpoint can write is read back by the
  other endpoint as the same message, whichever integer encoding is in use. Only the Hello
  message is normalised: its timeout is cut to whole milliseconds and its global credits are
  dropped when they are not enabled.\<close>

theorem message_roundtrip:
  assumes "byteorder_ok bo" "postbag_ok pb" "msg_sendable m"
  shows "\<exists>bs. write_msg bo pb varint m = Ret bs \<and> from_slice bo pb varint bs = Inr (msg_as_received m)"
  using write_msg_returns [OF assms(3), of bo pb varint] read_write_msg [OF assms, of varint]
  by (auto simp: from_slice_def)

definition unit_postbag :: "unit postbag" where
  "unit_postbag = \<lparr>ver_to_u8 = (\<lambda>_. 1), ver_of_u8 = (\<lambda>_. Some ()), ver_default = (), ver_postbag0_4 = ()\<rparr>"

lemma unit_postbag_ok: "postbag_ok unit_postbag"
  by (simp add: postbag_ok_def unit_postbag_def)

theorem message_roundtrip_witness:
  "\<exists>bs. write_msg le_byteorder unit_postbag True
       (PortData (Local 3) True False True
          [\<lparr>pdi_port = 1, pdi_id = 9, pdi_pre_connect = True\<rparr>, \<lparr>pdi_port = 2, pdi_id = 2, pdi_pre_connect = False\<rparr>])
       = Ret bs \<and>
     from_slice le_byteorder unit_postbag True bs = Inr (PortData (Local 3) True False True
          [\<lparr>pdi_port = 1, pdi_id = 9, pdi_pre_connect = True\<rparr>, \<lparr>pdi_port = 2, pdi_id = 2, pdi_pre_connect = False\<rparr>])"
  using message_roundtrip [OF le_byteorder_ok unit_postbag_ok, of "PortData (Local 3) True False True
      [\<lparr>pdi_port = 1, pdi_id = 9, pdi_pre_connect = True\<rparr>, \<lparr>pdi_port = 2, pdi_id = 2, pdi_pre_connect = False\<rparr>]" True]
  by (simp add: msg_sendable_def msg_as_received_def)

text \<open>A message other than Hello and PortData takes at most twelve bytes, so it fits into the
  frame that a receiver accepts, together with no data at all.\<close>

theorem message_fits_frame:
  assumes "byteorder_ok bo" "write_msg bo pb varint m = Ret bs"
    and "\<forall>version cfg. m \<noteq> Hello version cfg"
    and "\<forall>port f l wait ports. m \<noteq> PortData port f l wait ports"
  shows "length bs \<le> MAX_MSG_LENGTH"
  using length_short_msg [OF assms] by (simp add: MAX_MSG_LENGTH_def)

theorem message_fits_frame_witness:
  "length [9 :: u8, 5, 0, 0, 0, 16, 0, 0, 0] \<le> MAX_MSG_LENGTH"
proof (rule message_fits_frame [OF le_byteorder_ok])
  show "write_msg le_byteorder unit_postbag False (PortCredits (Remote 5) 16)
      = Ret [9, 5, 0, 0, 0, 16, 0, 0, 0]"
    by code_simp
qed simp_all

text \<open>The Hello message does not fit into the frame limit of a small chunk size: a
  configuration that \<^verbatim>\<open>check\<close> accepts with a chunk size below 24 has a maximum frame length below
  the 40 bytes of the Hello message every peer sends, so the peer's Hello is rejected by the
  framing layer.\<close>

theorem hello_exceeds_small_frame:
  assumes "byteorder_ok bo" "write_msg bo pb varint (Hello version x) = Ret bs"
    and "cfg_check cfg = Ret ()" "chunk_size cfg < 24" "max_frame_length cfg = Ret len"
  shows "unat len < length bs"
proof -
  have "unat (chunk_size cfg) < 24"
    using assms(4) by (simp add: word_less_nat_alt)
  with max_frame_length_value [of cfg] assms(5) length_hello [OF assms(1,2)] show ?thesis
    by auto
qed

definition example_cfg :: "(unit, unit) cfg" where
  "example_cfg = default_cfg () (default_capabilities () True)"

theorem hello_exceeds_small_frame_witness:
  "\<exists>bs. write_msg le_byteorder unit_postbag False (Hello 3 (exchanged_cfg_new example_cfg 65536)) = Ret bs
     \<and> unat (20 :: u32) < length bs"
proof -
  have s: "msg_sendable (Hello 3 (exchanged_cfg_new example_cfg 65536))"
    by (simp add: msg_sendable_def cfg_sendable_def exchanged_cfg_new_def example_cfg_def
        default_cfg_def Let_def)
  then obtain bs where w: "write_msg le_byteorder unit_postbag False
      (Hello 3 (exchanged_cfg_new example_cfg 65536)) = Ret bs"
    using write_msg_returns by blast
  have "unat (20 :: u32) < length bs"
  proof (rule hello_exceeds_small_frame [OF le_byteorder_ok w])
    show "cfg_check (example_cfg\<lparr>chunk_size := 4\<rparr>) = Ret ()"
      by (simp add: cfg_check_def example_cfg_def default_cfg_def)
    show "chunk_size (example_cfg\<lparr>chunk_size := 4\<rparr>) < 24" by simp
    show "max_frame_length (example_cfg\<lparr>chunk_size := 4\<rparr>) = Ret 20"
      by (simp add: max_frame_length_def checked_add_def MAX_MSG_LENGTH_def)
  qed
  with w show ?thesis by blast
qed

lemma length_write_v32_fixed: "byteorder_ok bo \<Longrightarrow> length (write_v32 bo False n) = 4"
  by (simp add: write_v32_def byteorder_ok_def)

lemma length_items_with_ids:
  "byteorder_ok bo \<Longrightarrow>
   8 * length items \<le> length (concat (map (write_port_data_item bo False True fl) items))"
  by (induction items) (simp_all add: write_port_data_item_def length_write_v32_fixed)

text \<open>A PortData message can outgrow the frame its receiver accepts: sender and receiver both
  account four bytes of chunk size per port, but a port with an id of its own takes at least eight
  bytes in the fixed encoding, so three or more such ports exceed the limit of \<^verbatim>\<open>MAX_MSG_LENGTH\<close>
  plus the accounted size.\<close>

theorem port_data_exceeds_accounted_size:
  assumes "byteorder_ok bo"
    and "write_msg bo pb False (PortData port f l wait ports) = Ret bs"
    and "\<forall>item \<in> set ports. pdi_id item \<noteq> pdi_port item" and "3 \<le> length ports"
  shows "MAX_MSG_LENGTH + 4 * length ports < length bs"
proof -
  have "list_ex (\<lambda>item. pdi_port item \<noteq> pdi_id item) ports"
    using assms(3,4) by (cases ports) auto
  then obtain fl flags where "bs = [MSG_PORT_DATA] @ write_v32 bo False (port_num port) @ [flags]
      @ concat (map (write_port_data_item bo False True fl) ports)"
    using assms(2) by (auto simp: write_port_data_def Let_def)
  with length_items_with_ids [OF assms(1), of ports fl] length_write_v32_fixed [OF assms(1)] assms(4)
  show ?thesis by (simp add: MAX_MSG_LENGTH_def)
qed

theorem port_data_exceeds_accounted_size_witness:
  "\<exists>bs. write_msg le_byteorder unit_postbag False
       (PortData (Local 1) True True True (replicate 3 \<lparr>pdi_port = 5, pdi_id = 6, pdi_pre_connect = False\<rparr>)) = Ret bs
     \<and> MAX_MSG_LENGTH + 4 * 3 < length bs"
proof -
  obtain bs where w: "write_msg le_byteorder unit_postbag False
      (PortData (Local 1) True True True (replicate 3 \<lparr>pdi_port = 5, pdi_id = 6, pdi_pre_connect = False\<rparr>)) = Ret bs"
    by simp
  have "MAX_MSG_LENGTH + 4 * length (replicate 3 \<lparr>pdi_port = 5, pdi_id = 6, pdi_pre_connect = False\<rparr>) < length bs"
    by (rule port_data_exceeds_accounted_size [OF le_byteorder_ok w]) simp_all
  with w show ?thesis by auto
qed

end
