(* ===== verification/Events.thy ===== *)
theory Events
  imports Msg
begin

text \<open>
  Errors and events shared by the parts of the multiplexer: \<^verbatim>\<open>ChMuxError\<close> of
  \<^verbatim>\<open>remoc/src/chmux/mod.rs\<close>, the send errors of \<^verbatim>\<open>sender.rs\<close> and the events a port sends
  to the event loop of \<^verbatim>\<open>mux.rs\<close>. A one-shot reply channel is represented by an identifier,
  an allocated port by its number: the drop of an allocated port is an explicit operation of
  the port allocator.
\<close>

section \<open>Errors\<close>

datatype ('k, 't) chmux_error =
    SinkError 'k
  | StreamError 't
  | StreamClosed
  | ResetError
  | TimeoutError
  | Protocol string

datatype send_error =
    ChMux
  | Closed (closed_gracefully: bool)
  | RejectedErr (rejected_no_ports: bool)
  | LocalPortsExhausted
  | TooManyPendingPreConnectReqs

fun is_closed :: "send_error \<Rightarrow> bool" where
  "is_closed (Closed _) = True"
| "is_closed _ = False"

fun is_disconnected :: "send_error \<Rightarrow> bool" where
  "is_disconnected ChMux = True"
| "is_disconnected (Closed _) = True"
| "is_disconnected (RejectedErr _) = True"
| "is_disconnected _ = False"

datatype try_send_error = Full | Send send_error

fun try_is_closed :: "try_send_error \<Rightarrow> bool" where
  "try_is_closed Full = False"
| "try_is_closed (Send e) = is_closed e"

text \<open>What \<^verbatim>\<open>try_send\<close> of a bounded channel answers: the queue of the channel belongs to the
  asynchronous runtime, so its answer is an argument of the operations that use it.\<close>

datatype try_result = SendOk | SendFull | SendClosed

text \<open>Why a connection request fails, and why accepting one does.\<close>

datatype connect_error =
    ConnectPortsExhausted
  | ConnectRemotePortsExhausted
  | TooManyPendingConnectReqs
  | ConnectRejected
  | ConnectChMux

datatype listener_error =
    ListenerPortsExhausted
  | ListenerPortAllocated u32
  | ListenerChMux

section \<open>Events of a port\<close>

type_synonym reply_id = nat

text \<open>A port sent through a channel: its number, its id, whether it is pre-connected, and the
  channel of the response.\<close>

record port_req =
  pr_port :: u32
  pr_id :: u32
  pr_wait :: bool
  pr_pre_connect :: bool

datatype port_evt =
    Accepted side_port u32 reply_id
  | AcceptedAfterPreConnect u32
  | RejectedEvt u32 bool (returns_reserved: bool)
  | RejectedAfterAccept u32 bool
  | SendData side_port bytes bool bool data_credits
  | SendPorts side_port bool bool "(port_req \<times> reply_id) list"
  | Flush reply_id
  | RequestReceivedReportEvt side_port reply_id
  | ReceivedReportEvt side_port
  | ChangeGlobalCreditUsage side_port bool
  | ReturnCredits side_port u32
  | SenderDropped side_port
  | ReceiverClosed side_port
  | ReceiverDropped side_port

definition port_data_item_of :: "port_req \<Rightarrow> port_data_item" where
  "port_data_item_of req =
     \<lparr>pdi_port = pr_port req, pdi_id = pr_id req, pdi_pre_connect = pr_pre_connect req\<rparr>"

end
