(* ===== verification/SendCredit.thy ===== *)
theory SendCredit
  imports Events
begin

text \<open>
  The sending side of flow control, first half of \<^verbatim>\<open>remoc/src/chmux/credit.rs\<close>: the store of
  sendable credits shared by a \<^verbatim>\<open>CreditProvider\<close> and its \<^verbatim>\<open>CreditUser\<close>s, credits taken out
  of a store (\<^verbatim>\<open>AssignedCredits\<close>), queues of them mixed from port and global credits, and the
  requests of a \<^verbatim>\<open>MixedCreditUser\<close>. A \<^verbatim>\<open>Weak\<close> reference to a store is an optional store:
  \<open>None\<close> when the provider is gone. Waking waiters has no state and is left out; one run of a
  request loop up to its next wait is one function.
\<close>

section \<open>The store of sendable credits\<close>

datatype credit_pool = PortPool | GlobalPool

datatype store_state = StateOpen | StateClosed | StateClosedGracefully

record credit_store =
  cs_pool :: credit_pool
  cs_credits :: u32
  cs_state :: store_state
  cs_use_global :: bool

definition new_store :: "credit_pool \<Rightarrow> u32 \<Rightarrow> credit_store" where
  "new_store pool credits =
     \<lparr>cs_pool = pool, cs_credits = credits, cs_state = StateOpen, cs_use_global = True\<rparr>"

definition store_check_sendable :: "bool \<Rightarrow> credit_store \<Rightarrow> send_error + unit" where
  "store_check_sendable override_graceful_close s =
     (if cs_pool s \<noteq> PortPool then Inr ()
      else case cs_state s of
        StateOpen \<Rightarrow> Inr ()
      | StateClosed \<Rightarrow> Inl (Closed False)
      | StateClosedGracefully \<Rightarrow> if override_graceful_close then Inr () else Inl (Closed True))"

definition try_take_credits :: "u32 \<Rightarrow> u32 \<Rightarrow> credit_store \<Rightarrow> u32 \<times> credit_store" where
  "try_take_credits req min_req s =
     (if cs_credits s \<ge> min_req
      then (let taken = min (cs_credits s) req in (taken, s\<lparr>cs_credits := cs_credits s - taken\<rparr>))
      else (0, s))"

section \<open>Assigned credits\<close>

record assigned_credits =
  ac_pool :: credit_pool
  ac_credits :: u32

definition ac_empty :: "credit_pool \<Rightarrow> assigned_credits" where
  "ac_empty pool = \<lparr>ac_pool = pool, ac_credits = 0\<rparr>"

definition ac_new :: "u32 \<Rightarrow> credit_store \<Rightarrow> assigned_credits" where
  "ac_new credits s = \<lparr>ac_pool = cs_pool s, ac_credits = credits\<rparr>"

definition ac_take :: "u32 \<Rightarrow> assigned_credits \<Rightarrow> assigned_credits exec" where
  "ac_take credits ac =
     (if ac_credits ac < credits then Panic
      else Ret (ac\<lparr>ac_credits := ac_credits ac - credits\<rparr>))"

definition ac_drop :: "assigned_credits \<Rightarrow> credit_store option \<Rightarrow> credit_store option" where
  "ac_drop ac inner =
     (if ac_credits ac > 0
      then map_option (\<lambda>s. s\<lparr>cs_credits := cs_credits s + ac_credits ac\<rparr>) inner
      else inner)"

section \<open>Mixed assigned credits\<close>

type_synonym mixed_credits = "assigned_credits list"

definition mixed_available :: "mixed_credits \<Rightarrow> u32" where
  "mixed_available q = sum_list (map ac_credits q)"

definition mixed_add :: "assigned_credits \<Rightarrow> mixed_credits \<Rightarrow> mixed_credits exec" where
  "mixed_add ac q = (if ac_credits ac = 0 then Panic else Ret (q @ [ac]))"

function mixed_take_loop ::
  "u32 \<Rightarrow> mixed_credits \<Rightarrow> u32 \<Rightarrow> u32 \<Rightarrow> (mixed_credits \<times> u32 \<times> u32) exec" where
  "mixed_take_loop credits q global port =
     (if credits = 0 then Ret (q, global, port)
      else case q of
        [] \<Rightarrow> Panic
      | ac # q' \<Rightarrow>
          (let tk = min (ac_credits ac) credits
           in case ac_take tk ac of
                Panic \<Rightarrow> Panic
              | Ret ac' \<Rightarrow>
                  (let (global', port') =
                     (case ac_pool ac' of
                        GlobalPool \<Rightarrow> (global + tk, port)
                      | PortPool \<Rightarrow> (global, port + tk))
                   in mixed_take_loop (credits - tk) (if ac_credits ac' = 0 then q' else ac' # q')
                        global' port')))"
  by pat_completeness auto

lemma ac_take_min:
  "ac_take (min (ac_credits ac) credits) ac =
     Ret (ac\<lparr>ac_credits := ac_credits ac - min (ac_credits ac) credits\<rparr>)"
  by (auto simp: ac_take_def min_def)

termination mixed_take_loop
proof (relation "measure (\<lambda>(credits, q, g, p). length q + (if credits = 0 then 0 else 1))")
  fix credits global port :: u32 and q :: mixed_credits
    and ac :: assigned_credits and q' tk ac' gp global' port'
  assume "credits \<noteq> 0" "q = ac # q'" "tk = min (ac_credits ac) credits" "ac_take tk ac = Ret ac'"
  then show "((credits - tk, if ac_credits ac' = 0 then q' else ac' # q', global', port'),
      credits, q, global, port)
      \<in> measure (\<lambda>(credits, q, g, p). length q + (if credits = 0 then 0 else 1))"
    by (auto simp: ac_take_def min_def split: if_splits)
qed auto

declare mixed_take_loop.simps [simp del]

definition mixed_take :: "u32 \<Rightarrow> mixed_credits \<Rightarrow> (mixed_credits \<times> data_credits) exec" where
  "mixed_take credits q =
     exec_bind (mixed_take_loop credits q 0 0) (\<lambda>(q', global, port).
       Ret (q', if global = 0 then PortOnly
                else if port = 0 then GlobalOnly else GlobalAndPort global))"

section \<open>Credit provider\<close>

record credit_provider =
  cp_store :: credit_store
  cp_min :: u32
  cp_seq :: u8

definition new_provider :: "credit_store \<Rightarrow> credit_provider" where
  "new_provider s = \<lparr>cp_store = s, cp_min = cs_credits s, cp_seq = 0\<rparr>"

text \<open>\<^verbatim>\<open>fetch_add\<close> wraps and takes place before the overflow is noticed.\<close>

definition provide ::
  "u32 \<Rightarrow> credit_provider \<Rightarrow> (('k, 't) chmux_error + unit) \<times> credit_provider" where
  "provide credits p =
     (let old_credits = cs_credits (cp_store p);
          p' = p\<lparr>cp_store := (cp_store p)\<lparr>cs_credits := old_credits + credits\<rparr>\<rparr>
      in case checked_add old_credits credits of
           None \<Rightarrow> (Inl (Protocol ''credits overflow''), p')
         | Some _ \<Rightarrow> (Inr (), p'\<lparr>cp_min := min (cp_min p') old_credits\<rparr>))"

definition set_use_global_credits :: "bool \<Rightarrow> credit_provider \<Rightarrow> credit_provider" where
  "set_use_global_credits b p = p\<lparr>cp_store := (cp_store p)\<lparr>cs_use_global := b\<rparr>\<rparr>"

definition close_provider :: "bool \<Rightarrow> credit_provider \<Rightarrow> credit_provider" where
  "close_provider gracefully p =
     p\<lparr>cp_store := (cp_store p)\<lparr>cs_state :=
       (if gracefully then StateClosedGracefully else StateClosed)\<rparr>\<rparr>"

definition take_status :: "u8 \<Rightarrow> credit_provider \<Rightarrow> credits_report \<times> credit_provider" where
  "take_status new_seq p =
     (let current = cs_credits (cp_store p);
          p = (if cp_seq p \<noteq> new_seq then p\<lparr>cp_seq := new_seq, cp_min := current\<rparr> else p);
          report = \<lparr>rep_current = current, rep_min = min (cp_min p) current, rep_seq = cp_seq p\<rparr>
      in (report, p\<lparr>cp_min := current\<rparr>))"

text \<open>Dropping the provider of an open store closes it; a request that still holds the store
  sees it closed.\<close>

definition drop_provider :: "credit_provider \<Rightarrow> credit_store" where
  "drop_provider p =
     cp_store (if cs_state (cp_store p) = StateOpen then close_provider False p else p)"

definition credit_send_pair :: "credit_pool \<Rightarrow> u32 \<Rightarrow> credit_provider" where
  "credit_send_pair pool initial_credits = new_provider (new_store pool initial_credits)"

section \<open>Credit user\<close>

record credit_user =
  cu_override_graceful_close :: bool

definition new_user :: credit_user where
  "new_user = \<lparr>cu_override_graceful_close = False\<rparr>"

definition user_check_sendable ::
  "credit_user \<Rightarrow> credit_store option \<Rightarrow> send_error + unit" where
  "user_check_sendable u inner =
     (case inner of
        None \<Rightarrow> Inl ChMux
      | Some s \<Rightarrow> store_check_sendable (cu_override_graceful_close u) s)"

definition remote_allows_global_credits :: "credit_store option \<Rightarrow> bool" where
  "remote_allows_global_credits inner =
     (case inner of None \<Rightarrow> True | Some s \<Rightarrow> cs_use_global s)"

text \<open>One round of the wait for global credits: true when the wait is over.\<close>

definition allowing_global_poll :: "credit_user \<Rightarrow> credit_store option \<Rightarrow> bool" where
  "allowing_global_poll u inner =
     (case inner of
        None \<Rightarrow> True
      | Some s \<Rightarrow>
          (case store_check_sendable (cu_override_graceful_close u) s of
             Inl _ \<Rightarrow> True
           | Inr _ \<Rightarrow> cs_use_global s))"

text \<open>One round of \<^verbatim>\<open>request\<close>: no answer when it goes on waiting.\<close>

definition request_poll ::
  "credit_user \<Rightarrow> u32 \<Rightarrow> u32 \<Rightarrow> credit_store option \<Rightarrow>
     (send_error + assigned_credits) option \<times> credit_store option" where
  "request_poll u req min_req inner =
     (case inner of
        None \<Rightarrow> (Some (Inl ChMux), None)
      | Some s \<Rightarrow>
          (case store_check_sendable (cu_override_graceful_close u) s of
             Inl e \<Rightarrow> (Some (Inl e), Some s)
           | Inr _ \<Rightarrow>
               (let (taken, s') = try_take_credits req min_req s
                in if taken = 0 then (None, Some s')
                   else (Some (Inr (ac_new taken s')), Some s'))))"

definition user_try_request ::
  "credit_user \<Rightarrow> u32 \<Rightarrow> u32 \<Rightarrow> credit_store option \<Rightarrow>
     (send_error + assigned_credits option) \<times> credit_store option" where
  "user_try_request u req min_req inner =
     (case inner of
        None \<Rightarrow> (Inl ChMux, None)
      | Some s \<Rightarrow>
          (case store_check_sendable (cu_override_graceful_close u) s of
             Inl e \<Rightarrow> (Inl e, Some s)
           | Inr _ \<Rightarrow>
               (let (taken, s') = try_take_credits req min_req s
                in if taken = 0 then (Inr None, Some s')
                   else (Inr (Some (ac_new taken s')), Some s'))))"

section \<open>Mixed credit user\<close>

record mixed_user =
  mu_port :: credit_user
  mu_global :: "credit_user option"
  mu_global_enabled :: bool

record stores =
  st_port :: "credit_store option"
  st_global :: "credit_store option"

definition new_mixed_user :: "credit_user \<Rightarrow> credit_user option \<Rightarrow> mixed_user" where
  "new_mixed_user port global = \<lparr>mu_port = port, mu_global = global, mu_global_enabled = True\<rparr>"

text \<open>Unused credits go back to the store they come from.\<close>

definition drop_one :: "assigned_credits \<Rightarrow> stores \<Rightarrow> stores" where
  "drop_one ac st =
     (case ac_pool ac of
        PortPool \<Rightarrow> st\<lparr>st_port := ac_drop ac (st_port st)\<rparr>
      | GlobalPool \<Rightarrow> st\<lparr>st_global := ac_drop ac (st_global st)\<rparr>)"

definition drop_mixed :: "mixed_credits \<Rightarrow> stores \<Rightarrow> stores" where
  "drop_mixed q st = fold drop_one q st"

text \<open>What an optional grant adds to the mixed credits and leaves of a demand.\<close>

definition add_granted ::
  "assigned_credits option \<Rightarrow> mixed_credits \<Rightarrow> mixed_credits exec" where
  "add_granted got q = (case got of None \<Rightarrow> Ret q | Some ac \<Rightarrow> mixed_add ac q)"

definition demand_left :: "u32 \<Rightarrow> assigned_credits option \<Rightarrow> u32" where
  "demand_left n got =
     (case got of None \<Rightarrow> n | Some ac \<Rightarrow> saturating_sub n (ac_credits ac))"

definition mixed_finish ::
  "mixed_credits \<Rightarrow> u32 \<Rightarrow> stores \<Rightarrow> (send_error + mixed_credits option) \<times> stores" where
  "mixed_finish q min_req st =
     (if min_req = 0 then (Inr (Some q), st) else (Inr None, drop_mixed q st))"

definition mixed_try_global ::
  "mixed_user \<Rightarrow> u32 \<Rightarrow> u32 \<Rightarrow> mixed_credits \<Rightarrow> stores \<Rightarrow>
     ((send_error + mixed_credits option) \<times> stores) exec" where
  "mixed_try_global mu req min_req q st =
     (case mu_global mu of
        Some global \<Rightarrow>
          if mu_global_enabled mu \<and> remote_allows_global_credits (st_port st)
          then (case user_try_request global req min_req (st_global st) of
                  (Inl e, g) \<Rightarrow> Ret (Inl e, drop_mixed q (st\<lparr>st_global := g\<rparr>))
                | (Inr got, g) \<Rightarrow>
                    exec_bind (add_granted got q) (\<lambda>q.
                      Ret (mixed_finish q (demand_left min_req got) (st\<lparr>st_global := g\<rparr>))))
          else Ret (mixed_finish q min_req st)
      | None \<Rightarrow> Ret (mixed_finish q min_req st))"

definition mixed_try_request ::
  "mixed_user \<Rightarrow> u32 \<Rightarrow> u32 \<Rightarrow> stores \<Rightarrow>
     ((send_error + mixed_credits option) \<times> stores) exec" where
  "mixed_try_request mu req min_req st =
     (case user_check_sendable (mu_port mu) (st_port st) of
        Inl e \<Rightarrow> Ret (Inl e, st)
      | Inr _ \<Rightarrow>
          (case user_try_request (mu_port mu) req min_req (st_port st) of
             (Inl e, p) \<Rightarrow> Ret (Inl e, st\<lparr>st_port := p\<rparr>)
           | (Inr got, p) \<Rightarrow>
               exec_bind (add_granted got []) (\<lambda>q.
                 let st = st\<lparr>st_port := p\<rparr>;
                     req = demand_left req got; min_req = demand_left min_req got
                 in if req = 0 then Ret (mixed_finish q min_req st)
                    else mixed_try_global mu req min_req q st)))"

text \<open>The waiting request. A wait holds its stores, so that they stay present while it lasts;
  the flag tells whether the remote endpoint has been seen allowing global credits.\<close>

datatype mixed_wait =
    Finished "send_error + mixed_credits"
  | WaitPort u32 u32 mixed_credits
  | WaitBoth u32 u32 mixed_credits bool

definition mixed_wait_global ::
  "credit_user \<Rightarrow> mixed_user \<Rightarrow> u32 \<Rightarrow> u32 \<Rightarrow> mixed_credits \<Rightarrow> stores \<Rightarrow>
     (mixed_wait \<times> stores) exec" where
  "mixed_wait_global global mu req min_req q st =
     (if remote_allows_global_credits (st_port st)
      then (case user_try_request global req min_req (st_global st) of
              (Inl e, g) \<Rightarrow> Ret (Finished (Inl e), drop_mixed q (st\<lparr>st_global := g\<rparr>))
            | (Inr got, g) \<Rightarrow>
                exec_bind (add_granted got q) (\<lambda>q.
                  let st = st\<lparr>st_global := g\<rparr>;
                      req = demand_left req got; min_req = demand_left min_req got
                  in Ret (if min_req = 0 then (Finished (Inr q), st)
                          else (WaitBoth req min_req q False, st))))
      else Ret (if min_req = 0 then (Finished (Inr q), st)
                else (WaitBoth req min_req q False, st)))"

definition mixed_request_start ::
  "mixed_user \<Rightarrow> u32 \<Rightarrow> u32 \<Rightarrow> stores \<Rightarrow> (mixed_wait \<times> stores) exec" where
  "mixed_request_start mu req min_req st =
     (case user_check_sendable (mu_port mu) (st_port st) of
        Inl e \<Rightarrow> Ret (Finished (Inl e), st)
      | Inr _ \<Rightarrow>
          (case mu_global mu of
             Some global \<Rightarrow>
               if mu_global_enabled mu
               then (case user_try_request (mu_port mu) req min_req (st_port st) of
                       (Inl e, p) \<Rightarrow> Ret (Finished (Inl e), st\<lparr>st_port := p\<rparr>)
                     | (Inr got, p) \<Rightarrow>
                         exec_bind (add_granted got []) (\<lambda>q.
                           let st = st\<lparr>st_port := p\<rparr>;
                               req = demand_left req got; min_req = demand_left min_req got
                           in if req = 0 then Ret (Finished (Inr q), st)
                              else mixed_wait_global global mu req min_req q st))
               else Ret (WaitPort req min_req [], st)
           | None \<Rightarrow> Ret (WaitPort req min_req [], st)))"

definition wait_grant ::
  "mixed_credits \<Rightarrow> send_error + assigned_credits \<Rightarrow> stores \<Rightarrow> (mixed_wait \<times> stores) exec" where
  "wait_grant q r st =
     (case r of
        Inl e \<Rightarrow> Ret (Finished (Inl e), drop_mixed q st)
      | Inr ac \<Rightarrow> exec_bind (mixed_add ac q) (\<lambda>q. Ret (Finished (Inr q), st)))"

fun mixed_request_poll :: "mixed_user \<Rightarrow> mixed_wait \<Rightarrow> stores \<Rightarrow> (mixed_wait \<times> stores) exec" where
  "mixed_request_poll mu (Finished r) st = Ret (Finished r, st)"
| "mixed_request_poll mu (WaitPort req min_req q) st =
     (case request_poll (mu_port mu) req min_req (st_port st) of
        (Some r, p) \<Rightarrow> wait_grant q r (st\<lparr>st_port := p\<rparr>)
      | (None, p) \<Rightarrow> Ret (WaitPort req min_req q, st\<lparr>st_port := p\<rparr>))"
| "mixed_request_poll mu (WaitBoth req min_req q allowed) st =
     (case request_poll (mu_port mu) req min_req (st_port st) of
        (Some r, p) \<Rightarrow> wait_grant q r (st\<lparr>st_port := p\<rparr>)
      | (None, p) \<Rightarrow>
          (let st = st\<lparr>st_port := p\<rparr>;
               allowed = (allowed \<or> allowing_global_poll (mu_port mu) (st_port st))
           in if \<not> allowed then Ret (WaitBoth req min_req q False, st)
              else (case mu_global mu of
                      None \<Rightarrow> Panic
                    | Some global \<Rightarrow>
                        (case request_poll global req min_req (st_global st) of
                           (Some r, g) \<Rightarrow> wait_grant q r (st\<lparr>st_global := g\<rparr>)
                         | (None, g) \<Rightarrow> Ret (WaitBoth req min_req q True, st\<lparr>st_global := g\<rparr>)))))"


section \<open>Credits are conserved\<close>

definition mixed_sum :: "mixed_credits \<Rightarrow> nat" where
  "mixed_sum q = sum_list (map (\<lambda>ac. unat (ac_credits ac)) q)"

definition pool_sum :: "credit_pool \<Rightarrow> mixed_credits \<Rightarrow> nat" where
  "pool_sum pool q = sum_list (map (\<lambda>ac. if ac_pool ac = pool then unat (ac_credits ac) else 0) q)"

lemma mixed_sum_simps [simp]:
  "mixed_sum [] = 0"
  "mixed_sum (ac # q) = unat (ac_credits ac) + mixed_sum q"
  "mixed_sum (q @ r) = mixed_sum q + mixed_sum r"
  by (simp_all add: mixed_sum_def)

lemma pool_sum_simps [simp]:
  "pool_sum pool [] = 0"
  "pool_sum pool (ac # q) =
     (if ac_pool ac = pool then unat (ac_credits ac) else 0) + pool_sum pool q"
  "pool_sum pool (q @ r) = pool_sum pool q + pool_sum pool r"
  by (simp_all add: pool_sum_def)

lemma pool_sums: "pool_sum PortPool q + pool_sum GlobalPool q = mixed_sum q"
proof (induction q)
  case (Cons ac q)
  then show ?case by (cases "ac_pool ac") auto
qed simp

lemma try_take_credits_split:
  assumes "try_take_credits req mn s = (t, s')"
  shows "unat t + unat (cs_credits s') = unat (cs_credits s)" "t \<le> req"
    "t \<noteq> 0 \<Longrightarrow> mn \<le> req \<Longrightarrow> mn \<le> t" "t = 0 \<Longrightarrow> s' = s"
    "t = 0 \<Longrightarrow> 0 < mn \<Longrightarrow> mn \<le> req \<Longrightarrow> cs_credits s < mn"
    "s' = s\<lparr>cs_credits := cs_credits s - t\<rparr>" "t \<le> cs_credits s"
  using assms
  by (auto simp: try_take_credits_def min_def unat_sub_u32 word_le_nat_alt word_less_nat_alt
      Let_def not_le split: if_splits)

lemma credits_give_back: "cs_credits s - t + t = cs_credits s"
  by simp

lemma mixed_take_loop_ok:
  assumes "unat credits \<le> mixed_sum q" "unat g + unat p + unat credits < 2 ^ 32"
  shows "\<exists>q' g' p'. mixed_take_loop credits q g p = Ret (q', g', p') \<and>
           unat g' + pool_sum GlobalPool q' = unat g + pool_sum GlobalPool q \<and>
           unat p' + pool_sum PortPool q' = unat p + pool_sum PortPool q \<and>
           unat g' + unat p' = unat g + unat p + unat credits"
  using assms
proof (induction credits q g p rule: mixed_take_loop.induct)
  case (1 credits q g p)
  show ?case
  proof (cases "credits = 0 \<or> q = []")
    case True
    with "1.prems" show ?thesis
      by (auto simp: mixed_take_loop.simps [of credits q] unat_eq_0)
  next
    case False
    then obtain ac q' where q: "q = ac # q'" and nz: "credits \<noteq> 0"
      by (cases q) auto
    define tk where "tk = min (ac_credits ac) credits"
    define ac' where "ac' = ac\<lparr>ac_credits := ac_credits ac - tk\<rparr>"
    define gp where "gp = (case ac_pool ac' of GlobalPool \<Rightarrow> (g + tk, p) | PortPool \<Rightarrow> (g, p + tk))"
    define r where "r = (if ac_credits ac' = 0 then q' else ac' # q')"
    have tk: "unat tk = min (unat (ac_credits ac)) (unat credits)"
      by (simp add: tk_def unat_min_u32)
    have take: "ac_take tk ac = Ret ac'"
      by (auto simp: ac_take_def ac'_def tk_def min_def)
    have ac_pool: "ac_pool ac' = ac_pool ac"
      by (simp add: ac'_def)
    have left: "unat (ac_credits ac') = unat (ac_credits ac) - unat tk"
      "unat (credits - tk) = unat credits - unat tk"
      by (simp_all add: ac'_def unat_sub_u32 tk_def)
    have r: "mixed_sum r = mixed_sum q - unat tk"
      "\<And>pool. pool_sum pool r = pool_sum pool q - (if ac_pool ac = pool then unat tk else 0)"
    proof -
      have zero: "unat (ac_credits ac) - unat tk = 0" if "ac_credits ac' = 0"
        using that left(1) by simp
      have le: "unat tk \<le> unat (ac_credits ac)"
        using tk by simp
      show "mixed_sum r = mixed_sum q - unat tk"
        using zero le left(1) by (cases "ac_credits ac' = 0") (simp_all add: r_def q)
      show "pool_sum pool r = pool_sum pool q - (if ac_pool ac = pool then unat tk else 0)" for pool
        using zero le left(1) ac_pool
        by (cases "ac_credits ac' = 0"; cases "ac_pool ac = pool") (simp_all add: r_def q)
    qed
    have gp: "unat (fst gp) + unat (snd gp) = unat g + unat p + unat tk"
      "unat (fst gp) = unat g + (if ac_pool ac = GlobalPool then unat tk else 0)"
      "unat (snd gp) = unat p + (if ac_pool ac = PortPool then unat tk else 0)"
      using "1.prems"(2) tk
      by (auto simp: gp_def ac'_def unat_add_u32 split: credit_pool.splits)
    have step: "mixed_take_loop credits q g p = mixed_take_loop (credits - tk) r (fst gp) (snd gp)"
      using take nz
      by (subst mixed_take_loop.simps) (simp add: q tk_def [symmetric] gp_def r_def case_prod_beta Let_def)
    have "\<exists>q' g' p'. mixed_take_loop (credits - tk) r (fst gp) (snd gp) = Ret (q', g', p') \<and>
           unat g' + pool_sum GlobalPool q' = unat (fst gp) + pool_sum GlobalPool r \<and>
           unat p' + pool_sum PortPool q' = unat (snd gp) + pool_sum PortPool r \<and>
           unat g' + unat p' = unat (fst gp) + unat (snd gp) + unat (credits - tk)"
      unfolding r_def
    proof (rule "1.IH" [OF nz q tk_def take gp_def])
      show "(fst gp, snd gp) = gp" by simp
      show "unat (credits - tk) \<le> mixed_sum (if ac_credits ac' = 0 then q' else ac' # q')"
        using "1.prems"(1) r(1) left(2) by (simp add: r_def [symmetric])
      show "unat (fst gp) + unat (snd gp) + unat (credits - tk) < 2 ^ 32"
        using "1.prems"(2) gp(1) left(2) tk by simp
    qed
    moreover have "(if ac_pool ac = GlobalPool then unat tk else 0) \<le> pool_sum GlobalPool q"
      "(if ac_pool ac = PortPool then unat tk else 0) \<le> pool_sum PortPool q"
      "unat tk \<le> unat credits"
      using tk by (auto simp: q)
    ultimately show ?thesis
      unfolding step using gp r left(2) by auto
  qed
qed


text \<open>The credits a store holds, and requests that leave the stores alone unless they grant.\<close>

definition held :: "credit_store option \<Rightarrow> nat" where
  "held inner = (case inner of None \<Rightarrow> 0 | Some s \<Rightarrow> unat (cs_credits s))"

definition stores_ok :: "stores \<Rightarrow> bool" where
  "stores_ok st \<longleftrightarrow>
     (\<forall>s. st_port st = Some s \<longrightarrow> cs_pool s = PortPool) \<and>
     (\<forall>s. st_global st = Some s \<longrightarrow> cs_pool s = GlobalPool)"

lemma user_try_request_cases:
  assumes "user_try_request u req mn inner = (r, inner')" "mn \<le> req"
  shows "(\<exists>e. r = Inl e \<and> inner' = inner) \<or>
     (r = Inr None \<and> inner' = inner \<and> (\<exists>s. inner = Some s \<and> (0 < mn \<longrightarrow> cs_credits s < mn))) \<or>
     (\<exists>s ac. r = Inr (Some ac) \<and> inner = Some s \<and> ac_pool ac = cs_pool s \<and> ac_credits ac \<noteq> 0 \<and>
        mn \<le> ac_credits ac \<and> ac_credits ac \<le> req \<and> ac_credits ac \<le> cs_credits s \<and>
        inner' = Some (s\<lparr>cs_credits := cs_credits s - ac_credits ac\<rparr>))"
proof (cases inner)
  case (Some s)
  obtain t s' where ts: "try_take_credits req mn s = (t, s')"
    by fastforce
  note tt = try_take_credits_split [OF ts]
  show ?thesis
    using assms Some ts tt
    by (cases "t = 0")
      (auto simp: user_try_request_def ac_new_def split: sum.splits if_splits)
qed (use assms in \<open>auto simp: user_try_request_def\<close>)

lemma drop_taken:
  assumes "ac_credits ac \<noteq> 0" "st_port st = Some s" "ac_pool ac = PortPool"
  shows "drop_mixed [ac] (st\<lparr>st_port := Some (s\<lparr>cs_credits := cs_credits s - ac_credits ac\<rparr>)\<rparr>) = st"
  using assms by (cases st) (auto simp: drop_mixed_def drop_one_def ac_drop_def word_greater_zero_iff)

lemma same_port: "st_port st = p \<Longrightarrow> st\<lparr>st_port := p\<rparr> = st"
  by (cases st) simp

definition grants_between :: "u32 \<Rightarrow> u32 \<Rightarrow> stores \<Rightarrow> mixed_credits \<Rightarrow> stores \<Rightarrow> bool" where
  "grants_between mn req st q st' \<longleftrightarrow>
     unat mn \<le> mixed_sum q \<and> mixed_sum q \<le> unat req \<and>
     held (st_port st') + pool_sum PortPool q = held (st_port st) \<and>
     held (st_global st') + pool_sum GlobalPool q = held (st_global st)"

definition global_usable :: "mixed_user \<Rightarrow> stores \<Rightarrow> bool" where
  "global_usable mu st \<longleftrightarrow>
     mu_global_enabled mu \<and> mu_global mu \<noteq> None \<and> remote_allows_global_credits (st_port st)"

lemma mixed_try_global_empty:
  assumes "stores_ok st" "mn \<le> req"
  shows "\<exists>r st'. mixed_try_global mu req mn [] st = Ret (r, st') \<and>
     (case r of
        Inr (Some q) \<Rightarrow> grants_between mn req st q st'
      | Inr None \<Rightarrow> st' = st \<and> 0 < mn \<and>
          (global_usable mu st \<longrightarrow> held (st_global st) < unat mn)
      | Inl _ \<Rightarrow> st' = st)"
proof (cases "global_usable mu st")
  case True
  then obtain global where g: "mu_global mu = Some global" "mu_global_enabled mu"
    "remote_allows_global_credits (st_port st)"
    by (auto simp: global_usable_def)
  obtain r inner' where r: "user_try_request global req mn (st_global st) = (r, inner')"
    by fastforce
  have st_eq: "st\<lparr>st_global := st_global st\<rparr> = st"
    by simp
  from user_try_request_cases [OF r assms(2)] show ?thesis
  proof (elim disjE exE conjE)
    fix e assume "r = Inl e" "inner' = st_global st"
    with g r show ?thesis
      by (simp add: mixed_try_global_def drop_mixed_def)
  next
    fix s assume "r = Inr None" "inner' = st_global st" "st_global st = Some s"
      "0 < mn \<longrightarrow> cs_credits s < mn"
    with g r show ?thesis
      by (auto simp: mixed_try_global_def drop_mixed_def add_granted_def demand_left_def
          mixed_finish_def grants_between_def held_def word_less_nat_alt word_greater_zero_iff unat_eq_zero)
  next
    fix s ac assume ac: "r = Inr (Some ac)" "st_global st = Some s" "ac_pool ac = cs_pool s"
      "ac_credits ac \<noteq> 0" "mn \<le> ac_credits ac" "ac_credits ac \<le> req" "ac_credits ac \<le> cs_credits s"
      "inner' = Some (s\<lparr>cs_credits := cs_credits s - ac_credits ac\<rparr>)"
    moreover have "cs_pool s = GlobalPool"
      using assms(1) ac(2) by (simp add: stores_ok_def)
    moreover have "saturating_sub mn (ac_credits ac) = 0"
      using ac(5) by (auto simp: saturating_sub_def)
    ultimately show ?thesis
      using g r
      by (simp add: mixed_try_global_def add_granted_def demand_left_def mixed_add_def
          mixed_finish_def grants_between_def held_def unat_sub_u32 word_le_nat_alt)
  qed
next
  case False
  then show ?thesis
    by (auto simp: mixed_try_global_def global_usable_def mixed_finish_def drop_mixed_def
        grants_between_def word_greater_zero_iff split: option.splits)
qed

lemma mixed_try_global_more:
  assumes "stores_ok st"
  shows "\<exists>r st'. mixed_try_global mu req 0 q st = Ret (r, st') \<and>
     (case r of
        Inr (Some q') \<Rightarrow> (\<exists>more. q' = q @ more \<and> grants_between 0 req st more st')
      | Inr None \<Rightarrow> False
      | Inl _ \<Rightarrow> st' = drop_mixed q st)"
proof (cases "global_usable mu st")
  case True
  then obtain global where g: "mu_global mu = Some global" "mu_global_enabled mu"
    "remote_allows_global_credits (st_port st)"
    by (auto simp: global_usable_def)
  obtain r inner' where r: "user_try_request global req 0 (st_global st) = (r, inner')"
    by fastforce
  from user_try_request_cases [OF r word_zero_le] show ?thesis
  proof (elim disjE exE conjE)
    fix e assume "r = Inl e" "inner' = st_global st"
    with g r show ?thesis
      by (simp add: mixed_try_global_def)
  next
    fix s assume "r = Inr None" "inner' = st_global st" "st_global st = Some s"
    with g r show ?thesis
      by (auto simp: mixed_try_global_def add_granted_def demand_left_def
          mixed_finish_def grants_between_def held_def)
  next
    fix s ac assume ac: "r = Inr (Some ac)" "st_global st = Some s" "ac_pool ac = cs_pool s"
      "ac_credits ac \<noteq> 0" "ac_credits ac \<le> req" "ac_credits ac \<le> cs_credits s"
      "inner' = Some (s\<lparr>cs_credits := cs_credits s - ac_credits ac\<rparr>)"
    moreover have "cs_pool s = GlobalPool"
      using assms(1) ac(2) by (simp add: stores_ok_def)
    moreover have "saturating_sub 0 (ac_credits ac) = 0"
      by (simp add: saturating_sub_def)
    ultimately show ?thesis
      using g r
      by (simp add: mixed_try_global_def add_granted_def demand_left_def mixed_add_def
          mixed_finish_def grants_between_def held_def unat_sub_u32 word_le_nat_alt)
  qed
next
  case False
  then show ?thesis
    by (auto simp: mixed_try_global_def global_usable_def mixed_finish_def
        grants_between_def split: option.splits)
qed


lemma mixed_try_request_granted:
  assumes st: "stores_ok st" "mn \<le> req" "st_port st = Some s"
    and ac: "ac_pool ac = PortPool" "ac_credits ac \<noteq> 0" "mn \<le> ac_credits ac" "ac_credits ac \<le> req"
      "ac_credits ac \<le> cs_credits s"
    and st1: "st1 = st\<lparr>st_port := Some (s\<lparr>cs_credits := cs_credits s - ac_credits ac\<rparr>)\<rparr>"
  shows "\<exists>r st'. mixed_try_global mu (saturating_sub req (ac_credits ac)) 0 [ac] st1 = Ret (r, st') \<and>
     (case r of Inr (Some q) \<Rightarrow> grants_between mn req st q st' | Inr None \<Rightarrow> False | Inl _ \<Rightarrow> st' = st)"
proof -
  have ok: "stores_ok st1"
    using st(1,3) by (simp add: stores_ok_def st1)
  obtain r st' where r: "mixed_try_global mu (saturating_sub req (ac_credits ac)) 0 [ac] st1 = Ret (r, st')"
    "case r of
        Inr (Some q') \<Rightarrow> (\<exists>more. q' = [ac] @ more \<and>
          grants_between 0 (saturating_sub req (ac_credits ac)) st1 more st')
      | Inr None \<Rightarrow> False
      | Inl _ \<Rightarrow> st' = drop_mixed [ac] st1"
    using mixed_try_global_more [OF ok] by blast
  have le: "unat (ac_credits ac) \<le> unat req" "unat mn \<le> unat (ac_credits ac)"
    "unat (ac_credits ac) \<le> unat (cs_credits s)"
    using ac by (simp_all add: word_le_nat_alt)
  have "case r of Inr (Some q) \<Rightarrow> grants_between mn req st q st' | Inr None \<Rightarrow> False | Inl _ \<Rightarrow> st' = st"
  proof (cases r)
    case (Inr g)
    with r(2) le st(3) ac(1,5) show ?thesis
      by (auto simp: grants_between_def st1 held_def unat_saturating_sub unat_sub_u32
          split: option.splits)
  qed (use r(2) drop_taken [OF ac(2) st(3) ac(1)] in \<open>simp add: st1\<close>)
  with r(1) show ?thesis by blast
qed

text \<open>C12: A request for credits from both pools that does not wait is all or nothing. It never
  panics. When it succeeds it grants between the minimum and the wanted number of credits, and
  each pool loses exactly what the grant holds from it; when it is refused or fails, both pools
  are as before, so that no credit is lost on any path, and it is refused only when neither the
  port pool nor a usable global pool holds the minimum.\<close>

theorem mixed_try_request_all_or_nothing:
  assumes "stores_ok st" "mn \<le> req"
  shows "\<exists>r st'. mixed_try_request mu req mn st = Ret (r, st') \<and>
     (case r of
        Inr (Some q) \<Rightarrow> grants_between mn req st q st'
      | Inr None \<Rightarrow> st' = st \<and> 0 < mn \<and> held (st_port st) < unat mn \<and>
          (global_usable mu st \<longrightarrow> held (st_global st) < unat mn)
      | Inl _ \<Rightarrow> st' = st)"
proof (cases "user_check_sendable (mu_port mu) (st_port st)")
  case (Inl e)
  then show ?thesis by (simp add: mixed_try_request_def)
next
  case (Inr u)
  obtain r p where r: "user_try_request (mu_port mu) req mn (st_port st) = (r, p)"
    by fastforce
  have same: "p = st_port st \<Longrightarrow> st\<lparr>st_port := p\<rparr> = st"
    by simp
  from user_try_request_cases [OF r assms(2)] show ?thesis
  proof (elim disjE exE conjE)
    fix e assume "r = Inl e" "p = st_port st"
    with Inr r same show ?thesis by (simp add: mixed_try_request_def)
  next
    fix s assume s: "r = Inr None" "p = st_port st" "st_port st = Some s" "0 < mn \<longrightarrow> cs_credits s < mn"
    show ?thesis
    proof (cases "req = 0")
      case True
      then have "mn = 0" using assms(2) by simp
      with True Inr r s show ?thesis
        by (simp add: mixed_try_request_def add_granted_def demand_left_def mixed_finish_def
            grants_between_def)
    next
      case False
      have "mixed_try_request mu req mn st = mixed_try_global mu req mn [] st"
        using False Inr r s
        by (simp add: mixed_try_request_def add_granted_def demand_left_def same_port)
      then show ?thesis
        using mixed_try_global_empty [OF assms, of mu] s
        by (fastforce simp: held_def word_less_nat_alt split: sum.splits option.splits)
    qed
  next
    fix s ac assume s: "r = Inr (Some ac)" "st_port st = Some s" "ac_pool ac = cs_pool s"
      "ac_credits ac \<noteq> 0" "mn \<le> ac_credits ac" "ac_credits ac \<le> req" "ac_credits ac \<le> cs_credits s"
      "p = Some (s\<lparr>cs_credits := cs_credits s - ac_credits ac\<rparr>)"
    have pool: "ac_pool ac = PortPool"
      using assms(1) s by (simp add: stores_ok_def)
    have mn0: "saturating_sub mn (ac_credits ac) = 0"
      using s(5) by (auto simp: saturating_sub_def)
    show ?thesis
    proof (cases "saturating_sub req (ac_credits ac) = 0")
      case True
      then have "ac_credits ac = req"
        using s(6) by (auto simp: saturating_sub_def split: if_splits)
      then show ?thesis
        using True Inr r s pool mn0
        by (simp add: mixed_try_request_def add_granted_def demand_left_def mixed_add_def
            mixed_finish_def grants_between_def held_def unat_sub_u32 word_le_nat_alt)
    next
      case False
      then have "mixed_try_request mu req mn st =
          mixed_try_global mu (saturating_sub req (ac_credits ac)) 0 [ac] (st\<lparr>st_port := p\<rparr>)"
        using Inr r s mn0
        by (simp add: mixed_try_request_def add_granted_def demand_left_def mixed_add_def)
      moreover obtain r st' where "mixed_try_global mu (saturating_sub req (ac_credits ac)) 0 [ac]
          (st\<lparr>st_port := p\<rparr>) = Ret (r, st')"
        "case r of Inr (Some q) \<Rightarrow> grants_between mn req st q st' | Inr None \<Rightarrow> False | Inl _ \<Rightarrow> st' = st"
        using mixed_try_request_granted [OF assms s(2) pool s(4-7) refl, of mu]
        unfolding s(8) [symmetric] by blast
      ultimately show ?thesis
        by (intro exI [of _ r] exI [of _ st']) (simp split: sum.splits option.splits)
    qed
  qed
qed

definition example_stores :: stores where
  "example_stores =
     \<lparr>st_port = Some (new_store PortPool 4), st_global = Some (new_store GlobalPool 100)\<rparr>"

theorem mixed_try_request_all_or_nothing_witness:
  "\<exists>r st'. mixed_try_request (new_mixed_user new_user (Some new_user)) 10 2 example_stores =
       Ret (r, st') \<and>
     (case r of
        Inr (Some q) \<Rightarrow> grants_between 2 10 example_stores q st'
      | Inr None \<Rightarrow> st' = example_stores \<and> (0 :: u32) < 2 \<and> held (st_port example_stores) < unat (2 :: u32) \<and>
          (global_usable (new_mixed_user new_user (Some new_user)) example_stores \<longrightarrow>
             held (st_global example_stores) < unat (2 :: u32))
      | Inl _ \<Rightarrow> st' = example_stores)"
  by (rule mixed_try_request_all_or_nothing)
    (simp_all add: stores_ok_def example_stores_def new_store_def)

end
