(* ===== verification/RecvCredit.thy ===== *)
theory RecvCredit
  imports SendCredit
begin

text \<open>
  The receiving side of flow control, second half of \<^verbatim>\<open>remoc/src/chmux/credit.rs\<close>: the
  monitor of one port, which accounts received data and throttles the use of global credits,
  the returner that gives consumed port credits back, and the monitor of the global receive
  buffer. The atomics of \<^verbatim>\<open>PortCreditMonitorInner\<close> are the fields of \<open>port_monitor\<close>;
  \<^verbatim>\<open>fetch_add\<close> and \<^verbatim>\<open>fetch_sub\<close> wrap.
\<close>

section \<open>Port credit monitor\<close>

record used_port_credit =
  upc_port :: u32
  upc_global :: u32

datatype global_usage = UsageActive | UsageInhibiting | UsageInhibited

record port_monitor =
  pm_port_used :: u32
  pm_port_limit :: u32
  pm_throttle :: u32
  pm_throttle_release :: u32
  pm_global_used :: u32
  pm_global_allowed :: bool
  pm_usage :: global_usage

definition new_port_monitor :: "u32 \<Rightarrow> u32 \<Rightarrow> port_monitor" where
  "new_port_monitor lim throttle =
     \<lparr>pm_port_used = 0, pm_port_limit = lim, pm_throttle = throttle,
      pm_throttle_release = max (throttle div 4 * 3) 1, pm_global_used = 0,
      pm_global_allowed = True, pm_usage = UsageActive\<rparr>"

definition port_use_credits ::
  "u32 \<Rightarrow> u32 \<Rightarrow> port_monitor \<Rightarrow> (('k, 't) chmux_error + used_port_credit) \<times> port_monitor" where
  "port_use_credits port_credits global_credits m =
     (let m1 = m\<lparr>pm_port_used := pm_port_used m + port_credits\<rparr>
      in case checked_add (pm_port_used m) port_credits of
           None \<Rightarrow> (Inl (Protocol ''remote endpoint overflowed used port flow credits''), m1)
         | Some new_port_used \<Rightarrow>
             if new_port_used > pm_port_limit m1
             then (Inl (Protocol ''remote endpoint tried to use more port flow credits than available''), m1)
             else
               (let m2 = m1\<lparr>pm_global_used := pm_global_used m1 + global_credits\<rparr>
                in case checked_add (pm_global_used m1) global_credits of
                     None \<Rightarrow> (Inl (Protocol ''remote endpoint overflowed used global flow credits''), m2)
                   | Some new_global_used \<Rightarrow>
                       (let total_used = saturating_add new_port_used new_global_used;
                            m3 = (if total_used \<ge> pm_throttle m2 \<and> pm_usage m2 = UsageActive
                                  then m2\<lparr>pm_usage := UsageInhibiting\<rparr> else m2)
                        in (Inr \<lparr>upc_port = port_credits, upc_global = global_credits\<rparr>, m3))))"

definition inhibiting_global_credit_usage :: "bool \<Rightarrow> port_monitor \<Rightarrow> bool \<times> port_monitor" where
  "inhibiting_global_credit_usage will_inhibit m =
     (if will_inhibit
      then if pm_usage m = UsageInhibiting then (True, m\<lparr>pm_usage := UsageInhibited\<rparr>) else (False, m)
      else (pm_usage m = UsageInhibiting, m))"

section \<open>Port credit returner\<close>

text \<open>The events a returner produces are sent to the event loop in order. When its queue is
  full the event is kept as a task, and \<^verbatim>\<open>ready\<close> waits for the tasks before the next return.
  The channel's answer to \<^verbatim>\<open>try_send\<close> is the argument \<open>tx\<close>.\<close>

record returner =
  rt_to_return :: u32
  rt_tasks :: "port_evt list"

definition new_returner :: returner where
  "new_returner = \<lparr>rt_to_return = 0, rt_tasks = []\<rparr>"

definition RETURN_QUOT :: u32 where
  "RETURN_QUOT = 4"

definition ready_step :: "returner \<Rightarrow> port_evt list \<times> returner" where
  "ready_step r =
     (case rt_tasks r of [] \<Rightarrow> ([], r) | task # ts \<Rightarrow> ([task], r\<lparr>rt_tasks := ts\<rparr>))"

definition queue_port_evt ::
  "(port_evt \<Rightarrow> try_result) \<Rightarrow> port_evt \<Rightarrow> returner \<Rightarrow> port_evt list \<times> returner" where
  "queue_port_evt tx evt r =
     (case tx evt of
        SendOk \<Rightarrow> ([evt], r)
      | SendFull \<Rightarrow> ([], r\<lparr>rt_tasks := rt_tasks r @ [evt]\<rparr>)
      | SendClosed \<Rightarrow> ([], r))"

definition return_threshold_of :: "u32 \<Rightarrow> u32" where
  "return_threshold_of lim =
     (let threshold = max (lim div RETURN_QUOT) 1
      in if lim - threshold \<le> 4 then 1 else threshold)"

text \<open>The result holds the events sent, the returner and the monitor; the port monitor is
  gone (\<open>None\<close>) once the port is freed.\<close>

definition start_return ::
  "(port_evt \<Rightarrow> try_result) \<Rightarrow> used_port_credit \<Rightarrow> side_port \<Rightarrow> returner \<times> port_monitor option \<Rightarrow>
     (port_evt list \<times> returner \<times> port_monitor option) exec" where
  "start_return tx credit remote_port = (\<lambda>(r, monitor).
     if rt_tasks r \<noteq> [] then Panic
     else case monitor of
       None \<Rightarrow> Ret ([], r, None)
     | Some m \<Rightarrow>
         (let return_threshold = return_threshold_of (pm_port_limit m);
              port_used = pm_port_used m - upc_port credit;
              global_used = pm_global_used m - upc_global credit;
              m = m\<lparr>pm_port_used := port_used, pm_global_used := global_used\<rparr>;
              r = r\<lparr>rt_to_return := rt_to_return r + upc_port credit\<rparr>;
              (sent, r) =
                (if rt_to_return r \<ge> return_threshold
                 then (let (sent, r) = queue_port_evt tx (ReturnCredits remote_port (rt_to_return r)) r
                       in (sent, r\<lparr>rt_to_return := 0\<rparr>))
                 else ([], r));
              total_used = saturating_add port_used global_used
          in if total_used < pm_throttle_release m \<and> pm_global_allowed m
             then (let (sent', r) =
                         (if pm_usage m = UsageInhibited
                          then queue_port_evt tx (ChangeGlobalCreditUsage remote_port True) r
                          else ([], r))
                   in Ret (sent @ sent', r, Some (m\<lparr>pm_usage := UsageActive\<rparr>)))
             else Ret (sent, r, Some m)))"

definition are_global_credits_allowed :: "port_monitor option \<Rightarrow> bool" where
  "are_global_credits_allowed monitor =
     (case monitor of Some m \<Rightarrow> pm_global_allowed m | None \<Rightarrow> True)"

definition set_global_credits_allowed ::
  "(port_evt \<Rightarrow> try_result) \<Rightarrow> bool \<Rightarrow> side_port \<Rightarrow> returner \<times> port_monitor option \<Rightarrow>
     port_evt list \<times> returner \<times> port_monitor option" where
  "set_global_credits_allowed tx allowed remote_port = (\<lambda>(r, monitor).
     case monitor of
       None \<Rightarrow> ([], r, None)
     | Some m \<Rightarrow>
         if pm_global_allowed m = allowed then ([], r, Some m)
         else
           (let m = m\<lparr>pm_global_allowed := allowed\<rparr>
            in if allowed
               then (let total_used = saturating_add (pm_port_used m) (pm_global_used m)
                     in if total_used < pm_throttle_release m
                        then (let (sent, r) =
                                    (if pm_usage m = UsageInhibited
                                     then queue_port_evt tx (ChangeGlobalCreditUsage remote_port True) r
                                     else ([], r))
                              in (sent, r, Some (m\<lparr>pm_usage := UsageActive\<rparr>)))
                        else ([], r, Some m))
               else (let (sent, r) =
                           (if pm_usage m \<noteq> UsageInhibited
                            then queue_port_evt tx (ChangeGlobalCreditUsage remote_port False) r
                            else ([], r))
                     in (sent, r, Some (m\<lparr>pm_usage := UsageInhibited\<rparr>)))))"

definition start_report_processed ::
  "(port_evt \<Rightarrow> try_result) \<Rightarrow> side_port \<Rightarrow> returner \<Rightarrow> (port_evt list \<times> returner) exec" where
  "start_report_processed tx remote_port r =
     (if rt_tasks r \<noteq> [] then Panic else Ret (queue_port_evt tx (ReceivedReportEvt remote_port) r))"

section \<open>Global credit monitor\<close>

record global_monitor =
  gm_total :: u32
  gm_used :: u32
  gm_to_return :: u32
  gm_return_threshold :: u32
  gm_seq :: u8
  gm_notified :: bool

definition new_global_monitor :: "buffer_size \<Rightarrow> global_monitor" where
  "new_global_monitor initial =
     \<lparr>gm_total = bs_size initial, gm_used = 0, gm_to_return = 0,
      gm_return_threshold = bs_return_threshold initial, gm_seq = 0, gm_notified = False\<rparr>"

definition global_use_credits ::
  "u32 \<Rightarrow> global_monitor \<Rightarrow> (('k, 't) chmux_error + u32) \<times> global_monitor" where
  "global_use_credits credits m =
     (let m' = m\<lparr>gm_used := gm_used m + credits\<rparr>;
          err = Inl (Protocol ''remote endpoint used too many global flow credits'')
      in case checked_add (gm_used m) credits of
           Some new_used \<Rightarrow> if new_used \<le> gm_total m' then (Inr credits, m') else (err, m')
         | None \<Rightarrow> (err, m'))"

text \<open>\<^verbatim>\<open>notify_one\<close> leaves a permit for the next \<^verbatim>\<open>wait_for_returnable\<close>.\<close>

definition return_credits :: "u32 \<Rightarrow> global_monitor \<Rightarrow> global_monitor exec" where
  "return_credits credits m =
     (if credits = 0 then Ret m
      else
        (let m = m\<lparr>gm_used := gm_used m - credits\<rparr>
         in case checked_add (gm_to_return m) credits of
              None \<Rightarrow> Panic
            | Some to_return \<Rightarrow>
                (let m = m\<lparr>gm_to_return := to_return\<rparr>
                 in Ret (if to_return > 0 \<and> to_return \<ge> gm_return_threshold m
                         then m\<lparr>gm_notified := True\<rparr> else m))))"

definition wait_for_returnable :: "global_monitor \<Rightarrow> global_monitor option" where
  "wait_for_returnable m = (if gm_notified m then Some (m\<lparr>gm_notified := False\<rparr>) else None)"

definition sizer_query :: "global_monitor \<Rightarrow> credits_report \<Rightarrow> buffer_query" where
  "sizer_query m report =
     \<lparr>q_current_size = gm_total m, q_used = gm_used m, q_returnable = gm_to_return m,
      q_seq = gm_seq m, q_report = report, q_report_is_current = (rep_seq report = gm_seq m)\<rparr>"

text \<open>Adjusting the credits in circulation to the size the sizer asks for: whether the total
  changed, the new total and the credits to return.\<close>

definition adjust_total :: "u32 \<Rightarrow> global_monitor \<Rightarrow> bool \<times> u32 \<times> u32" where
  "adjust_total target m =
     (let total = gm_total m
      in if target > total then (True, target, gm_to_return m + (target - total))
         else if target < total
         then (let removed = min (total - target) (gm_to_return m)
               in if removed > 0 then (True, total - removed, gm_to_return m - removed)
                  else (False, total, gm_to_return m - removed))
         else (False, total, gm_to_return m))"

definition return_to_remote ::
  "buffer_size \<Rightarrow> global_monitor \<Rightarrow> (global_credits option \<times> global_monitor) exec" where
  "return_to_remote target m =
     (let (total_changed, total, to_return) = adjust_total (bs_size target) m;
          m = m\<lparr>gm_to_return := to_return\<rparr>;
          seq = (if total_changed then gm_seq m + 1 else gm_seq m);
          m = (if total_changed then m\<lparr>gm_seq := seq, gm_total := total\<rparr> else m)
      in if \<not> (0 < bs_return_threshold target \<and> bs_return_threshold target \<le> bs_size target)
         then Panic
         else
           (let m = m\<lparr>gm_return_threshold := bs_return_threshold target\<rparr>;
                send = (total_changed \<or> bs_force_return target \<or>
                        gm_to_return m \<ge> bs_return_threshold target);
                returning = (if send then gm_to_return m else 0);
                m = (if send then m\<lparr>gm_to_return := 0\<rparr> else m)
            in Ret (if total_changed \<or> returning > 0
                    then Some \<lparr>gc_credits = returning, gc_seq = seq\<rparr> else None, m)))"

text \<open>The multiplexer passes its buffer sizer, queried with the state of the monitor. The
  sizer may panic.\<close>

definition return_to_remote_sized ::
  "('b \<Rightarrow> buffer_query \<Rightarrow> ('b \<times> buffer_size) option) \<Rightarrow> 'b \<Rightarrow> credits_report \<Rightarrow> global_monitor \<Rightarrow>
     (global_credits option \<times> 'b \<times> global_monitor) exec" where
  "return_to_remote_sized sizer b report m =
     (case sizer b (sizer_query m report) of
        None \<Rightarrow> Panic
      | Some (b, target) \<Rightarrow>
          exec_bind (return_to_remote target m) (\<lambda>(credits, m). Ret (credits, b, m)))"

section \<open>How received data is charged\<close>

text \<open>The split of the credits of a data message, \<^verbatim>\<open>handle_received_msg\<close> of \<^verbatim>\<open>mux.rs\<close>: the
  global and the port credits charged for \<open>n\<close> bytes.\<close>

fun charge :: "data_credits \<Rightarrow> u32 \<Rightarrow> u32 \<times> u32" where
  "charge PortOnly n = (0, n)"
| "charge GlobalOnly n = (n, 0)"
| "charge (GlobalAndPort global) n = (global, saturating_sub n global)"

end
