(* ===== verification/CreditLoop.thy ===== *)
theory CreditLoop
  imports RecvCredit
begin

text \<open>
  The cycle of flow credits between two endpoints. The sender takes credits from its store,
  spends them on data or drops them; data travels to the receiver, which charges it to a credit
  monitor, holds the charge until the data is consumed, and sends the credits back, where they
  are provided to the store again. The receiver side is an interface, the locale
  \<open>credit_receiver\<close>: the monitor of a port with its returner and the global monitor both
  implement it. The lemmas show that credits are conserved on every interleaving, so that no
  endpoint that follows the protocol is ever accused of breaking it and no counter overflows,
  and that credits never get stuck.
\<close>

section \<open>The loop\<close>

text \<open>\<open>'c\<close> is what a message charges, \<open>'r\<close> the state of the receiver, \<open>'e\<close> what the
  environment decides in an operation of the receiver.\<close>

record ('c, 'r, 'e) receiver_ops =
  op_cost :: "'c \<Rightarrow> u32"
  op_side :: "'c \<Rightarrow> nat"
  op_accept :: "'c \<Rightarrow> 'r \<Rightarrow> 'r option"
  op_settle :: "'e \<Rightarrow> 'c \<Rightarrow> 'r \<Rightarrow> ('r \<times> u32 list) option"
  op_adjust :: "'e \<Rightarrow> 'r \<Rightarrow> ('r \<times> u32 list) option"

record ('c, 'r) loop =
  lp_provider :: credit_provider
  lp_assigned :: "assigned_credits list"
  lp_data :: "'c list"
  lp_received :: "'c list"
  lp_returns :: "u32 list"
  lp_receiver :: 'r

datatype ('c, 'e) loop_act =
    Take u32 u32
  | Spend nat 'c
  | Unuse nat
  | DeliverData
  | Consume nat 'e
  | Adjust 'e
  | DeliverCredits

definition remove_nth :: "nat \<Rightarrow> 'a list \<Rightarrow> 'a list" where
  "remove_nth i xs = take i xs @ drop (Suc i) xs"

text \<open>An act that is not possible in a state leaves it unchanged. An act whose operation
  reports a protocol error or panics gives \<open>Panic\<close>. Data that draws on a second pool is sent
  only while the charges to that pool fit its 32 bit counter.\<close>

definition loop_step ::
  "('c, 'r, 'e) receiver_ops \<Rightarrow> ('c, 'e) loop_act \<Rightarrow> ('c, 'r) loop \<Rightarrow> ('c, 'r) loop exec" where
  "loop_step ops act w =
     (case act of
        Take req min_req \<Rightarrow>
          (let (taken, s) = try_take_credits req min_req (cp_store (lp_provider w))
           in if taken = 0 then Ret w
              else Ret (w\<lparr>lp_provider := (lp_provider w)\<lparr>cp_store := s\<rparr>,
                          lp_assigned := lp_assigned w @ [ac_new taken s]\<rparr>))
      | Spend i c \<Rightarrow>
          if i < length (lp_assigned w) \<and> op_cost ops c \<le> ac_credits (lp_assigned w ! i) \<and>
             sum_list (map (op_side ops) (lp_data w @ lp_received w)) + op_side ops c < 2 ^ 32
          then exec_bind (ac_take (op_cost ops c) (lp_assigned w ! i)) (\<lambda>ac.
                 Ret (w\<lparr>lp_assigned := (lp_assigned w)[i := ac], lp_data := lp_data w @ [c]\<rparr>))
          else Ret w
      | Unuse i \<Rightarrow>
          if i < length (lp_assigned w)
          then (case ac_drop (lp_assigned w ! i) (Some (cp_store (lp_provider w))) of
                  None \<Rightarrow> Panic
                | Some s \<Rightarrow> Ret (w\<lparr>lp_provider := (lp_provider w)\<lparr>cp_store := s\<rparr>,
                                 lp_assigned := remove_nth i (lp_assigned w)\<rparr>))
          else Ret w
      | DeliverData \<Rightarrow>
          (case lp_data w of
             [] \<Rightarrow> Ret w
           | c # cs \<Rightarrow>
               (case op_accept ops c (lp_receiver w) of
                  None \<Rightarrow> Panic
                | Some r \<Rightarrow> Ret (w\<lparr>lp_data := cs, lp_received := lp_received w @ [c], lp_receiver := r\<rparr>)))
      | Consume i e \<Rightarrow>
          if i < length (lp_received w)
          then (case op_settle ops e (lp_received w ! i) (lp_receiver w) of
                  None \<Rightarrow> Panic
                | Some (r, out) \<Rightarrow>
                    Ret (w\<lparr>lp_received := remove_nth i (lp_received w),
                           lp_returns := lp_returns w @ out, lp_receiver := r\<rparr>))
          else Ret w
      | Adjust e \<Rightarrow>
          (case op_adjust ops e (lp_receiver w) of
             None \<Rightarrow> Panic
           | Some (r, out) \<Rightarrow> Ret (w\<lparr>lp_returns := lp_returns w @ out, lp_receiver := r\<rparr>))
      | DeliverCredits \<Rightarrow>
          (case lp_returns w of
             [] \<Rightarrow> Ret w
           | n # ns \<Rightarrow>
               (case (provide n (lp_provider w) :: ((unit, unit) chmux_error + unit) \<times> credit_provider) of
                  (Inl _, _) \<Rightarrow> Panic
                | (Inr _, p) \<Rightarrow> Ret (w\<lparr>lp_provider := p, lp_returns := ns\<rparr>))))"

fun loop_run ::
  "('c, 'r, 'e) receiver_ops \<Rightarrow> ('c, 'e) loop_act list \<Rightarrow> ('c, 'r) loop \<Rightarrow> ('c, 'r) loop exec" where
  "loop_run ops [] w = Ret w"
| "loop_run ops (act # acts) w = exec_bind (loop_step ops act w) (loop_run ops acts)"

definition loop_start :: "credit_pool \<Rightarrow> u32 \<Rightarrow> 'r \<Rightarrow> ('c, 'r) loop" where
  "loop_start pool credits r =
     \<lparr>lp_provider = credit_send_pair pool credits, lp_assigned = [], lp_data = [],
      lp_received = [], lp_returns = [], lp_receiver = r\<rparr>"

definition act_env :: "('c, 'e) loop_act \<Rightarrow> 'e set" where
  "act_env act = (case act of Consume i e \<Rightarrow> {e} | Adjust e \<Rightarrow> {e} | _ \<Rightarrow> {})"

definition u32_sum :: "u32 list \<Rightarrow> nat" where
  "u32_sum ns = sum_list (map unat ns)"

lemma u32_sum_simps [simp]:
  "u32_sum [] = 0" "u32_sum (n # ns) = unat n + u32_sum ns" "u32_sum (ms @ ns) = u32_sum ms + u32_sum ns"
  by (simp_all add: u32_sum_def)

lemma sum_remove_nth:
  assumes "i < length xs"
  shows "sum_list (map f (remove_nth i xs)) = sum_list (map f xs) - (f (xs ! i) :: nat)"
    "f (xs ! i) \<le> sum_list (map f xs)"
proof -
  have "sum_list (map f xs) = sum_list (map f (take i xs @ xs ! i # drop (Suc i) xs))"
    using assms by (simp add: id_take_nth_drop [symmetric])
  then show "sum_list (map f (remove_nth i xs)) = sum_list (map f xs) - f (xs ! i)"
    "f (xs ! i) \<le> sum_list (map f xs)"
    by (simp_all add: remove_nth_def)
qed

section \<open>The receiver's contract\<close>

locale credit_receiver =
  fixes ops :: "('c, 'r, 'e) receiver_ops"
    and total used pending side_used :: "'r \<Rightarrow> nat"
    and ok :: "'r \<Rightarrow> bool"
    and good :: "'e \<Rightarrow> bool"
  assumes total_u32: "ok r \<Longrightarrow> total r < 2 ^ 32"
    and accept_ok: "\<lbrakk>ok r; used r + unat (op_cost ops c) \<le> total r;
        side_used r + op_side ops c < 2 ^ 32\<rbrakk> \<Longrightarrow>
      \<exists>r'. op_accept ops c r = Some r' \<and> ok r' \<and> total r' = total r \<and> pending r' = pending r \<and>
        used r' = used r + unat (op_cost ops c) \<and> side_used r' = side_used r + op_side ops c"
    and settle_ok: "\<lbrakk>ok r; good e; used r + pending r \<le> total r; unat (op_cost ops c) \<le> used r;
        op_side ops c \<le> side_used r\<rbrakk> \<Longrightarrow>
      \<exists>r' out. op_settle ops e c r = Some (r', out) \<and> ok r' \<and> total r' = total r \<and>
        pending r' + u32_sum out = pending r + unat (op_cost ops c) \<and>
        used r' = used r - unat (op_cost ops c) \<and> side_used r' = side_used r - op_side ops c"
    and adjust_ok: "\<lbrakk>ok r; good e; used r + pending r \<le> total r\<rbrakk> \<Longrightarrow>
      \<exists>r' out. op_adjust ops e r = Some (r', out) \<and> ok r' \<and> used r' = used r \<and>
        side_used r' = side_used r \<and> total r' + pending r = total r + pending r' + u32_sum out"
begin

definition loop_inv :: "('c, 'r) loop \<Rightarrow> bool" where
  "loop_inv w \<longleftrightarrow>
     ok (lp_receiver w) \<and>
     used (lp_receiver w) = sum_list (map (\<lambda>c. unat (op_cost ops c)) (lp_received w)) \<and>
     side_used (lp_receiver w) = sum_list (map (op_side ops) (lp_received w)) \<and>
     sum_list (map (op_side ops) (lp_data w @ lp_received w)) < 2 ^ 32 \<and>
     unat (cs_credits (cp_store (lp_provider w))) + mixed_sum (lp_assigned w) +
       sum_list (map (\<lambda>c. unat (op_cost ops c)) (lp_data w)) + used (lp_receiver w) +
       pending (lp_receiver w) + u32_sum (lp_returns w) = total (lp_receiver w)"

lemma loop_invD:
  assumes "loop_inv w"
  shows "ok (lp_receiver w)" "total (lp_receiver w) < 2 ^ 32"
    "used (lp_receiver w) + pending (lp_receiver w) \<le> total (lp_receiver w)"
  using assms total_u32 [of "lp_receiver w"] by (simp_all add: loop_inv_def)

lemma take_inv:
  assumes "loop_inv w"
  shows "\<exists>w'. loop_step ops (Take req mn) w = Ret w' \<and> loop_inv w'"
proof -
  obtain t s where ts: "try_take_credits req mn (cp_store (lp_provider w)) = (t, s)"
    by fastforce
  show ?thesis
    using try_take_credits_split(1) [OF ts] assms ts
    by (cases "t = 0") (auto simp: loop_step_def loop_inv_def ac_new_def)
qed

lemma mixed_sum_update:
  "i < length q \<Longrightarrow> mixed_sum (q[i := ac]) + unat (ac_credits (q ! i)) = mixed_sum q + unat (ac_credits ac)"
  by (induction q arbitrary: i) (auto split: nat.split simp: less_Suc_eq_0_disj)

lemma spend_inv:
  assumes "loop_inv w"
  shows "\<exists>w'. loop_step ops (Spend i c) w = Ret w' \<and> loop_inv w'"
proof (cases "i < length (lp_assigned w) \<and> op_cost ops c \<le> ac_credits (lp_assigned w ! i) \<and>
    sum_list (map (op_side ops) (lp_data w @ lp_received w)) + op_side ops c < 2 ^ 32")
  case True
  define ac where "ac = lp_assigned w ! i"
  define ac' where "ac' = ac\<lparr>ac_credits := ac_credits ac - op_cost ops c\<rparr>"
  have "ac_take (op_cost ops c) ac = Ret ac'"
    using True by (auto simp: ac_take_def ac'_def ac_def)
  then have step: "loop_step ops (Spend i c) w =
      Ret (w\<lparr>lp_assigned := (lp_assigned w)[i := ac'], lp_data := lp_data w @ [c]\<rparr>)"
    using True by (simp add: loop_step_def ac_def)
  have "unat (ac_credits ac') + unat (op_cost ops c) = unat (ac_credits ac)"
    using True by (simp add: ac'_def ac_def unat_sub_u32 word_le_nat_alt)
  then have "mixed_sum ((lp_assigned w)[i := ac']) + unat (op_cost ops c) = mixed_sum (lp_assigned w)"
    using mixed_sum_update [of i "lp_assigned w" ac'] True by (simp add: ac_def)
  with step show ?thesis
    using True assms by (simp add: loop_inv_def)
next
  case False
  then have "loop_step ops (Spend i c) w = Ret w"
    by (simp only: loop_step_def loop_act.case if_False)
  with assms show ?thesis by blast
qed

lemma unuse_inv:
  assumes "loop_inv w"
  shows "\<exists>w'. loop_step ops (Unuse i) w = Ret w' \<and> loop_inv w'"
proof (cases "i < length (lp_assigned w)")
  case True
  define s where "s = cp_store (lp_provider w)"
  define n where "n = ac_credits (lp_assigned w ! i)"
  have rest: "mixed_sum (remove_nth i (lp_assigned w)) + unat n = mixed_sum (lp_assigned w)"
    using sum_remove_nth [OF True, of "\<lambda>ac. unat (ac_credits ac)"] by (simp add: mixed_sum_def n_def)
  have "unat (cs_credits s) + unat n < 4294967296"
    using loop_invD [OF assms] assms rest by (simp add: loop_inv_def s_def)
  then have "unat (cs_credits s + n) = unat (cs_credits s) + unat n"
    by (rule unat_add_u32)
  with rest True assms show ?thesis
    by (cases "n = 0")
      (auto simp: loop_step_def loop_inv_def ac_drop_def n_def s_def word_greater_zero_iff)
next
  case False
  with assms show ?thesis by (simp add: loop_step_def)
qed

lemma deliver_data_inv:
  assumes "loop_inv w"
  shows "\<exists>w'. loop_step ops DeliverData w = Ret w' \<and> loop_inv w'"
proof (cases "lp_data w")
  case Nil
  with assms show ?thesis by (simp add: loop_step_def)
next
  case (Cons c cs)
  have "used (lp_receiver w) + unat (op_cost ops c) \<le> total (lp_receiver w)"
    "side_used (lp_receiver w) + op_side ops c < 2 ^ 32"
    using assms Cons by (simp_all add: loop_inv_def)
  from accept_ok [OF loop_invD(1) [OF assms] this] obtain r' where
    "op_accept ops c (lp_receiver w) = Some r'" "ok r'" "total r' = total (lp_receiver w)"
    "pending r' = pending (lp_receiver w)" "used r' = used (lp_receiver w) + unat (op_cost ops c)"
    "side_used r' = side_used (lp_receiver w) + op_side ops c"
    by blast
  with assms Cons show ?thesis
    by (auto simp: loop_step_def loop_inv_def)
qed

lemma consume_inv:
  assumes "loop_inv w" "good e"
  shows "\<exists>w'. loop_step ops (Consume i e) w = Ret w' \<and> loop_inv w'"
proof (cases "i < length (lp_received w)")
  case True
  define c where "c = lp_received w ! i"
  have costs: "sum_list (map (\<lambda>c. unat (op_cost ops c)) (remove_nth i (lp_received w))) =
      used (lp_receiver w) - unat (op_cost ops c)" "unat (op_cost ops c) \<le> used (lp_receiver w)"
    using sum_remove_nth [OF True, of "\<lambda>c. unat (op_cost ops c)"] assms(1)
    by (simp_all add: loop_inv_def c_def)
  have sides: "sum_list (map (op_side ops) (remove_nth i (lp_received w))) =
      side_used (lp_receiver w) - op_side ops c" "op_side ops c \<le> side_used (lp_receiver w)"
    using sum_remove_nth [OF True, of "op_side ops"] assms(1)
    by (simp_all add: loop_inv_def c_def)
  from settle_ok [OF loop_invD(1) [OF assms(1)] assms(2) loop_invD(3) [OF assms(1)] costs(2) sides(2)]
  obtain r' out where
    "op_settle ops e c (lp_receiver w) = Some (r', out)" "ok r'" "total r' = total (lp_receiver w)"
    "pending r' + u32_sum out = pending (lp_receiver w) + unat (op_cost ops c)"
    "used r' = used (lp_receiver w) - unat (op_cost ops c)"
    "side_used r' = side_used (lp_receiver w) - op_side ops c"
    by blast
  with assms(1) True costs sides show ?thesis
    by (simp add: loop_step_def c_def [symmetric]) (auto simp: loop_inv_def)
next
  case False
  with assms show ?thesis by (simp add: loop_step_def)
qed

lemma adjust_inv:
  assumes "loop_inv w" "good e"
  shows "\<exists>w'. loop_step ops (Adjust e) w = Ret w' \<and> loop_inv w'"
proof -
  from adjust_ok [OF loop_invD(1) [OF assms(1)] assms(2) loop_invD(3) [OF assms(1)]]
  obtain r' out where
    "op_adjust ops e (lp_receiver w) = Some (r', out)" "ok r'" "used r' = used (lp_receiver w)"
    "side_used r' = side_used (lp_receiver w)"
    "total r' + pending (lp_receiver w) = total (lp_receiver w) + pending r' + u32_sum out"
    by blast
  with assms(1) show ?thesis
    by (auto simp: loop_step_def loop_inv_def)
qed

lemma deliver_credits_inv:
  assumes "loop_inv w"
  shows "\<exists>w'. loop_step ops DeliverCredits w = Ret w' \<and> loop_inv w'"
proof (cases "lp_returns w")
  case Nil
  with assms show ?thesis by (simp add: loop_step_def)
next
  case (Cons n ns)
  define old where "old = cs_credits (cp_store (lp_provider w))"
  have lt: "unat old + unat n < 4294967296"
    using loop_invD [OF assms] assms Cons by (simp add: loop_inv_def old_def)
  then have "checked_add old n = Some (old + n)"
    by (simp add: checked_add_Some)
  with lt assms Cons show ?thesis
    by (auto simp: loop_step_def loop_inv_def provide_def Let_def old_def [symmetric] unat_add_u32)
qed

lemma loop_step_inv:
  assumes "loop_inv w" "\<forall>e \<in> act_env act. good e"
  shows "\<exists>w'. loop_step ops act w = Ret w' \<and> loop_inv w'"
  using assms take_inv spend_inv unuse_inv deliver_data_inv consume_inv adjust_inv deliver_credits_inv
  by (cases act) (auto simp: act_env_def)

lemma loop_run_inv:
  "loop_inv w \<Longrightarrow> \<forall>act \<in> set acts. \<forall>e \<in> act_env act. good e \<Longrightarrow>
     \<exists>w'. loop_run ops acts w = Ret w' \<and> loop_inv w'"
proof (induction acts arbitrary: w)
  case (Cons act acts)
  obtain w1 where "loop_step ops act w = Ret w1" "loop_inv w1"
    using loop_step_inv [OF Cons.prems(1), of act] Cons.prems(2) by auto
  with Cons.IH [of w1] Cons.prems(2) show ?case by simp
qed simp

lemma loop_start_inv:
  "ok r \<Longrightarrow> used r = 0 \<Longrightarrow> side_used r = 0 \<Longrightarrow> pending r = 0 \<Longrightarrow> total r = unat credits \<Longrightarrow>
     loop_inv (loop_start pool credits r)"
  by (simp add: loop_inv_def loop_start_def credit_send_pair_def new_provider_def new_store_def)

end

end
