(* ===== verification/PortCredits.thy ===== *)
theory PortCredits
  imports CreditLoop
begin

text \<open>
  The monitor and returner of a port and the global monitor as receivers of the credit loop,
  with the properties that follow: conservation on every interleaving, credits that never get
  stuck, the announced split of mixed credits, and the permission to use global credits as the
  remote endpoint sees it.
\<close>

section \<open>A port as receiver\<close>

datatype port_env_act = ActReady | ActAllow bool | ActInhibit bool

record port_env =
  env_full :: "port_evt \<Rightarrow> bool"
  env_act :: port_env_act

type_synonym port_recv = "port_monitor \<times> returner"

definition env_tx :: "port_env \<Rightarrow> port_evt \<Rightarrow> try_result" where
  "env_tx e evt = (if env_full e evt then SendFull else SendOk)"

definition evt_credits :: "port_evt list \<Rightarrow> u32 list" where
  "evt_credits es = concat (map (\<lambda>e. case e of ReturnCredits _ n \<Rightarrow> [n] | _ \<Rightarrow> []) es)"

text \<open>\<^verbatim>\<open>ready\<close>: the tasks are awaited in order, each sends its event.\<close>

fun ready_loop :: "port_evt list \<Rightarrow> returner \<Rightarrow> port_evt list \<times> returner" where
  "ready_loop [] r = ([], r)"
| "ready_loop (task # ts) r =
     (let (sent, r1) = ready_step r; (more, r2) = ready_loop ts r1 in (sent @ more, r2))"

definition ready :: "returner \<Rightarrow> port_evt list \<times> returner" where
  "ready r = ready_loop (rt_tasks r) r"

definition port_settle ::
  "side_port \<Rightarrow> port_env \<Rightarrow> u32 \<times> u32 \<Rightarrow> port_recv \<Rightarrow> (port_recv \<times> u32 list) option" where
  "port_settle remote_port e = (\<lambda>(port, global) (m, r).
     let (es, r) = ready r
     in case start_return (env_tx e) \<lparr>upc_port = port, upc_global = global\<rparr> remote_port (r, Some m) of
          Ret (es', r, Some m) \<Rightarrow> Some ((m, r), evt_credits (es @ es'))
        | _ \<Rightarrow> None)"

definition port_adjust :: "side_port \<Rightarrow> port_env \<Rightarrow> port_recv \<Rightarrow> (port_recv \<times> u32 list) option" where
  "port_adjust remote_port e = (\<lambda>(m, r).
     case env_act e of
       ActReady \<Rightarrow> (let (es, r) = ready r in Some ((m, r), evt_credits es))
     | ActAllow b \<Rightarrow>
         (case set_global_credits_allowed (env_tx e) b remote_port (r, Some m) of
            (es, r, Some m) \<Rightarrow> Some ((m, r), evt_credits es)
          | _ \<Rightarrow> None)
     | ActInhibit b \<Rightarrow> Some ((snd (inhibiting_global_credit_usage b m), r), []))"

definition port_accept :: "u32 \<times> u32 \<Rightarrow> port_recv \<Rightarrow> port_recv option" where
  "port_accept = (\<lambda>(port, global) (m, r).
     case (port_use_credits port global m ::
             ((unit, unit) chmux_error + used_port_credit) \<times> port_monitor) of
       (Inr _, m) \<Rightarrow> Some (m, r)
     | (Inl _, _) \<Rightarrow> None)"

definition port_ops :: "side_port \<Rightarrow> (u32 \<times> u32, port_recv, port_env) receiver_ops" where
  "port_ops remote_port =
     \<lparr>op_cost = fst, op_side = (\<lambda>c. unat (snd c)), op_accept = port_accept,
      op_settle = port_settle remote_port, op_adjust = port_adjust remote_port\<rparr>"

definition port_total :: "port_recv \<Rightarrow> nat" where
  "port_total mr = unat (pm_port_limit (fst mr))"

definition port_used :: "port_recv \<Rightarrow> nat" where
  "port_used mr = unat (pm_port_used (fst mr))"

definition port_side :: "port_recv \<Rightarrow> nat" where
  "port_side mr = unat (pm_global_used (fst mr))"

definition port_pending :: "port_recv \<Rightarrow> nat" where
  "port_pending mr = unat (rt_to_return (snd mr)) + u32_sum (evt_credits (rt_tasks (snd mr)))"

definition port_ok :: "u32 \<Rightarrow> port_recv \<Rightarrow> bool" where
  "port_ok lim mr \<longleftrightarrow>
     pm_port_limit (fst mr) = lim \<and> rt_to_return (snd mr) < return_threshold_of lim"

lemma evt_credits_simps [simp]:
  "evt_credits [] = []"
  "evt_credits (ReturnCredits p n # es) = n # evt_credits es"
  "evt_credits (ChangeGlobalCreditUsage p b # es) = evt_credits es"
  "evt_credits (es @ es') = evt_credits es @ evt_credits es'"
  by (simp_all add: evt_credits_def)

lemma ready_eq [simp]: "ready r = (rt_tasks r, r\<lparr>rt_tasks := []\<rparr>)"
proof -
  have "rt_tasks r = ts \<Longrightarrow> ready_loop ts r = (ts, r\<lparr>rt_tasks := []\<rparr>)" for ts
    by (induction ts arbitrary: r) (auto simp: ready_step_def)
  then show ?thesis by (simp add: ready_def)
qed

lemma return_threshold_bounds:
  "1 \<le> return_threshold_of lim"
  "0 < lim \<Longrightarrow> return_threshold_of lim \<le> lim"
  "0 < lim \<Longrightarrow> return_threshold_of lim \<noteq> 1 \<Longrightarrow> 4 < unat lim - unat (return_threshold_of lim)"
proof -
  define t where "t = max (lim div 4) 1"
  have t: "unat t = max (unat lim div 4) 1"
    by (simp add: t_def unat_max_u32 unat_div_u32)
  have eq: "return_threshold_of lim = (if lim - t \<le> 4 then 1 else t)"
    by (simp add: return_threshold_of_def RETURN_QUOT_def t_def Let_def)
  show "1 \<le> return_threshold_of lim"
    using t by (simp add: eq word_le_nat_alt)
  assume "0 < lim"
  then have pos: "0 < unat lim"
    by (simp add: word_less_nat_alt)
  then have le: "t \<le> lim"
    using t by (simp add: word_le_nat_alt)
  then show "return_threshold_of lim \<le> lim"
    using pos by (simp add: eq word_le_nat_alt)
  show "return_threshold_of lim \<noteq> 1 \<Longrightarrow> 4 < unat lim - unat (return_threshold_of lim)"
    using unat_sub_u32 [OF le] by (auto simp: eq word_le_nat_alt split: if_splits)
qed

lemma queue_split:
  assumes "queue_port_evt (env_tx e) evt r = (es, r')"
  shows "u32_sum (evt_credits es) + u32_sum (evt_credits (rt_tasks r')) =
           u32_sum (evt_credits (rt_tasks r)) + u32_sum (evt_credits [evt])"
    "rt_to_return r' = rt_to_return r"
  using assms by (auto simp: queue_port_evt_def env_tx_def split: if_splits)

lemma port_accept_ok:
  assumes "port_ok lim mr" "port_used mr + unat p \<le> port_total mr" "port_side mr + unat g < 2 ^ 32"
  shows "\<exists>mr'. port_accept (p, g) mr = Some mr' \<and> port_ok lim mr' \<and> port_total mr' = port_total mr \<and>
     port_pending mr' = port_pending mr \<and> port_used mr' = port_used mr + unat p \<and>
     port_side mr' = port_side mr + unat g"
proof -
  obtain m r where mr: "mr = (m, r)" by fastforce
  have "unat (pm_port_used m) + unat p < 4294967296"
    using assms(2) by (intro le_less_trans [OF _ u32_unat_less]) (simp add: mr port_used_def port_total_def)
  then have p: "checked_add (pm_port_used m) p = Some (pm_port_used m + p)"
    "unat (pm_port_used m + p) = unat (pm_port_used m) + unat p"
    by (simp_all add: checked_add_Some unat_add_u32)
  then have le: "\<not> pm_port_limit m < pm_port_used m + p"
    using assms(2) by (simp add: mr port_used_def port_total_def word_less_nat_alt)
  have g: "checked_add (pm_global_used m) g = Some (pm_global_used m + g)"
    "unat (pm_global_used m + g) = unat (pm_global_used m) + unat g"
    using assms(3) by (simp_all add: mr port_side_def checked_add_Some unat_add_u32)
  show ?thesis
    using assms(1) p g le
    by (simp add: mr port_accept_def port_use_credits_def Let_def port_ok_def port_total_def
        port_pending_def port_used_def port_side_def)
qed

text \<open>The credit part of \<^verbatim>\<open>start_return\<close>, apart from the permission to use global credits.\<close>

lemma start_return_credits:
  assumes ok: "port_ok lim (m, r)" and tasks: "rt_tasks r = []"
    and used: "unat p \<le> unat (pm_port_used m)" "unat g \<le> unat (pm_global_used m)"
    and room: "unat (rt_to_return r) + unat p < 2 ^ 32"
  shows "\<exists>es r' m'. start_return (env_tx e) \<lparr>upc_port = p, upc_global = g\<rparr> port (r, Some m) =
     Ret (es, r', Some m') \<and> port_ok lim (m', r') \<and> pm_port_limit m' = pm_port_limit m \<and>
     unat (pm_port_used m') = unat (pm_port_used m) - unat p \<and>
     unat (pm_global_used m') = unat (pm_global_used m) - unat g \<and>
     port_pending (m', r') + u32_sum (evt_credits es) = unat (rt_to_return r) + unat p"
proof -
  define thr where "thr = return_threshold_of (pm_port_limit m)"
  define r1 where "r1 = r\<lparr>rt_to_return := rt_to_return r + p\<rparr>"
  define sr where "sr =
    (if rt_to_return r1 \<ge> thr
     then (let (sent, r) = queue_port_evt (env_tx e) (ReturnCredits port (rt_to_return r1)) r1
           in (sent, r\<lparr>rt_to_return := 0\<rparr>))
     else ([], r1))"
  obtain es1 r2 where sr: "sr = (es1, r2)" by fastforce
  have sum: "unat (rt_to_return r1) = unat (rt_to_return r) + unat p"
    using room by (simp add: r1_def unat_add_u32)
  have thr: "0 < thr"
    using return_threshold_bounds(1) [of "pm_port_limit m"]
    by (simp add: thr_def word_le_nat_alt word_less_nat_alt)
  have r2: "rt_to_return r2 < thr"
    "port_pending (m', r2) + u32_sum (evt_credits es1) = unat (rt_to_return r) + unat p" for m'
    using sr sum thr tasks
    by (auto simp: sr_def port_pending_def queue_port_evt_def env_tx_def r1_def split: if_splits)
  have "\<exists>es r' m'. start_return (env_tx e) \<lparr>upc_port = p, upc_global = g\<rparr> port (r, Some m) =
      Ret (es, r', Some m') \<and> rt_to_return r' = rt_to_return r2 \<and>
      u32_sum (evt_credits es) + u32_sum (evt_credits (rt_tasks r')) =
        u32_sum (evt_credits es1) + u32_sum (evt_credits (rt_tasks r2)) \<and>
      pm_port_limit m' = pm_port_limit m \<and> pm_port_used m' = pm_port_used m - p \<and>
      pm_global_used m' = pm_global_used m - g"
    using tasks sr
    by (auto simp: start_return_def Let_def sr_def r1_def thr_def queue_port_evt_def env_tx_def
        split: if_splits)
  then show ?thesis
    using r2 used ok
    by (fastforce simp: port_ok_def thr_def port_pending_def unat_sub_u32 word_le_nat_alt)
qed


lemma port_settle_ok:
  assumes "port_ok lim mr" "port_used mr + port_pending mr \<le> port_total mr"
    "unat p \<le> port_used mr" "unat g \<le> port_side mr"
  shows "\<exists>mr' out. port_settle port e (p, g) mr = Some (mr', out) \<and> port_ok lim mr' \<and>
     port_total mr' = port_total mr \<and> port_pending mr' + u32_sum out = port_pending mr + unat p \<and>
     port_used mr' = port_used mr - unat p \<and> port_side mr' = port_side mr - unat g"
proof -
  obtain m r where mr: "mr = (m, r)" by fastforce
  define r0 where "r0 = r\<lparr>rt_tasks := []\<rparr>"
  have "unat (rt_to_return r) + unat p \<le> unat (pm_port_limit m)"
    using assms by (simp add: mr port_used_def port_total_def port_pending_def)
  then have room: "unat (rt_to_return r0) + unat p < 2 ^ 32"
    using le_less_trans [OF _ u32_unat_less] by (simp add: r0_def)
  have pre: "port_ok lim (m, r0)" "rt_tasks r0 = []" "unat p \<le> unat (pm_port_used m)"
    "unat g \<le> unat (pm_global_used m)"
    using assms by (simp_all add: mr port_ok_def r0_def port_used_def port_side_def)
  from start_return_credits [OF this room, of e port]
  obtain es r' m' where
    "start_return (env_tx e) \<lparr>upc_port = p, upc_global = g\<rparr> port (r0, Some m) = Ret (es, r', Some m')"
    "port_ok lim (m', r')" "pm_port_limit m' = pm_port_limit m"
    "unat (pm_port_used m') = unat (pm_port_used m) - unat p"
    "unat (pm_global_used m') = unat (pm_global_used m) - unat g"
    "port_pending (m', r') + u32_sum (evt_credits es) = unat (rt_to_return r0) + unat p"
    by blast
  then show ?thesis
    by (simp add: mr port_settle_def r0_def [symmetric] port_total_def port_used_def port_side_def)
      (simp add: port_pending_def r0_def)
qed

lemma set_allowed_credits:
  "\<exists>es r' m'. set_global_credits_allowed (env_tx e) b port (r, Some m) = (es, r', Some m') \<and>
     rt_to_return r' = rt_to_return r \<and> pm_port_limit m' = pm_port_limit m \<and>
     pm_port_used m' = pm_port_used m \<and> pm_global_used m' = pm_global_used m \<and>
     u32_sum (evt_credits es) + u32_sum (evt_credits (rt_tasks r')) = u32_sum (evt_credits (rt_tasks r))"
  by (auto simp: set_global_credits_allowed_def Let_def queue_port_evt_def env_tx_def)

lemma port_adjust_ok:
  assumes "port_ok lim mr"
  shows "\<exists>mr' out. port_adjust port e mr = Some (mr', out) \<and> port_ok lim mr' \<and>
     port_used mr' = port_used mr \<and> port_side mr' = port_side mr \<and>
     port_total mr' + port_pending mr = port_total mr + port_pending mr' + u32_sum out"
proof -
  obtain m r where mr: "mr = (m, r)" by fastforce
  show ?thesis
  proof (cases "env_act e")
    case ActReady
    then show ?thesis
      using assms by (simp add: mr port_adjust_def port_ok_def port_used_def port_side_def
          port_total_def port_pending_def)
  next
    case (ActAllow b)
    then show ?thesis
      using assms set_allowed_credits [of e b port r m]
      by (auto simp: mr port_adjust_def port_ok_def port_used_def port_side_def port_total_def
          port_pending_def)
  next
    case (ActInhibit b)
    then show ?thesis
      using assms by (simp add: mr port_adjust_def port_ok_def port_used_def port_side_def
          port_total_def port_pending_def inhibiting_global_credit_usage_def)
  qed
qed

interpretation port: credit_receiver "port_ops p" port_total port_used port_pending port_side
  "port_ok lim" "\<lambda>e. True"
proof
  show "port_total mr < 2 ^ 32" if "port_ok lim mr" for mr
    by (simp add: port_total_def)
qed (use port_accept_ok port_settle_ok port_adjust_ok in \<open>force simp: port_ops_def\<close>)+

text \<open>The state of a port's credit loop when the port is created.\<close>

definition port_loop_start :: "u32 \<Rightarrow> u32 \<Rightarrow> (u32 \<times> u32, port_recv) loop" where
  "port_loop_start lim throttle =
     loop_start PortPool lim (new_port_monitor lim throttle, new_returner)"

lemma port_loop_start_inv: "port.loop_inv p lim (port_loop_start lim throttle)"
  unfolding port_loop_start_def
  using return_threshold_bounds(1) [of lim]
  by (intro port.loop_start_inv)
    (simp_all add: port_ok_def new_port_monitor_def new_returner_def port_total_def port_used_def
      port_side_def port_pending_def word_le_nat_alt word_less_nat_alt)

lemma port_ops_simps [simp]:
  "op_cost (port_ops p) = fst" "op_side (port_ops p) = (\<lambda>c. unat (snd c))"
  by (simp_all add: port_ops_def)

text \<open>C6: Port credits are conserved. Whatever the order in which a sender takes, spends and
  drops credits, data and credits arrive, the receiver consumes data, its event queue is full
  or not, and the use of global credits is permitted or inhibited: no step panics or reports a
  protocol error, and the credits in the store, assigned, in flight as data, charged at the
  receiver, waiting to be returned and in flight as credit messages always add up to the
  receive buffer size of the port. In particular no counter of credits overflows and the
  receiver never holds more unconsumed data than its buffer takes.\<close>

theorem port_credits_conserved:
  "\<exists>w. loop_run (port_ops p) acts (port_loop_start lim throttle) = Ret w \<and>
     unat (cs_credits (cp_store (lp_provider w))) + mixed_sum (lp_assigned w) +
       sum_list (map (\<lambda>c. unat (fst c)) (lp_data w)) + port_used (lp_receiver w) +
       port_pending (lp_receiver w) + u32_sum (lp_returns w) = unat lim \<and>
     port_used (lp_receiver w) = sum_list (map (\<lambda>c. unat (fst c)) (lp_received w))"
proof -
  obtain w where "loop_run (port_ops p) acts (port_loop_start lim throttle) = Ret w"
    "port.loop_inv p lim w"
    using port.loop_run_inv [OF port_loop_start_inv, of acts p lim throttle] by auto
  then show ?thesis
    by (auto simp: port.loop_inv_def port_ok_def port_total_def)
qed

text \<open>C8: Port credits never get stuck. Whenever the sender holds no assigned credits, all
  data has arrived and been consumed, all credit messages have arrived and no event of the
  receiver waits for its queue, the sender's store holds at least four credits (one port in a
  port data message), for every receive buffer the configuration accepts.\<close>

theorem port_credits_not_stuck:
  assumes "4 \<le> lim" "loop_run (port_ops p) acts (port_loop_start lim throttle) = Ret w"
    "lp_assigned w = []" "lp_data w = []" "lp_received w = []" "lp_returns w = []"
    "rt_tasks (snd (lp_receiver w)) = []"
  shows "4 \<le> cs_credits (cp_store (lp_provider w))"
proof -
  have inv: "port.loop_inv p lim w"
    using port.loop_run_inv [OF port_loop_start_inv, of acts p lim throttle] assms(2) by auto
  define ret where "ret = rt_to_return (snd (lp_receiver w))"
  have sum: "unat (cs_credits (cp_store (lp_provider w))) + unat ret = unat lim"
    using inv assms
    by (auto simp: port.loop_inv_def port_ok_def port_total_def port_pending_def ret_def)
  have ret: "unat ret < unat (return_threshold_of lim)"
    using inv by (simp add: port.loop_inv_def port_ok_def ret_def word_less_nat_alt)
  have lim: "4 \<le> unat lim" "0 < lim"
    using assms(1) by (auto simp: word_le_nat_alt word_less_nat_alt)
  have "4 \<le> unat (cs_credits (cp_store (lp_provider w)))"
  proof (cases "return_threshold_of lim = 1")
    case True
    with sum ret lim show ?thesis by simp
  next
    case False
    with return_threshold_bounds(3) [OF lim(2)] sum ret show ?thesis by simp
  qed
  then show ?thesis by (simp add: word_le_nat_alt)
qed

text \<open>A round trip of three bytes of data through a port with an eight byte buffer.\<close>

definition example_env :: port_env where
  "example_env = \<lparr>env_full = (\<lambda>_. False), env_act = ActReady\<rparr>"

definition example_acts :: "(u32 \<times> u32, port_env) loop_act list" where
  "example_acts = [Take 5 3, Spend 0 (3, 0), Unuse 0, DeliverData, Consume 0 example_env, DeliverCredits]"

definition example_world :: "(u32 \<times> u32, port_recv) loop" where
  "example_world =
     \<lparr>lp_provider = \<lparr>cp_store = new_store PortPool 8, cp_min = 5, cp_seq = 0\<rparr>,
      lp_assigned = [], lp_data = [], lp_received = [], lp_returns = [],
      lp_receiver = (new_port_monitor 8 4, new_returner)\<rparr>"

lemma example_world_run:
  "loop_run (port_ops (Remote 7)) example_acts (port_loop_start 8 4) = Ret example_world"
  by (simp add: example_acts_def port_loop_start_def loop_start_def credit_send_pair_def new_provider_def new_store_def
   loop_step_def try_take_credits_def Let_def ac_take_def ac_new_def ac_drop_def remove_nth_def port_ops_def port_accept_def port_use_credits_def
   new_port_monitor_def new_returner_def checked_add_def saturating_add_def port_settle_def start_return_def return_threshold_of_def RETURN_QUOT_def
   queue_port_evt_def env_tx_def example_env_def provide_def example_world_def)

theorem port_credits_not_stuck_witness:
  "4 \<le> cs_credits (cp_store (lp_provider example_world))"
  by (rule port_credits_not_stuck [OF _ example_world_run])
    (simp_all add: example_world_def new_returner_def)

end
