(* ===== verification/GlobalCredits.thy ===== *)
theory GlobalCredits
  imports PortCredits
begin

text \<open>
  The global receive buffer as receiver of the credit loop, driven by a buffer sizer: the
  locale \<open>sized_monitor\<close> extends the interface of a sizer and gives the contract of a credit
  receiver, and it is interpreted on the fixed and the dynamic sizer. Also the split of mixed
  credits as announced in a data message.
\<close>

section \<open>The global monitor as receiver\<close>

text \<open>The environment of \<^verbatim>\<open>return_to_remote\<close> is the last report of the remote endpoint; a
  pending notification is consumed first.\<close>

type_synonym 'b global_recv = "'b \<times> global_monitor"

definition global_accept :: "u32 \<Rightarrow> 'b global_recv \<Rightarrow> 'b global_recv option" where
  "global_accept credits = (\<lambda>(b, m).
     case (global_use_credits credits m :: ((unit, unit) chmux_error + u32) \<times> global_monitor) of
       (Inr _, m) \<Rightarrow> Some (b, m)
     | (Inl _, _) \<Rightarrow> None)"

definition global_settle :: "u32 \<Rightarrow> 'b global_recv \<Rightarrow> ('b global_recv \<times> u32 list) option" where
  "global_settle credits = (\<lambda>(b, m).
     case return_credits credits m of Ret m \<Rightarrow> Some ((b, m), []) | Panic \<Rightarrow> None)"

definition global_adjust ::
  "('b \<Rightarrow> buffer_query \<Rightarrow> ('b \<times> buffer_size) option) \<Rightarrow> credits_report \<Rightarrow> 'b global_recv \<Rightarrow>
     ('b global_recv \<times> u32 list) option" where
  "global_adjust sizer report = (\<lambda>(b, m).
     let m = (case wait_for_returnable m of None \<Rightarrow> m | Some m' \<Rightarrow> m')
     in case return_to_remote_sized sizer b report m of
          Panic \<Rightarrow> None
        | Ret (credits, b, m) \<Rightarrow>
            Some ((b, m), case credits of None \<Rightarrow> [] | Some gc \<Rightarrow> [gc_credits gc]))"

definition global_ops ::
  "('b \<Rightarrow> buffer_query \<Rightarrow> ('b \<times> buffer_size) option) \<Rightarrow>
     (u32, 'b global_recv, credits_report) receiver_ops" where
  "global_ops sizer =
     \<lparr>op_cost = (\<lambda>c. c), op_side = (\<lambda>_. 0), op_accept = global_accept,
      op_settle = (\<lambda>_. global_settle), op_adjust = global_adjust sizer\<rparr>"

lemma global_ops_simps:
  "op_cost (global_ops sizer) = (\<lambda>c. c)" "op_side (global_ops sizer) = (\<lambda>_. 0)"
  by (simp_all add: global_ops_def)

definition global_total :: "'b global_recv \<Rightarrow> nat" where
  "global_total r = unat (gm_total (snd r))"

definition global_used :: "'b global_recv \<Rightarrow> nat" where
  "global_used r = unat (gm_used (snd r))"

definition global_pending :: "'b global_recv \<Rightarrow> nat" where
  "global_pending r = unat (gm_to_return (snd r))"

definition monitor_ok :: "global_monitor \<Rightarrow> bool" where
  "monitor_ok m \<longleftrightarrow>
     0 < gm_return_threshold m \<and> gm_return_threshold m \<le> gm_total m \<and>
     (gm_return_threshold m \<le> gm_to_return m \<longrightarrow> gm_notified m)"

lemma adjust_total_ok:
  assumes "unat (gm_to_return m) \<le> unat (gm_total m)" "adjust_total target m = (changed, tot, ret)"
  shows "unat tot + unat (gm_to_return m) = unat (gm_total m) + unat ret"
    "target \<le> tot" "changed = (tot \<noteq> gm_total m)" "changed \<or> tot = target \<or> ret = 0"
proof -
  consider (more) "gm_total m < target" | (less) "target < gm_total m" | (same) "target = gm_total m"
    by force
  then have "unat tot + unat (gm_to_return m) = unat (gm_total m) + unat ret \<and> target \<le> tot \<and>
      changed = (tot \<noteq> gm_total m) \<and> (changed \<or> tot = target \<or> ret = 0)"
  proof cases
    case more
    then have lt: "unat (gm_total m) < unat target"
      by (simp add: word_less_nat_alt)
    have sub: "unat (target - gm_total m) = unat target - unat (gm_total m)"
      using more by (simp add: unat_sub_u32)
    then have "unat (gm_to_return m) + unat (target - gm_total m) \<le> unat target"
      using lt assms(1) by simp
    then have "unat (gm_to_return m + (target - gm_total m)) =
        unat (gm_to_return m) + unat (target - gm_total m)"
      by (intro unat_add_u32 le_less_trans [OF _ u32_unat_less])
    with more assms(2) sub lt show ?thesis
      by (auto simp: adjust_total_def)
  next
    case less
    then have lt: "unat target < unat (gm_total m)"
      by (simp add: word_less_nat_alt)
    define removed where "removed = min (gm_total m - target) (gm_to_return m)"
    have rem: "unat removed = min (unat (gm_total m) - unat target) (unat (gm_to_return m))"
      using less by (simp add: removed_def unat_min_u32 unat_sub_u32)
    have le: "removed \<le> gm_total m" "removed \<le> gm_to_return m"
      using rem lt by (simp_all add: word_le_nat_alt)
    have sub: "unat (gm_total m - removed) = unat (gm_total m) - unat removed"
      "unat (gm_to_return m - removed) = unat (gm_to_return m) - unat removed"
      using le by (simp_all add: unat_sub_u32)
    have res: "(changed, tot, ret) =
        (if removed > 0 then (True, gm_total m - removed, gm_to_return m - removed)
         else (False, gm_total m, gm_to_return m - removed))"
      using less not_less_iff_gr_or_eq [of "gm_total m" target]
      unfolding assms(2) [symmetric] by (simp add: adjust_total_def removed_def [symmetric] Let_def)
    show ?thesis
    proof (cases "removed = 0")
      case True
      then have "gm_to_return m = 0"
        using rem lt by (simp add: unat_eq_zero min_def split: if_splits)
      with True res less show ?thesis by simp
    next
      case False
      then have "unat removed \<noteq> 0"
        by (simp add: unat_eq_zero)
      moreover have "unat removed \<le> unat (gm_total m) - unat target"
        "unat removed \<le> unat (gm_to_return m)"
        unfolding rem by simp_all
      moreover have "(changed, tot, ret) = (True, gm_total m - removed, gm_to_return m - removed)"
        using res False by (simp add: word_greater_zero_iff)
      ultimately show ?thesis
        using sub lt assms(1) False by (auto simp: word_le_nat_alt)
    qed
  next
    case same
    with assms(2) show ?thesis
      by (auto simp: adjust_total_def)
  qed
  then show "unat tot + unat (gm_to_return m) = unat (gm_total m) + unat ret"
    "target \<le> tot" "changed = (tot \<noteq> gm_total m)" "changed \<or> tot = target \<or> ret = 0"
    by auto
qed

lemma return_to_remote_ok:
  assumes "valid_size target" "unat (gm_to_return m) \<le> unat (gm_total m)"
  shows "\<exists>gc m'. return_to_remote target m = Ret (gc, m') \<and> gm_used m' = gm_used m \<and>
     0 < gm_return_threshold m' \<and> gm_return_threshold m' \<le> gm_total m' \<and>
     gm_to_return m' < gm_return_threshold m' \<and>
     unat (gm_total m') + unat (gm_to_return m) =
       unat (gm_total m) + unat (gm_to_return m') +
       u32_sum (case gc of None \<Rightarrow> [] | Some g \<Rightarrow> [gc_credits g])"
proof -
  obtain changed tot ret where adj: "adjust_total (bs_size target) m = (changed, tot, ret)"
    using prod_cases3 by blast
  note a = adjust_total_ok [OF assms(2) adj]
  have v: "0 < bs_return_threshold target" "bs_return_threshold target \<le> bs_size target"
    using assms(1) by (simp_all add: valid_size_def)
  have le: "bs_return_threshold target \<le> tot"
    using v(2) a(2) by (rule order_trans)
  define send where "send = (changed \<or> bs_force_return target \<or> ret \<ge> bs_return_threshold target)"
  have "return_to_remote target m =
      Ret (if changed \<or> (send \<and> ret > 0)
           then Some \<lparr>gc_credits = (if send then ret else 0),
                      gc_seq = (if changed then gm_seq m + 1 else gm_seq m)\<rparr> else None,
           m\<lparr>gm_to_return := (if send then 0 else ret), gm_total := tot,
             gm_seq := (if changed then gm_seq m + 1 else gm_seq m),
             gm_return_threshold := bs_return_threshold target\<rparr>)"
    using adj v a(3) by (cases m) (auto simp: return_to_remote_def Let_def send_def)
  then show ?thesis
    using v le a(1,3) by (auto simp: send_def word_greater_zero_iff not_le)
qed

lemma global_accept_ok:
  assumes "monitor_ok m" "unat (gm_used m) + unat c \<le> unat (gm_total m)"
  shows "\<exists>m'. global_accept c (b, m) = Some (b, m') \<and> monitor_ok m' \<and> gm_total m' = gm_total m \<and>
     gm_to_return m' = gm_to_return m \<and> unat (gm_used m') = unat (gm_used m) + unat c"
proof -
  have lt: "unat (gm_used m) + unat c < 4294967296"
    using assms(2) by (rule le_less_trans [OF _ u32_unat_less])
  then have "checked_add (gm_used m) c = Some (gm_used m + c)"
    "unat (gm_used m + c) = unat (gm_used m) + unat c"
    by (simp_all add: checked_add_Some unat_add_u32)
  with assms show ?thesis
    by (simp add: global_accept_def global_use_credits_def Let_def monitor_ok_def word_le_nat_alt)
qed

lemma global_settle_ok:
  assumes "monitor_ok m" "unat (gm_used m) + unat (gm_to_return m) \<le> unat (gm_total m)"
    "unat c \<le> unat (gm_used m)"
  shows "\<exists>m'. global_settle c (b, m) = Some ((b, m'), []) \<and> monitor_ok m' \<and> gm_total m' = gm_total m \<and>
     unat (gm_to_return m') = unat (gm_to_return m) + unat c \<and>
     unat (gm_used m') = unat (gm_used m) - unat c"
proof -
  have "unat (gm_to_return m) + unat c < 4294967296"
    using assms(2,3) by (intro le_less_trans [OF _ u32_unat_less [of "gm_total m"]]) simp
  then have "checked_add (gm_to_return m) c = Some (gm_to_return m + c)"
    "unat (gm_to_return m + c) = unat (gm_to_return m) + unat c"
    by (simp_all add: checked_add_Some unat_add_u32)
  moreover have "unat (gm_used m - c) = unat (gm_used m) - unat c"
    using assms(3) by (simp add: unat_sub_u32 word_le_nat_alt)
  ultimately show ?thesis
    using assms(1)
    by (cases "c = 0")
      (auto simp: global_settle_def return_credits_def Let_def monitor_ok_def word_greater_zero_iff)
qed

lemma global_adjust_ok:
  assumes "sizer b (sizer_query m' report) = Some (b', target)" "valid_size target"
    "m' = (case wait_for_returnable m of None \<Rightarrow> m | Some m' \<Rightarrow> m')"
    "unat (gm_to_return m) \<le> unat (gm_total m)"
  shows "\<exists>m'' out. global_adjust sizer report (b, m) = Some ((b', m''), out) \<and> monitor_ok m'' \<and>
     gm_used m'' = gm_used m \<and>
     unat (gm_total m'') + unat (gm_to_return m) =
       unat (gm_total m) + unat (gm_to_return m'') + u32_sum out"
proof -
  have same: "gm_to_return m' = gm_to_return m" "gm_total m' = gm_total m" "gm_used m' = gm_used m"
    by (auto simp: assms(3) wait_for_returnable_def)
  from return_to_remote_ok [OF assms(2), of m'] assms(4) obtain gc m'' where
    "return_to_remote target m' = Ret (gc, m'')" "gm_used m'' = gm_used m'"
    "0 < gm_return_threshold m''" "gm_return_threshold m'' \<le> gm_total m''"
    "gm_to_return m'' < gm_return_threshold m''"
    "unat (gm_total m'') + unat (gm_to_return m') =
       unat (gm_total m') + unat (gm_to_return m'') +
       u32_sum (case gc of None \<Rightarrow> [] | Some g \<Rightarrow> [gc_credits g])"
    unfolding same by blast
  then show ?thesis
    using assms(1) same
    by (auto simp: global_adjust_def Let_def assms(3) [symmetric] return_to_remote_sized_def
        monitor_ok_def)
qed

section \<open>The monitor with a sizer\<close>

locale sized_monitor = buffer_sizer initial size_of ready running
  for initial :: "'b \<Rightarrow> ('b \<times> buffer_size) option"
    and size_of :: "'b \<Rightarrow> buffer_query \<Rightarrow> ('b \<times> buffer_size) option"
    and ready :: "'b \<Rightarrow> bool"
    and running :: "'b \<Rightarrow> bool"
begin

definition sized_ok :: "'b global_recv \<Rightarrow> bool" where
  "sized_ok r \<longleftrightarrow> running (fst r) \<and> monitor_ok (snd r)"

lemma sized_receiver:
  "credit_receiver (global_ops size_of) global_total global_used global_pending (\<lambda>_. 0) sized_ok (\<lambda>_. True)"
proof
  show "global_total r < 2 ^ 32" if "sized_ok r" for r :: "'b global_recv"
    by (simp add: global_total_def)
next
  fix r :: "'b global_recv" and c :: u32
  obtain b m where r: "r = (b, m)" by fastforce
  assume "sized_ok r" "global_used r + unat (op_cost (global_ops size_of) c) \<le> global_total r"
  with global_accept_ok [of m c b]
  show "\<exists>r'. op_accept (global_ops size_of) c r = Some r' \<and> sized_ok r' \<and>
      global_total r' = global_total r \<and> global_pending r' = global_pending r \<and>
      global_used r' = global_used r + unat (op_cost (global_ops size_of) c) \<and>
      0 = 0 + op_side (global_ops size_of) c"
    by (auto simp: r global_ops_def sized_ok_def global_total_def global_used_def global_pending_def)
next
  fix r :: "'b global_recv" and c :: u32 and e :: credits_report
  obtain b m where r: "r = (b, m)" by fastforce
  assume "sized_ok r" "global_used r + global_pending r \<le> global_total r"
    "unat (op_cost (global_ops size_of) c) \<le> global_used r"
  with global_settle_ok [of m c b]
  show "\<exists>r' out. op_settle (global_ops size_of) e c r = Some (r', out) \<and> sized_ok r' \<and>
      global_total r' = global_total r \<and>
      global_pending r' + u32_sum out = global_pending r + unat (op_cost (global_ops size_of) c) \<and>
      global_used r' = global_used r - unat (op_cost (global_ops size_of) c) \<and>
      0 = 0 - op_side (global_ops size_of) c"
    by (auto simp: r global_ops_def sized_ok_def global_total_def global_used_def global_pending_def)
next
  fix r :: "'b global_recv" and e :: credits_report
  obtain b m where r: "r = (b, m)" by fastforce
  define m' where "m' = (case wait_for_returnable m of None \<Rightarrow> m | Some m' \<Rightarrow> m')"
  assume ok: "sized_ok r" and le: "global_used r + global_pending r \<le> global_total r"
  obtain b' target where t: "size_of b (sizer_query m' e) = Some (b', target)" "running b'"
    "valid_size target"
    using size_runs [of b "sizer_query m' e"] ok by (auto simp: r sized_ok_def)
  have "unat (gm_to_return m) \<le> unat (gm_total m)"
    using le by (simp add: r global_used_def global_pending_def global_total_def)
  from global_adjust_ok [of size_of b m' e b' target m, OF t(1,3) m'_def this] t(2)
  show "\<exists>r' out. op_adjust (global_ops size_of) e r = Some (r', out) \<and> sized_ok r' \<and>
      global_used r' = global_used r \<and> 0 = 0 \<and>
      global_total r' + global_pending r = global_total r + global_pending r' + u32_sum out"
    by (fastforce simp: r global_ops_def sized_ok_def global_total_def global_used_def global_pending_def)
qed

end

sublocale sized_monitor \<subseteq> global: credit_receiver
  "global_ops size_of" global_total global_used global_pending "\<lambda>_. 0" sized_ok "\<lambda>_. True"
  by (rule sized_receiver)

text \<open>The state of the loop after the sizer has given its initial size, which the remote
  endpoint learns in the Hello message.\<close>

definition global_loop_start :: "'b \<Rightarrow> buffer_size \<Rightarrow> (u32, 'b global_recv) loop" where
  "global_loop_start b initial =
     loop_start GlobalPool (bs_size initial) (b, new_global_monitor initial)"

context sized_monitor
begin

lemma started:
  assumes "ready b"
  shows "\<exists>b' s. initial b = Some (b', s) \<and> global.loop_inv (global_loop_start b' s)"
proof -
  obtain b' s where "initial b = Some (b', s)" "running b'" "valid_size s"
    using initial_runs [OF assms] by blast
  then show ?thesis
    by (auto intro!: exI global.loop_start_inv simp: global_loop_start_def sized_ok_def monitor_ok_def
        new_global_monitor_def global_total_def global_used_def global_pending_def valid_size_def)
qed

lemma conserved:
  assumes "ready b" "initial b = Some (b', s)"
  shows "\<exists>w. loop_run (global_ops size_of) acts (global_loop_start b' s) = Ret w \<and>
     unat (cs_credits (cp_store (lp_provider w))) + mixed_sum (lp_assigned w) + u32_sum (lp_data w) +
       global_used (lp_receiver w) + global_pending (lp_receiver w) + u32_sum (lp_returns w) =
       global_total (lp_receiver w) \<and>
     global_used (lp_receiver w) = u32_sum (lp_received w)"
proof -
  have "global.loop_inv (global_loop_start b' s)"
    using started [OF assms(1)] assms(2) by auto
  then obtain w where "loop_run (global_ops size_of) acts (global_loop_start b' s) = Ret w"
    "global.loop_inv w"
    using global.loop_run_inv by blast
  then show ?thesis
    by (auto simp: global.loop_inv_def global_ops_simps u32_sum_def)
qed

lemma not_stuck:
  assumes "ready b" "initial b = Some (b', s)"
    "loop_run (global_ops size_of) acts (global_loop_start b' s) = Ret w"
    "lp_assigned w = []" "lp_data w = []" "lp_received w = []" "lp_returns w = []"
  shows "0 < cs_credits (cp_store (lp_provider w)) \<or> gm_notified (snd (lp_receiver w))"
proof -
  have "global.loop_inv (global_loop_start b' s)"
    using started [OF assms(1)] assms(2) by auto
  then have inv: "global.loop_inv w"
    using global.loop_run_inv [of "global_loop_start b' s" acts] assms(3) by auto
  define m where "m = snd (lp_receiver w)"
  have "unat (cs_credits (cp_store (lp_provider w))) + unat (gm_to_return m) = unat (gm_total m)"
    using inv assms by (auto simp: global.loop_inv_def global_total_def global_pending_def m_def)
  moreover have "gm_return_threshold m \<le> gm_total m"
    "gm_return_threshold m \<le> gm_to_return m \<longrightarrow> gm_notified m"
    using inv by (simp_all add: global.loop_inv_def sized_ok_def monitor_ok_def m_def)
  ultimately show ?thesis
    by (auto simp: m_def [symmetric] word_le_nat_alt word_less_nat_alt)
qed

end

interpretation fixed_monitor: sized_monitor
  "\<lambda>b. Some (fixed_initial b)" "\<lambda>b q. Some (fixed_size b q)" valid_size valid_size
  by unfold_locales

interpretation dynamic_monitor: sized_monitor dynamic_initial dynamic_size dynamic_ready dynamic_running
  by unfold_locales


text \<open>C7: Global credits are conserved with a dynamic receive buffer. For positive limits in
  order, any reports of the remote endpoint and any interleaving of taking, spending, dropping,
  receiving, consuming and returning credits and of growing and shrinking the buffer: nothing
  panics, no protocol error is reported, and all credits together always make up the current
  size of the buffer. In particular the removal of credits never takes back credits the sender
  still has, and neither the total nor any counter overflows.\<close>

theorem dynamic_credits_conserved:
  assumes "0 < mn" "dynamic_new mn mx = Some b" "dynamic_initial b = Some (b', s)"
  shows "\<exists>w. loop_run (global_ops dynamic_size) acts (global_loop_start b' s) = Ret w \<and>
     unat (cs_credits (cp_store (lp_provider w))) + mixed_sum (lp_assigned w) + u32_sum (lp_data w) +
       global_used (lp_receiver w) + global_pending (lp_receiver w) + u32_sum (lp_returns w) =
       global_total (lp_receiver w) \<and>
     global_used (lp_receiver w) = u32_sum (lp_received w)"
proof -
  have "dynamic_ready b"
    using assms(1,2) by (auto simp: dynamic_new_def dynamic_ready_def dynamic_config_def split: if_splits)
  then show ?thesis
    using assms(3) by (rule dynamic_monitor.conserved)
qed

definition example_dynamic :: dynamic_buffer where
  "example_dynamic = the (dynamic_new 65536 1048576)"

definition example_dynamic_start :: "dynamic_buffer \<times> buffer_size" where
  "example_dynamic_start = the (dynamic_initial example_dynamic)"

lemma example_dynamic_eqs:
  "dynamic_new 65536 1048576 = Some example_dynamic"
  "dynamic_initial example_dynamic = Some (fst example_dynamic_start, snd example_dynamic_start)"
  by code_simp+

theorem dynamic_credits_conserved_witness:
  "\<exists>w. loop_run (global_ops dynamic_size) [Take 10 1, Adjust (report_initial 0)]
       (global_loop_start (fst example_dynamic_start) (snd example_dynamic_start)) = Ret w \<and>
     unat (cs_credits (cp_store (lp_provider w))) + mixed_sum (lp_assigned w) + u32_sum (lp_data w) +
       global_used (lp_receiver w) + global_pending (lp_receiver w) + u32_sum (lp_returns w) =
       global_total (lp_receiver w) \<and>
     global_used (lp_receiver w) = u32_sum (lp_received w)"
  by (rule dynamic_credits_conserved [OF _ example_dynamic_eqs]) simp

text \<open>C9: Global credits never get stuck. Once everything sent has arrived and been consumed
  and all credit messages have arrived, the sender either holds global credits or the receiver
  has been notified to return the credits it collects; for every fixed receive buffer of
  positive size.\<close>

theorem fixed_credits_not_stuck:
  assumes "0 < sz"
    "loop_run (global_ops (\<lambda>b q. Some (fixed_size b q))) acts
       (global_loop_start (fixed_new sz) (fixed_new sz)) = Ret w"
    "lp_assigned w = []" "lp_data w = []" "lp_received w = []" "lp_returns w = []"
  shows "0 < cs_credits (cp_store (lp_provider w)) \<or> gm_notified (snd (lp_receiver w))"
proof (rule fixed_monitor.not_stuck [OF _ _ assms(2-6)])
  show "valid_size (fixed_new sz)"
    using assms(1) by (simp add: fixed_new_def new_buffer_size_valid)
qed (simp add: fixed_initial_def)

theorem fixed_credits_not_stuck_witness:
  "0 < cs_credits (cp_store (lp_provider
       (global_loop_start (fixed_new 100) (fixed_new 100) :: (u32, fixed_buffer global_recv) loop))) \<or>
   gm_notified (snd (lp_receiver
       (global_loop_start (fixed_new 100) (fixed_new 100) :: (u32, fixed_buffer global_recv) loop)))"
  by (rule fixed_credits_not_stuck [of 100 "[]"])
    (simp_all add: global_loop_start_def loop_start_def)

section \<open>The announced split of mixed credits\<close>

text \<open>C13: The receiver charges what the sender took. When a number of credits is taken out of
  a queue of mixed credits that holds at least that many, the credits announced in the data
  message make the receiver charge to the global and the port pool exactly what left the queue
  from each of the two, and nothing else leaves the queue.\<close>

theorem mixed_take_charged:
  assumes "unat credits \<le> mixed_sum q"
  shows "\<exists>q' dc. mixed_take credits q = Ret (q', dc) \<and>
     unat (fst (charge dc credits)) + pool_sum GlobalPool q' = pool_sum GlobalPool q \<and>
     unat (snd (charge dc credits)) + pool_sum PortPool q' = pool_sum PortPool q \<and>
     mixed_sum q' + unat credits = mixed_sum q"
proof -
  obtain q' g p where take: "mixed_take_loop credits q 0 0 = Ret (q', g, p)"
    and sums: "unat g + pool_sum GlobalPool q' = pool_sum GlobalPool q"
      "unat p + pool_sum PortPool q' = pool_sum PortPool q" "unat g + unat p = unat credits"
    using mixed_take_loop_ok [OF assms, of 0 0] by auto
  define dc where "dc = (if g = 0 then PortOnly else if p = 0 then GlobalOnly else GlobalAndPort g)"
  have "charge dc credits = (g, p)"
  proof (cases "g = 0 \<or> p = 0")
    case True
    moreover have "credits = p" if "g = 0"
      using sums(3) that by (intro unsigned_word_eqI [where ?'a = nat]) simp
    moreover have "credits = g" if "p = 0"
      using sums(3) that by (intro unsigned_word_eqI [where ?'a = nat]) simp
    ultimately show ?thesis
      by (auto simp: dc_def)
  next
    case False
    have "unat (saturating_sub credits g) = unat p"
      using sums(3) by (simp add: unat_saturating_sub)
    then show ?thesis
      using False by (simp add: dc_def unsigned_word_eqI)
  qed
  moreover have "mixed_take credits q = Ret (q', dc)"
    by (simp add: mixed_take_def take dc_def)
  ultimately show ?thesis
    using sums pool_sums [of q] pool_sums [of q'] by auto
qed

theorem mixed_take_charged_witness:
  "\<exists>q' dc. mixed_take 5 [\<lparr>ac_pool = PortPool, ac_credits = 3\<rparr>, \<lparr>ac_pool = GlobalPool, ac_credits = 9\<rparr>] =
       Ret (q', dc) \<and>
     unat (fst (charge dc 5)) + pool_sum GlobalPool q' =
       pool_sum GlobalPool [\<lparr>ac_pool = PortPool, ac_credits = 3\<rparr>, \<lparr>ac_pool = GlobalPool, ac_credits = 9\<rparr>] \<and>
     unat (snd (charge dc 5)) + pool_sum PortPool q' =
       pool_sum PortPool [\<lparr>ac_pool = PortPool, ac_credits = 3\<rparr>, \<lparr>ac_pool = GlobalPool, ac_credits = 9\<rparr>] \<and>
     mixed_sum q' + unat (5 :: u32) =
       mixed_sum [\<lparr>ac_pool = PortPool, ac_credits = 3\<rparr>, \<lparr>ac_pool = GlobalPool, ac_credits = 9\<rparr>]"
  by (rule mixed_take_charged) simp

section \<open>The permission to use global credits\<close>

text \<open>The log holds what the event loop sends to the remote endpoint about global credits, in
  order: true for allow. Its last entry is the permission as the remote endpoint has it. An act
  may be preceded by a wait for the pending tasks.\<close>

datatype perm_op = PermUse u32 u32 | PermSettle u32 u32 | PermAllow bool | PermInhibit

record perm_state =
  pst_monitor :: port_monitor
  pst_returner :: returner
  pst_log :: "bool list"

definition evt_perms :: "port_evt list \<Rightarrow> bool list" where
  "evt_perms es = concat (map (\<lambda>e. case e of ChangeGlobalCreditUsage _ b \<Rightarrow> [b] | _ \<Rightarrow> []) es)"

definition perm_drain :: "perm_state \<Rightarrow> perm_state" where
  "perm_drain s =
     (let (es, r) = ready (pst_returner s)
      in s\<lparr>pst_returner := r, pst_log := pst_log s @ evt_perms es\<rparr>)"

definition perm_step :: "side_port \<Rightarrow> (port_evt \<Rightarrow> try_result) \<Rightarrow> perm_op \<Rightarrow> perm_state \<Rightarrow> perm_state exec" where
  "perm_step port tx op s =
     (case op of
        PermUse p g \<Rightarrow>
          (case (port_use_credits p g (pst_monitor s) ::
                   ((unit, unit) chmux_error + used_port_credit) \<times> port_monitor) of
             (Inl _, _) \<Rightarrow> Panic
           | (Inr _, m) \<Rightarrow> Ret (s\<lparr>pst_monitor := m\<rparr>))
      | PermSettle p g \<Rightarrow>
          (case start_return tx \<lparr>upc_port = p, upc_global = g\<rparr> port (pst_returner s, Some (pst_monitor s)) of
             Ret (es, r, Some m) \<Rightarrow>
               Ret \<lparr>pst_monitor = m, pst_returner = r, pst_log = pst_log s @ evt_perms es\<rparr>
           | _ \<Rightarrow> Panic)
      | PermAllow b \<Rightarrow>
          (case set_global_credits_allowed tx b port (pst_returner s, Some (pst_monitor s)) of
             (es, r, Some m) \<Rightarrow>
               Ret \<lparr>pst_monitor = m, pst_returner = r, pst_log = pst_log s @ evt_perms es\<rparr>
           | _ \<Rightarrow> Panic)
      | PermInhibit \<Rightarrow>
          (let (inhibit, m) = inhibiting_global_credit_usage True (pst_monitor s)
           in Ret (s\<lparr>pst_monitor := m, pst_log := pst_log s @ (if inhibit then [False] else [])\<rparr>)))"

fun perm_run ::
  "side_port \<Rightarrow> (bool \<times> (port_evt \<Rightarrow> try_result) \<times> perm_op) list \<Rightarrow> perm_state \<Rightarrow> perm_state exec" where
  "perm_run port [] s = Ret s"
| "perm_run port ((drain, tx, op) # ops) s =
     exec_bind (perm_step port tx op (if drain then perm_drain s else s)) (perm_run port ops)"

definition perm_start :: "u32 \<Rightarrow> u32 \<Rightarrow> perm_state" where
  "perm_start lim throttle =
     \<lparr>pst_monitor = new_port_monitor lim throttle, pst_returner = new_returner, pst_log = []\<rparr>"

definition remote_permission :: "perm_state \<Rightarrow> bool" where
  "remote_permission s = last (True # pst_log s)"

definition perm_agrees :: "perm_state \<Rightarrow> bool" where
  "perm_agrees s \<longleftrightarrow>
     remote_permission (perm_drain s) = (pm_usage (pst_monitor s) \<noteq> UsageInhibited) \<and>
     (\<not> pm_global_allowed (pst_monitor s) \<longrightarrow> pm_usage (pst_monitor s) = UsageInhibited)"

lemma evt_perms_simps [simp]:
  "evt_perms [] = []"
  "evt_perms (ReturnCredits p n # es) = evt_perms es"
  "evt_perms (ChangeGlobalCreditUsage p b # es) = b # evt_perms es"
  "evt_perms (es @ es') = evt_perms es @ evt_perms es'"
  by (simp_all add: evt_perms_def)

lemma perm_drain_simps [simp]:
  "pst_monitor (perm_drain s) = pst_monitor s"
  "rt_tasks (pst_returner (perm_drain s)) = []"
  "pst_log (perm_drain s) = pst_log s @ evt_perms (rt_tasks (pst_returner s))"
  by (simp_all add: perm_drain_def)

lemma perm_agrees_drain: "perm_agrees s \<Longrightarrow> perm_agrees (perm_drain s)"
  by (simp add: perm_agrees_def remote_permission_def)

lemma perm_step_agrees:
  assumes "perm_agrees s" "rt_tasks (pst_returner s) = []" "perm_step port tx op s = Ret s'"
    "\<And>evt. tx evt \<noteq> SendClosed"
  shows "perm_agrees s'"
proof (cases op)
  case (PermUse p g)
  then show ?thesis
    using assms by (auto simp: perm_step_def perm_agrees_def remote_permission_def
        port_use_credits_def Let_def split: option.splits if_splits)
next
  case (PermSettle p g)
  then show ?thesis
    using assms(1-3) assms(4) [of "ReturnCredits port (rt_to_return (pst_returner s) + p)"]
      assms(4) [of "ChangeGlobalCreditUsage port True"]
    by (auto simp: perm_step_def perm_agrees_def remote_permission_def start_return_def Let_def
        queue_port_evt_def split: if_splits try_result.splits)
next
  case (PermAllow b)
  then show ?thesis
    using assms(1-3) assms(4) [of "ChangeGlobalCreditUsage port b"]
    by (auto simp: perm_step_def perm_agrees_def remote_permission_def set_global_credits_allowed_def
        Let_def queue_port_evt_def split: if_splits try_result.splits)
next
  case PermInhibit
  then show ?thesis
    using assms by (cases "pm_usage (pst_monitor s)") (auto simp: perm_step_def perm_agrees_def remote_permission_def
        inhibiting_global_credit_usage_def)
qed


lemma perm_run_agrees:
  "perm_agrees s \<Longrightarrow> \<forall>(drain, tx, op) \<in> set ops. drain \<and> (\<forall>evt. tx evt \<noteq> SendClosed) \<Longrightarrow>
     perm_run port ops s = Ret s' \<Longrightarrow> perm_agrees s'"
proof (induction ops arbitrary: s)
  case (Cons x ops)
  obtain tx op where x: "x = (True, tx, op)" and tx: "\<And>evt. tx evt \<noteq> SendClosed"
    using Cons.prems(2) by (cases x) auto
  obtain s1 where s1: "perm_step port tx op (perm_drain s) = Ret s1" "perm_run port ops s1 = Ret s'"
    using Cons.prems(3) by (auto simp: x exec_bind_Ret)
  have "perm_agrees s1"
    using perm_step_agrees [OF perm_agrees_drain [OF Cons.prems(1)] _ s1(1) tx] by simp
  with Cons.IH [OF _ _ s1(2)] Cons.prems(2) show ?case by simp
qed simp

lemma perm_start_agrees: "perm_agrees (perm_start lim throttle)"
  by (simp add: perm_agrees_def perm_start_def remote_permission_def new_port_monitor_def
      new_returner_def)

text \<open>C14: The remote endpoint knows whether it may use global credits. For every sequence of
  receiving data, consuming it, changing the local permission and sending inhibitions in which
  pending events reach the event loop before the next operation, the last permission sent is
  the one the monitor records, and a port whose application forbids global credits stays
  inhibited, whatever its load.\<close>

theorem permission_in_order:
  assumes "\<forall>(drain, tx, op) \<in> set ops. drain \<and> (\<forall>evt. tx evt \<noteq> SendClosed)"
    "perm_run port ops (perm_start lim throttle) = Ret s"
  shows "remote_permission (perm_drain s) = (pm_usage (pst_monitor s) \<noteq> UsageInhibited) \<and>
     (\<not> pm_global_allowed (pst_monitor s) \<longrightarrow> pm_usage (pst_monitor s) = UsageInhibited)"
  using perm_run_agrees [OF perm_start_agrees assms] by (simp add: perm_agrees_def)

definition forbid_then_use :: "(bool \<times> (port_evt \<Rightarrow> try_result) \<times> perm_op) list" where
  "forbid_then_use = [(True, \<lambda>_. SendFull, PermAllow False), (True, \<lambda>_. SendOk, PermUse 1 2)]"

definition forbidden_state :: perm_state where
  "forbidden_state =
     \<lparr>pst_monitor = (new_port_monitor 8 4)\<lparr>pm_global_allowed := False, pm_usage := UsageInhibited,
        pm_port_used := 1, pm_global_used := 2\<rparr>,
      pst_returner = new_returner, pst_log = [False]\<rparr>"

lemma forbidden_run: "perm_run (Remote 1) forbid_then_use (perm_start 8 4) = Ret forbidden_state"
  by (simp add: forbid_then_use_def perm_start_def perm_step_def perm_drain_def forbidden_state_def
      set_global_credits_allowed_def queue_port_evt_def new_returner_def new_port_monitor_def
      port_use_credits_def checked_add_def saturating_add_def Let_def)

theorem permission_in_order_witness:
  "\<not> remote_permission (perm_drain forbidden_state) \<and>
   pm_usage (pst_monitor forbidden_state) = UsageInhibited"
  using permission_in_order [OF _ forbidden_run]
  by (simp add: forbid_then_use_def) (simp add: forbidden_state_def)

text \<open>A change of the permission can overtake an earlier one. When the queue to the event
  loop is full while global credits are forbidden and has room again when they are allowed, the
  second event is sent at once and the first one, kept as a task, after it: the remote endpoint
  ends up forbidden although the monitor has the use of global credits allowed and active.\<close>

theorem permission_overtaken:
  "\<exists>s. perm_run port
         [(False, \<lambda>_. SendFull, PermAllow False), (False, \<lambda>_. SendOk, PermAllow True)]
         (perm_start 8 4) = Ret s \<and>
       pm_global_allowed (pst_monitor s) \<and> pm_usage (pst_monitor s) = UsageActive \<and>
       \<not> remote_permission (perm_drain s)"
  by (simp add: perm_start_def perm_step_def set_global_credits_allowed_def queue_port_evt_def
      new_returner_def new_port_monitor_def Let_def remote_permission_def saturating_add_def)

end
