(* ===== verification/Sender.thy ===== *)
theory Sender
  imports SendCredit
begin

text \<open>
  The sending half of a port, \<^verbatim>\<open>remoc/src/chmux/sender.rs\<close>: how a message is cut into chunks
  that fit the chunk size of the remote endpoint and the credits at hand, the chunk sender, the
  attempt to send without waiting, and the sending of ports, which first waits for their local
  numbers (\<^verbatim>\<open>ConnectReq::into_port_req\<close> of \<^verbatim>\<open>port_allocator.rs\<close>). The environment of a waiting send
  is the list of answers to its credit requests and the list of answers of the event queue;
  when one of them runs out the send is waiting, and is cancelled if it is not continued. Every
  round of a loop takes an answer of the event queue, so that the loops end with the answers;
  that they finish their work is a theorem.
\<close>

datatype pre_connect_state = PreConnected | PreAccepted | PreRejected bool

fun is_decided :: "pre_connect_state \<Rightarrow> bool" where
  "is_decided PreConnected = False"
| "is_decided _ = True"

record sender =
  sd_local_port :: side_port
  sd_remote_port :: side_port
  sd_chunk_size :: nat
  sd_max_data_size :: nat
  sd_all_received_supported :: bool
  sd_pre_connected :: "pre_connect_state option"

text \<open>The watch of a pre-connected port as the sender finds it once it has been decided; an
  undecided state stands for a watch whose other end is gone.\<close>

definition handle_pre_connect_result :: "sender \<Rightarrow> send_error + 'a \<Rightarrow> send_error + 'a" where
  "handle_pre_connect_result sd res =
     (case res of
        Inr x \<Rightarrow> Inr x
      | Inl err \<Rightarrow>
          (case sd_pre_connected sd of
             None \<Rightarrow> Inl err
           | Some PreConnected \<Rightarrow> Inl err
           | Some PreAccepted \<Rightarrow> Inl err
           | Some (PreRejected no_ports) \<Rightarrow> Inl (RejectedErr no_ports)))"

datatype send_end = AllSent | SendFailed send_error | SendWaiting | SendPanic

text \<open>The environment of a send: answers to credit requests, answers of the event queue.\<close>

record send_env =
  se_grants :: "(send_error + mixed_credits) list"
  se_queue :: "bool list"

text \<open>Sending one event: the events so far, or how the send ends.\<close>

definition send_evt ::
  "port_evt \<Rightarrow> port_evt list \<Rightarrow> send_env \<Rightarrow> send_end + (port_evt list \<times> send_env)" where
  "send_evt msg sent env =
     (case se_queue env of
        [] \<Rightarrow> Inl SendWaiting
      | False # _ \<Rightarrow> Inl (SendFailed ChMux)
      | True # rest \<Rightarrow> Inr (sent @ [msg], env\<lparr>se_queue := rest\<rparr>))"

definition request_credits :: "send_env \<Rightarrow> send_end + (mixed_credits \<times> send_env)" where
  "request_credits env =
     (case se_grants env of
        [] \<Rightarrow> Inl SendWaiting
      | Inl err # _ \<Rightarrow> Inl (SendFailed err)
      | Inr q # rest \<Rightarrow> Inr (q, env\<lparr>se_grants := rest\<rparr>))"

definition chunk_len :: "sender \<Rightarrow> bytes \<Rightarrow> mixed_credits \<Rightarrow> nat" where
  "chunk_len sd data q = min (min (length data) (sd_chunk_size sd)) (unat (mixed_available q))"

record send_state =
  ss_acc :: "port_evt list"
  ss_credits :: mixed_credits
  ss_first :: bool
  ss_env :: send_env

text \<open>Cutting the next chunk off nonempty data and sending it. \<open>finish\<close> tells whether the
  last chunk of the data is the last of the message.\<close>

definition send_chunk ::
  "sender \<Rightarrow> bool \<Rightarrow> bytes \<Rightarrow> send_state \<Rightarrow> (send_end \<times> send_state) + (bytes \<times> send_state)" where
  "send_chunk sd finish data s =
     (case (if ss_credits s = [] then request_credits (ss_env s) else Inr (ss_credits s, ss_env s)) of
        Inl e \<Rightarrow> Inl (e, s)
      | Inr (q, env) \<Rightarrow>
          (let at = chunk_len sd data q;
               chunk = take at data; rest = drop at data
           in case mixed_take (word_of_nat at) q of
                Panic \<Rightarrow> Inl (SendPanic, s\<lparr>ss_credits := q, ss_env := env\<rparr>)
              | Ret (q, credits) \<Rightarrow>
                  (let msg = SendData (sd_remote_port sd) chunk (ss_first s) (rest = [] \<and> finish) credits
                   in case send_evt msg (ss_acc s) env of
                        Inl e \<Rightarrow> Inl (e, s\<lparr>ss_credits := q, ss_env := env\<rparr>)
                      | Inr (sent, env) \<Rightarrow>
                          Inr (rest, \<lparr>ss_acc = sent, ss_credits = q, ss_first = False, ss_env = env\<rparr>))))"

lemma send_chunk_queue:
  assumes "send_chunk sd finish data s = Inr (rest, s')"
  shows "length (se_queue (ss_env s')) < length (se_queue (ss_env s))"
  using assms
  by (auto simp: send_chunk_def send_evt_def request_credits_def Let_def
      split: sum.splits list.splits exec.splits if_splits bool.splits)

function send_loop ::
  "sender \<Rightarrow> bool \<Rightarrow> bytes \<Rightarrow> send_state \<Rightarrow> send_end \<times> send_state" where
  "send_loop sd finish data s =
     (if data = [] then (AllSent, s)
      else case send_chunk sd finish data s of
        Inl r \<Rightarrow> r
      | Inr (rest, s') \<Rightarrow> send_loop sd finish rest s')"
  by pat_completeness auto

termination send_loop
  by (relation "measure (\<lambda>(sd, finish, data, s). length (se_queue (ss_env s)))")
    (auto dest: send_chunk_queue)

declare send_loop.simps [simp del]

text \<open>An empty chunk costs one credit.\<close>

definition send_empty :: "sender \<Rightarrow> bool \<Rightarrow> send_state \<Rightarrow> send_end \<times> send_state" where
  "send_empty sd finish s =
     (case (if ss_credits s = [] then request_credits (ss_env s) else Inr (ss_credits s, ss_env s)) of
        Inl e \<Rightarrow> (e, s)
      | Inr (q, env) \<Rightarrow>
          (case mixed_take 1 q of
             Panic \<Rightarrow> (SendPanic, s\<lparr>ss_credits := q, ss_env := env\<rparr>)
           | Ret (q, credits) \<Rightarrow>
               (case send_evt (SendData (sd_remote_port sd) [] (ss_first s) finish credits) (ss_acc s) env of
                  Inl e \<Rightarrow> (e, s\<lparr>ss_credits := q, ss_env := env\<rparr>)
                | Inr (sent, env) \<Rightarrow>
                    (AllSent, \<lparr>ss_acc = sent, ss_credits = q, ss_first = False, ss_env = env\<rparr>))))"

definition start_sending :: "send_env \<Rightarrow> send_state" where
  "start_sending env = \<lparr>ss_acc = [], ss_credits = [], ss_first = True, ss_env = env\<rparr>"

definition do_send :: "sender \<Rightarrow> bytes \<Rightarrow> send_env \<Rightarrow> send_end \<times> send_state" where
  "do_send sd data env =
     (if data = [] then send_empty sd True (start_sending env)
      else send_loop sd True data (start_sending env))"

text \<open>The chunk sender keeps its credits and whether its message has begun between calls.\<close>

definition do_send_int ::
  "sender \<Rightarrow> bytes \<Rightarrow> bool \<Rightarrow> send_state \<Rightarrow> send_end \<times> send_state" where
  "do_send_int sd data finish s =
     (if data = [] then send_empty sd finish s else send_loop sd finish data s)"

text \<open>A whole message through a chunk sender: every chunk but the last with \<^verbatim>\<open>send\<close>, the last
  with \<^verbatim>\<open>send_final\<close> (\<^verbatim>\<open>finish\<close> is \<^verbatim>\<open>send_final\<close> of no data).\<close>

fun send_all_chunks ::
  "sender \<Rightarrow> bytes list \<Rightarrow> send_state \<Rightarrow> send_end \<times> send_state" where
  "send_all_chunks sd [] s = do_send_int sd [] True s"
| "send_all_chunks sd [chunk] s = do_send_int sd chunk True s"
| "send_all_chunks sd (chunk # chunks) s =
     (let (e, s') = do_send_int sd chunk False s
      in if e = AllSent then send_all_chunks sd chunks s' else (e, s'))"

section \<open>Sending without waiting\<close>

fun try_send_loop ::
  "sender \<Rightarrow> bytes \<Rightarrow> bool \<Rightarrow> mixed_credits \<Rightarrow> try_result list \<Rightarrow> port_evt list \<Rightarrow>
     (try_send_error + unit) exec \<times> mixed_credits \<times> port_evt list" where
  "try_send_loop sd data first q queue sent =
     (if data = [] then (Ret (Inr ()), q, sent)
      else
        (let at = min (length data) (sd_chunk_size sd);
             chunk = take at data; rest = drop at data
         in case mixed_take (word_of_nat at) q of
              Panic \<Rightarrow> (Panic, q, sent)
            | Ret (q', credits) \<Rightarrow>
                (let msg = SendData (sd_remote_port sd) chunk first (rest = []) credits
                 in case queue of
                      SendOk # queue' \<Rightarrow> try_send_loop sd rest False q' queue' (sent @ [msg])
                    | SendFull # _ \<Rightarrow> (Ret (Inl Full), q', sent)
                    | _ \<Rightarrow> (Ret (Inl (Send ChMux)), q', sent))))"

declare try_send_loop.simps [simp del]

definition do_try_send ::
  "sender \<Rightarrow> mixed_user \<Rightarrow> bytes \<Rightarrow> stores \<Rightarrow> try_result list \<Rightarrow>
     (try_send_error + unit) exec \<times> stores \<times> port_evt list" where
  "do_try_send sd mu data st queue =
     (let req = (if data = [] then 1 else if length data < 2 ^ 32 then word_of_nat (length data) else - 1)
      in case mixed_try_request mu req req st of
           Panic \<Rightarrow> (Panic, st, [])
         | Ret (Inl e, st) \<Rightarrow> (Ret (Inl (Send e)), st, [])
         | Ret (Inr None, st) \<Rightarrow> (Ret (Inl Full), st, [])
         | Ret (Inr (Some q), st) \<Rightarrow>
             if data = []
             then (case mixed_take 1 q of
                     Panic \<Rightarrow> (Panic, st, [])
                   | Ret (q, credits) \<Rightarrow>
                       (let st = drop_mixed q st;
                            msg = SendData (sd_remote_port sd) [] True True credits
                        in case queue of
                             SendOk # _ \<Rightarrow> (Ret (Inr ()), st, [msg])
                           | SendFull # _ \<Rightarrow> (Ret (Inl Full), st, [])
                           | _ \<Rightarrow> (Ret (Inl (Send ChMux)), st, [])))
             else (case try_send_loop sd data True q queue [] of
                     (r, q, sent) \<Rightarrow> (r, drop_mixed q st, sent)))"

section \<open>Sending ports\<close>

text \<open>Ports are paid for with port credits only, four for each.\<close>

type_synonym port_reply = "port_req \<times> reply_id"

text \<open>The environment of \<^verbatim>\<open>connect\<close>: what is done when the local ports are exhausted, and for each
  request the states its tries find the allocator in and whether its timeout fires after them;
  answers to credit requests, and answers of the event queue.\<close>

record connect_env =
  ce_policy :: on_ports_exhausted
  ce_tries :: "(port_alloc list \<times> bool) list"
  ce_grants :: "(send_error + assigned_credits) list"
  ce_queue :: "bool list"

text \<open>\<^verbatim>\<open>ConnectReq::into_port_req\<close>, and the first loop of \<^verbatim>\<open>do_connect\<close>: every request obtains its
  local port before any of them is sent. \<open>AllSent\<close> is that all have.\<close>

definition into_port_req ::
  "on_ports_exhausted \<Rightarrow> port_req \<Rightarrow> port_alloc list \<times> bool \<Rightarrow> bool exec option" where
  "into_port_req policy req tries =
     (if pr_wait req then pre_allocate_port policy (snd tries) (pr_port req) (fst tries)
      else pre_try_once (pr_port req) (fst tries))"

fun obtain_ports ::
  "on_ports_exhausted \<Rightarrow> port_reply list \<Rightarrow> (port_alloc list \<times> bool) list \<Rightarrow> send_end" where
  "obtain_ports policy [] tries = AllSent"
| "obtain_ports policy ((req, response_tx) # ports) [] = SendWaiting"
| "obtain_ports policy ((req, response_tx) # ports) (t # tries) =
     (case into_port_req policy req t of
        None \<Rightarrow> SendWaiting
      | Some Panic \<Rightarrow> SendPanic
      | Some (Ret False) \<Rightarrow> SendFailed LocalPortsExhausted
      | Some (Ret True) \<Rightarrow> obtain_ports policy ports tries)"

definition connect_chunk ::
  "sender \<Rightarrow> port_reply list \<Rightarrow> bool \<Rightarrow> assigned_credits \<Rightarrow> connect_env \<Rightarrow> port_evt list \<Rightarrow>
     (send_end \<times> port_evt list) +
     (port_reply list \<times> assigned_credits \<times> connect_env \<times> port_evt list)" where
  "connect_chunk sd ports first ac env sent =
     (case (if ac_credits ac = 0
            then (case ce_grants env of
                    [] \<Rightarrow> Inl SendWaiting
                  | Inl err # _ \<Rightarrow> Inl (SendFailed err)
                  | Inr ac # rest \<Rightarrow> Inr (ac, env\<lparr>ce_grants := rest\<rparr>))
            else Inr (ac, env)) of
        Inl e \<Rightarrow> Inl (e, sent)
      | Inr (ac, env) \<Rightarrow>
          (let max_ports = min (sd_chunk_size sd) (unat (ac_credits ac)) div 4;
               next = (if length ports > max_ports then drop max_ports ports else []);
               now = (if length ports > max_ports then take max_ports ports else ports)
           in case ac_take (word_of_nat (length now * 4)) ac of
                Panic \<Rightarrow> Inl (SendPanic, sent)
              | Ret ac \<Rightarrow>
                  (let msg = SendPorts (sd_remote_port sd) first (next = []) now
                   in case ce_queue env of
                        [] \<Rightarrow> Inl (SendWaiting, sent)
                      | False # _ \<Rightarrow> Inl (SendFailed ChMux, sent)
                      | True # rest \<Rightarrow> Inr (next, ac, env\<lparr>ce_queue := rest\<rparr>, sent @ [msg]))))"

lemma connect_chunk_queue:
  assumes "connect_chunk sd ports first ac env sent = Inr (next, ac', env', sent')"
  shows "length (ce_queue env') < length (ce_queue env)"
  using assms
  by (auto simp: connect_chunk_def Let_def
      split: sum.splits list.splits exec.splits if_splits bool.splits)

function connect_loop ::
  "sender \<Rightarrow> port_reply list \<Rightarrow> bool \<Rightarrow> assigned_credits \<Rightarrow> connect_env \<Rightarrow> port_evt list \<Rightarrow>
     send_end \<times> port_evt list" where
  "connect_loop sd ports first ac env sent =
     (if ports = [] then (AllSent, sent)
      else case connect_chunk sd ports first ac env sent of
        Inl r \<Rightarrow> r
      | Inr (next, ac', env', sent') \<Rightarrow> connect_loop sd next False ac' env' sent')"
  by pat_completeness auto

termination connect_loop
  by (relation "measure (\<lambda>(sd, ports, first, ac, env, sent). length (ce_queue env))")
    (auto dest: connect_chunk_queue)

declare connect_loop.simps [simp del]

definition do_connect :: "sender \<Rightarrow> port_reply list \<Rightarrow> connect_env \<Rightarrow> send_end \<times> port_evt list" where
  "do_connect sd ports env =
     (case obtain_ports (ce_policy env) ports (ce_tries env) of
        AllSent \<Rightarrow> connect_loop sd ports True (ac_empty PortPool) env []
      | e \<Rightarrow> (e, []))"

lemma do_connect_sent:
  "do_connect sd ports env = (AllSent, evts) \<Longrightarrow>
     connect_loop sd ports True (ac_empty PortPool) env [] = (AllSent, evts)"
  by (simp add: do_connect_def split: send_end.splits)

end
