(* ===== verification/Receiver.thy ===== *)
theory Receiver
  imports Sender RecvCredit
begin

text \<open>
  The receiving half of a port, \<^verbatim>\<open>remoc/src/chmux/receiver.rs\<close>: the buffer that assembles the
  chunks of a message, and the operations \<^verbatim>\<open>recv_any\<close>, \<^verbatim>\<open>recv_chunk\<close>, \<^verbatim>\<open>recv\<close> and
  \<^verbatim>\<open>discard_chunks\<close> over the queue of messages the multiplexer has delivered. An operation
  runs until it returns or finds the queue empty and waits; the state it leaves is the one a
  cancelled call leaves, too. The calls into the credit returner and the release of global
  credits are recorded in order.
\<close>

section \<open>Messages and buffers\<close>

record received_data =
  rd_buf :: bytes
  rd_first :: bool
  rd_last :: bool
  rd_port_credit :: used_port_credit
  rd_global_credit :: u32

record 'q received_port_requests =
  rq_requests :: "'q list"
  rq_first :: bool
  rq_last :: bool
  rq_credit :: used_port_credit

datatype 'q port_receive_msg =
    DataMsg received_data
  | PortRequestsMsg "'q received_port_requests"
  | RequestReportMsg
  | FinishedMsg

record data_buf =
  bf_bufs :: "bytes list"
  bf_remaining :: nat

definition buf_new :: data_buf where
  "buf_new = \<lparr>bf_bufs = [], bf_remaining = 0\<rparr>"

definition usize_max :: nat where
  "usize_max = 2 ^ 64 - 1"

text \<open>\<open>None\<close> gives the buffer back to the caller.\<close>

definition try_push :: "data_buf \<Rightarrow> bytes \<Rightarrow> nat \<Rightarrow> data_buf option" where
  "try_push b buf max_size =
     (let new_size = bf_remaining b + length buf
      in if new_size \<le> usize_max \<and> new_size \<le> max_size
         then Some \<lparr>bf_bufs = bf_bufs b @ [buf], bf_remaining = new_size\<rparr> else None)"

definition buf_chunk :: "data_buf \<Rightarrow> bytes" where
  "buf_chunk b = (case bf_bufs b of [] \<Rightarrow> [] | buf # _ \<Rightarrow> buf)"

fun advance_bufs :: "bytes list \<Rightarrow> nat \<Rightarrow> nat \<Rightarrow> (bytes list \<times> nat) exec" where
  "advance_bufs [] remaining cnt = (if cnt = 0 then Ret ([], remaining) else Panic)"
| "advance_bufs (buf # bufs) remaining cnt =
     (if cnt = 0 then Ret (buf # bufs, remaining)
      else if length buf > cnt then Ret (drop cnt buf # bufs, remaining - cnt)
      else advance_bufs bufs (remaining - length buf) (cnt - length buf))"

definition advance :: "data_buf \<Rightarrow> nat \<Rightarrow> data_buf exec" where
  "advance b cnt =
     exec_bind (advance_bufs (bf_bufs b) (bf_remaining b) cnt) (\<lambda>(bufs, remaining).
       Ret \<lparr>bf_bufs = bufs, bf_remaining = remaining\<rparr>)"

text \<open>The conversions of a buffer into contiguous bytes.\<close>

definition buf_bytes :: "data_buf \<Rightarrow> bytes" where
  "buf_bytes b = (case bf_bufs b of [buf] \<Rightarrow> buf | bufs \<Rightarrow> concat bufs)"

definition buf_of_bytes :: "bytes \<Rightarrow> data_buf" where
  "buf_of_bytes data = \<lparr>bf_bufs = [data], bf_remaining = length data\<rparr>"

section \<open>The receiver\<close>

datatype 'q received = ReceivedDataBuf data_buf | ReceivedChunks | ReceivedRequests "'q list"

datatype 'q receiving =
    RecvNothing
  | RecvData data_buf
  | RecvChunks "bytes list" (chunks_completed: bool) (chunks_announced: bool)
  | RecvRequests "'q list"

datatype recv_error =
    RecvChMux
  | ExceedsMaxDataSize nat
  | ExceedsMaxPortCount nat
  | RecvRejected bool

datatype recv_chunk_error = ChunkChMux | ChunkCancelled

datatype credit_call =
    StartReturn used_port_credit
  | StartReportProcessed
  | ReleaseGlobal u32

text \<open>The watch of a pre-connected port: its state, and whether its other end is alive.\<close>

record 'q receiver =
  rx_max_data_size :: nat
  rx_max_ports :: nat
  rx_queue :: "'q port_receive_msg list"
  rx_disconnected :: bool
  rx_receiving :: "'q receiving"
  rx_finished :: bool
  rx_pre_connected :: "(pre_connect_state \<times> bool) option"
  rx_calls :: "credit_call list"

datatype ('e, 'a) recv_out = Got 'a | RecvFailed 'e | RecvWaiting

definition wait_pre_connect_done :: "'q receiver \<Rightarrow> (recv_error, unit) recv_out" where
  "wait_pre_connect_done r =
     (case rx_pre_connected r of
        None \<Rightarrow> Got ()
      | Some (PreConnected, alive) \<Rightarrow> if alive then RecvWaiting else RecvFailed RecvChMux
      | Some (PreAccepted, _) \<Rightarrow> Got ()
      | Some (PreRejected no_ports, _) \<Rightarrow> RecvFailed (RecvRejected no_ports))"

definition pre_connect_rejected :: "'q receiver \<Rightarrow> recv_error option" where
  "pre_connect_rejected r =
     (case rx_pre_connected r of
        Some (PreRejected no_ports, _) \<Rightarrow> Some (RecvRejected no_ports)
      | _ \<Rightarrow> None)"

definition log_calls :: "credit_call list \<Rightarrow> 'q receiver \<Rightarrow> 'q receiver" where
  "log_calls cs r = r\<lparr>rx_calls := rx_calls r @ cs\<rparr>"

definition data_calls :: "received_data \<Rightarrow> credit_call list" where
  "data_calls d = [StartReturn (rd_port_credit d), ReleaseGlobal (rd_global_credit d)]"

text \<open>One data message in \<^verbatim>\<open>recv_any\<close>: the answer, if there is one, and what is being received
  afterwards.\<close>

definition any_data ::
  "'q receiver \<Rightarrow> received_data \<Rightarrow> 'q received option \<times> 'q receiving" where
  "any_data r d =
     (let receiving = (if rd_first d then RecvData buf_new else rx_receiving r)
      in case receiving of
           RecvData b \<Rightarrow>
             (case try_push b (rd_buf d) (rx_max_data_size r) of
                Some b \<Rightarrow>
                  if rd_last d then (Some (ReceivedDataBuf b), RecvNothing) else (None, RecvData b)
              | None \<Rightarrow>
                  (Some ReceivedChunks, RecvChunks (bf_bufs b @ [rd_buf d]) (rd_last d) True))
         | _ \<Rightarrow> (None, RecvNothing))"

text \<open>One message with port requests in \<^verbatim>\<open>recv_any\<close>.\<close>

definition any_requests ::
  "'q receiver \<Rightarrow> 'q received_port_requests \<Rightarrow> (recv_error + 'q received) option \<times> 'q receiving" where
  "any_requests r m =
     (let receiving = (if rq_first m then RecvRequests [] else rx_receiving r)
      in case receiving of
           RecvRequests reqs \<Rightarrow>
             (let reqs = reqs @ rq_requests m
              in if length reqs > rx_max_ports r
                 then (Some (Inl (ExceedsMaxPortCount (rx_max_ports r))), RecvNothing)
                 else if rq_last m then (Some (Inr (ReceivedRequests reqs)), RecvNothing)
                 else (None, RecvRequests reqs))
         | _ \<Rightarrow> (None, RecvNothing))"

fun recv_any_loop ::
  "'q port_receive_msg list \<Rightarrow> 'q receiver \<Rightarrow> (recv_error, 'q received option) recv_out \<times> 'q receiver" where
  "recv_any_loop [] r =
     (if rx_disconnected r then RecvFailed RecvChMux else RecvWaiting, r\<lparr>rx_queue := []\<rparr>)"
| "recv_any_loop (DataMsg d # queue) r =
     (let (answer, receiving) = any_data r d;
          r = log_calls (data_calls d) (r\<lparr>rx_receiving := receiving\<rparr>)
      in case answer of
           Some x \<Rightarrow> (Got (Some x), r\<lparr>rx_queue := queue\<rparr>)
         | None \<Rightarrow> recv_any_loop queue r)"
| "recv_any_loop (PortRequestsMsg m # queue) r =
     (let (answer, receiving) = any_requests r m;
          r = log_calls [StartReturn (rq_credit m)] (r\<lparr>rx_receiving := receiving\<rparr>)
      in case answer of
           Some (Inl e) \<Rightarrow> (RecvFailed e, r\<lparr>rx_queue := queue\<rparr>)
         | Some (Inr x) \<Rightarrow> (Got (Some x), r\<lparr>rx_queue := queue\<rparr>)
         | None \<Rightarrow> recv_any_loop queue r)"
| "recv_any_loop (RequestReportMsg # queue) r =
     recv_any_loop queue (log_calls [StartReportProcessed] r)"
| "recv_any_loop (FinishedMsg # queue) r =
     (case pre_connect_rejected r of Some e \<Rightarrow> RecvFailed e | None \<Rightarrow> Got None,
      r\<lparr>rx_finished := True, rx_queue := queue\<rparr>)"

definition recv_any ::
  "'q receiver \<Rightarrow> (recv_error, 'q received option) recv_out \<times> 'q receiver" where
  "recv_any r =
     (case wait_pre_connect_done r of
        RecvWaiting \<Rightarrow> (RecvWaiting, r)
      | RecvFailed e \<Rightarrow> (RecvFailed e, r)
      | Got _ \<Rightarrow>
          if rx_finished r then (Got None, r)
          else case rx_receiving r of
            RecvChunks chunks completed announced \<Rightarrow>
              if chunks \<noteq> [] \<or> \<not> completed
              then (Got (Some ReceivedChunks), r\<lparr>rx_receiving := RecvChunks chunks completed True\<rparr>)
              else recv_any_loop (rx_queue r) (r\<lparr>rx_receiving := RecvNothing\<rparr>)
          | _ \<Rightarrow> recv_any_loop (rx_queue r) r)"

definition discard_chunks :: "'q receiver \<Rightarrow> 'q receiver" where
  "discard_chunks r =
     (case rx_receiving r of
        RecvChunks _ _ True \<Rightarrow> r\<lparr>rx_receiving := RecvNothing\<rparr>
      | _ \<Rightarrow> r)"

text \<open>One message in \<^verbatim>\<open>recv_chunk\<close> when no chunk is at hand.\<close>

definition is_receiving_chunks :: "'q receiver \<Rightarrow> bool" where
  "is_receiving_chunks r = (case rx_receiving r of RecvChunks _ _ _ \<Rightarrow> True | _ \<Rightarrow> False)"

definition chunk_data ::
  "'q receiver \<Rightarrow> received_data \<Rightarrow> (recv_chunk_error + bytes) option \<times> 'q receiving" where
  "chunk_data r d =
     (if is_receiving_chunks r \<and> rd_first d
      then (Some (Inl ChunkCancelled), RecvChunks [rd_buf d] (rd_last d) False)
      else if is_receiving_chunks r \<or> rd_first d
      then (Some (Inr (rd_buf d)), RecvChunks [] (rd_last d) True)
      else (None, rx_receiving r))"

fun recv_chunk_loop ::
  "'q port_receive_msg list \<Rightarrow> 'q receiver \<Rightarrow> (recv_chunk_error, bytes option) recv_out \<times> 'q receiver" where
  "recv_chunk_loop [] r =
     (if rx_disconnected r then RecvFailed ChunkChMux else RecvWaiting, r\<lparr>rx_queue := []\<rparr>)"
| "recv_chunk_loop (DataMsg d # queue) r =
     (let (answer, receiving) = chunk_data r d;
          r = log_calls (data_calls d) (r\<lparr>rx_receiving := receiving\<rparr>)
      in case answer of
           Some (Inl e) \<Rightarrow> (RecvFailed e, r\<lparr>rx_queue := queue\<rparr>)
         | Some (Inr buf) \<Rightarrow> (Got (Some buf), r\<lparr>rx_queue := queue\<rparr>)
         | None \<Rightarrow> recv_chunk_loop queue r)"
| "recv_chunk_loop (PortRequestsMsg m # queue) r =
     (let r' = log_calls [StartReturn (rq_credit m)] r
      in if is_receiving_chunks r
         then (RecvFailed ChunkCancelled, r'\<lparr>rx_receiving := RecvNothing, rx_queue := queue\<rparr>)
         else recv_chunk_loop queue r')"
| "recv_chunk_loop (RequestReportMsg # queue) r =
     recv_chunk_loop queue (log_calls [StartReportProcessed] r)"
| "recv_chunk_loop (FinishedMsg # queue) r =
     (let r' = r\<lparr>rx_finished := True, rx_queue := queue\<rparr>
      in if is_receiving_chunks r
         then (RecvFailed ChunkCancelled, r'\<lparr>rx_receiving := RecvNothing\<rparr>)
         else if pre_connect_rejected r \<noteq> None then (RecvFailed ChunkCancelled, r')
         else (Got None, r'))"

definition recv_chunk ::
  "'q receiver \<Rightarrow> (recv_chunk_error, bytes option) recv_out \<times> 'q receiver" where
  "recv_chunk r =
     (case wait_pre_connect_done r of
        RecvWaiting \<Rightarrow> (RecvWaiting, r)
      | RecvFailed RecvChMux \<Rightarrow> (RecvFailed ChunkChMux, r)
      | RecvFailed _ \<Rightarrow> (RecvFailed ChunkCancelled, r)
      | Got _ \<Rightarrow>
          if rx_finished r then (Got None, r)
          else case rx_receiving r of
            RecvChunks (chunk # chunks) completed _ \<Rightarrow>
              (Got (Some chunk), r\<lparr>rx_receiving := RecvChunks chunks completed True\<rparr>)
          | RecvChunks [] True _ \<Rightarrow> (Got None, r\<lparr>rx_receiving := RecvNothing\<rparr>)
          | _ \<Rightarrow> recv_chunk_loop (rx_queue r) r)"

text \<open>Port requests are dropped, and thereby rejected, by \<^verbatim>\<open>recv\<close>, whose own wait for the
  pre-connection is the first thing \<open>recv_any\<close> does, too. Each round takes a message
  off the queue, except a round that announces chunks, which ends the loop.\<close>

lemma recv_any_loop_queue:
  "recv_any_loop queue r = (Got (Some (ReceivedRequests reqs)), r') \<Longrightarrow> length (rx_queue r') < length queue"
proof (induction queue r rule: recv_any_loop.induct)
  case (2 d queue r)
  then show ?case by (fastforce simp: Let_def split: prod.splits option.splits)
next
  case (3 m queue r)
  then show ?case by (fastforce simp: Let_def split: prod.splits option.splits sum.splits)
qed (auto split: if_splits option.splits)

lemma recv_any_requests_queue:
  "recv_any r = (Got (Some (ReceivedRequests reqs)), r') \<Longrightarrow> length (rx_queue r') < length (rx_queue r)"
  by (auto simp: recv_any_def dest: recv_any_loop_queue
      split: recv_out.splits if_splits receiving.splits)

function recv :: "'q receiver \<Rightarrow> (recv_error, data_buf option) recv_out \<times> 'q receiver" where
  "recv r =
     (case recv_any r of
        (Got (Some (ReceivedDataBuf b)), r') \<Rightarrow> (Got (Some b), r')
      | (Got (Some ReceivedChunks), r') \<Rightarrow>
          (RecvFailed (ExceedsMaxDataSize (rx_max_data_size r')), discard_chunks r')
      | (Got (Some (ReceivedRequests _)), r') \<Rightarrow> recv r'
      | (Got None, r') \<Rightarrow> (Got None, r')
      | (RecvFailed e, r') \<Rightarrow> (RecvFailed e, r')
      | (RecvWaiting, r') \<Rightarrow> (RecvWaiting, r'))"
  by pat_completeness auto

termination recv
  by (relation "measure (\<lambda>r. length (rx_queue r))") (auto dest: recv_any_requests_queue [OF sym])

declare recv.simps [simp del]

end
