(* ===== verification/Transmission.thy ===== *)
theory Transmission
  imports Receiver
begin

text \<open>
  Messages from a sender to a receiver: the chunks a send produces, and what the operations of
  the receiver make of them. A message that fits is received whole, a larger one is streamed or
  discarded, a cancelled one is skipped. Also the progress of sends and of the sending of
  ports.
\<close>

section \<open>Chunks on the way\<close>

text \<open>What the multiplexer hands to the receiver for a data event of the sender (see
  \<^verbatim>\<open>handle_event\<close> and \<^verbatim>\<open>handle_received_msg\<close> of \<^verbatim>\<open>mux.rs\<close>).\<close>

definition deliver_data :: "bytes \<Rightarrow> bool \<Rightarrow> bool \<Rightarrow> data_credits \<Rightarrow> received_data" where
  "deliver_data data fst_chunk lst_chunk credits =
     (let (global, port) = charge credits (max (word_of_nat (length data)) 1)
      in \<lparr>rd_buf = data, rd_first = fst_chunk, rd_last = lst_chunk,
          rd_port_credit = \<lparr>upc_port = port, upc_global = global\<rparr>, rd_global_credit = global\<rparr>)"

fun delivered :: "port_evt list \<Rightarrow> received_data list" where
  "delivered [] = []"
| "delivered (SendData _ data f l credits # es) = deliver_data data f l credits # delivered es"
| "delivered (_ # es) = delivered es"

lemma delivered_append [simp]: "delivered (es @ es') = delivered es @ delivered es'"
  by (induction es rule: delivered.induct) auto

lemma deliver_data_simps [simp]:
  "rd_buf (deliver_data data f l c) = data" "rd_first (deliver_data data f l c) = f"
  "rd_last (deliver_data data f l c) = l"
  by (simp_all add: deliver_data_def split: prod.splits)

text \<open>Chunks that continue a message: none is a first one, and the one before each is not the
  last; \<open>l\<close> is the flag of the chunk before, \<open>e\<close> that of the last chunk.\<close>

fun continues :: "bool \<Rightarrow> received_data list \<Rightarrow> bool \<Rightarrow> bool" where
  "continues l [] e \<longleftrightarrow> l = e"
| "continues l (d # ds) e \<longleftrightarrow> \<not> l \<and> \<not> rd_first d \<and> continues (rd_last d) ds e"

fun is_message :: "received_data list \<Rightarrow> bool \<Rightarrow> bool" where
  "is_message [] e \<longleftrightarrow> False"
| "is_message (d # ds) e \<longleftrightarrow> rd_first d \<and> continues (rd_last d) ds e"

definition content :: "received_data list \<Rightarrow> bytes" where
  "content ds = concat (map rd_buf ds)"

lemma content_simps [simp]:
  "content [] = []" "content (d # ds) = rd_buf d @ content ds" "content (ds @ es) = content ds @ content es"
  by (simp_all add: content_def)

lemma continues_append:
  "continues l (ds @ es) e \<longleftrightarrow> (\<exists>m. continues l ds m \<and> continues m es e)"
  by (induction ds arbitrary: l) auto

section \<open>What a send produces\<close>

lemma send_chunk_result:
  assumes "send_chunk sd finish data s = Inr (rest, s')"
  shows "\<exists>chunk c. data = chunk @ rest \<and> ss_first s' = False \<and> length chunk \<le> sd_chunk_size sd \<and>
     ss_acc s' = ss_acc s @ [SendData (sd_remote_port sd) chunk (ss_first s) (rest = [] \<and> finish) c]"
proof -
  have res: "\<exists>at c. rest = drop at data \<and> at \<le> sd_chunk_size sd \<and> ss_first s' = False \<and>
     ss_acc s' = ss_acc s @ [SendData (sd_remote_port sd) (take at data) (ss_first s) (rest = [] \<and> finish) c]"
    using assms
    unfolding send_chunk_def send_evt_def request_credits_def Let_def
    by (auto simp: chunk_len_def simp del: drop_eq_Nil drop_eq_Nil2
        split: sum.splits list.splits exec.splits if_splits bool.splits
        intro!: exI [of _ "chunk_len sd data q" for q])
  then obtain at c where "rest = drop at data" "at \<le> sd_chunk_size sd" "ss_first s' = False"
    "ss_acc s' = ss_acc s @ [SendData (sd_remote_port sd) (take at data) (ss_first s) (rest = [] \<and> finish) c]"
    by blast
  then show ?thesis
    by (intro exI [of _ "take at data"] exI [of _ c]) simp
qed

lemma send_chunk_end: "send_chunk sd finish data s \<noteq> Inl (AllSent, s')"
  by (auto simp: send_chunk_def send_evt_def request_credits_def Let_def
      split: sum.splits list.splits exec.splits if_splits bool.splits)

text \<open>The events a send adds: chunks of the data in order, with the flags of a message.\<close>

definition sent_chunks :: "sender \<Rightarrow> bool \<Rightarrow> bool \<Rightarrow> bytes \<Rightarrow> port_evt list \<Rightarrow> bool" where
  "sent_chunks sd fst_chunk finish data es \<longleftrightarrow>
     (\<exists>d ds. delivered es = d # ds \<and> rd_first d = fst_chunk \<and> continues (rd_last d) ds finish \<and>
        content (d # ds) = data \<and> (\<forall>d' \<in> set (d # ds). length (rd_buf d') \<le> sd_chunk_size sd))"

lemma sent_chunks_Cons:
  assumes "sent_chunks sd False finish rest es" "length chunk \<le> sd_chunk_size sd"
  shows "sent_chunks sd f finish (chunk @ rest) (SendData port chunk f False c # es)"
  using assms by (auto simp: sent_chunks_def)

lemma send_loop_chunks:
  "send_loop sd finish data s = (AllSent, s') \<Longrightarrow> data \<noteq> [] \<Longrightarrow>
     \<exists>es. ss_acc s' = ss_acc s @ es \<and> sent_chunks sd (ss_first s) finish data es \<and> \<not> ss_first s'"
proof (induction sd finish data s rule: send_loop.induct)
  case (1 sd finish data s)
  show ?case
  proof (cases "send_chunk sd finish data s")
    case (Inl r)
    with "1.prems" send_chunk_end [of sd finish data s s'] show ?thesis
      by (simp add: send_loop.simps [of sd finish data])
  next
    case (Inr rs)
    obtain rest s1 where rs: "rs = (rest, s1)" by fastforce
    from send_chunk_result [OF Inr [unfolded rs]] obtain chunk c where
      c: "data = chunk @ rest" "ss_first s1 = False" "length chunk \<le> sd_chunk_size sd"
      "ss_acc s1 = ss_acc s @ [SendData (sd_remote_port sd) chunk (ss_first s) (rest = [] \<and> finish) c]"
      by blast
    have loop: "send_loop sd finish rest s1 = (AllSent, s')"
      using "1.prems" Inr rs by (simp add: send_loop.simps [of sd finish data])
    show ?thesis
    proof (cases "rest = []")
      case True
      with loop have "s' = s1" by (simp add: send_loop.simps)
      with c True show ?thesis
        by (auto simp: sent_chunks_def)
    next
      case False
      from "1.IH" [OF "1.prems"(2) Inr rs [symmetric] loop False] obtain es where
        "ss_acc s' = ss_acc s1 @ es" "sent_chunks sd False finish rest es" "\<not> ss_first s'"
        by (auto simp: c(2))
      then show ?thesis
        using c False sent_chunks_Cons by auto
    qed
  qed
qed

lemma send_empty_chunks:
  "send_empty sd finish s = (AllSent, s') \<Longrightarrow>
     \<exists>es. ss_acc s' = ss_acc s @ es \<and> sent_chunks sd (ss_first s) finish [] es \<and> \<not> ss_first s'"
  by (auto simp: send_empty_def send_evt_def request_credits_def sent_chunks_def
      split: sum.splits list.splits exec.splits if_splits bool.splits)

lemma do_send_int_chunks:
  "do_send_int sd data finish s = (AllSent, s') \<Longrightarrow>
     \<exists>es. ss_acc s' = ss_acc s @ es \<and> sent_chunks sd (ss_first s) finish data es \<and> \<not> ss_first s'"
  using send_loop_chunks send_empty_chunks by (auto simp: do_send_int_def split: if_splits)

lemma sent_chunks_append:
  "sent_chunks sd f False data es \<Longrightarrow> sent_chunks sd False finish data' es' \<Longrightarrow>
     sent_chunks sd f finish (data @ data') (es @ es')"
  by (auto simp: sent_chunks_def continues_append)

lemma send_all_chunks_chunks:
  "send_all_chunks sd chunks s = (AllSent, s') \<Longrightarrow>
     \<exists>es. ss_acc s' = ss_acc s @ es \<and> sent_chunks sd (ss_first s) True (concat chunks) es"
proof (induction sd chunks s rule: send_all_chunks.induct)
  case (3 sd chunk c2 chunks s)
  obtain e s1 where s1: "do_send_int sd chunk False s = (e, s1)" by fastforce
  with "3.prems" have e: "e = AllSent" "send_all_chunks sd (c2 # chunks) s1 = (AllSent, s')"
    by (auto split: if_splits)
  from do_send_int_chunks [OF s1 [unfolded e]] obtain es where
    es: "ss_acc s1 = ss_acc s @ es" "sent_chunks sd (ss_first s) False chunk es" "\<not> ss_first s1"
    by blast
  from "3.IH" [OF refl s1 [symmetric] e] es(3) obtain es' where
    "ss_acc s' = ss_acc s1 @ es'" "sent_chunks sd False True (concat (c2 # chunks)) es'"
    by auto
  with es(1) sent_chunks_append [OF es(2) this(2)] show ?case
    by auto
qed (auto dest!: do_send_int_chunks)

lemma do_send_message:
  assumes "do_send sd data env = (AllSent, s)"
  shows "is_message (delivered (ss_acc s)) True" "content (delivered (ss_acc s)) = data"
proof -
  have "do_send_int sd data True (start_sending env) = (AllSent, s)"
    using assms by (simp add: do_send_def do_send_int_def)
  from do_send_int_chunks [OF this]
  show "is_message (delivered (ss_acc s)) True" "content (delivered (ss_acc s)) = data"
    by (auto simp: sent_chunks_def start_sending_def)
qed

section \<open>What the receiver makes of it\<close>

definition idle :: "'q receiver \<Rightarrow> bool" where
  "idle r \<longleftrightarrow> rx_receiving r = RecvNothing \<and> \<not> rx_finished r \<and> wait_pre_connect_done r = Got ()"

text \<open>The receiver after taking some messages: only the queue, the state of the reception and
  the recorded calls change.\<close>

definition after :: "'q receiver \<Rightarrow> received_data list \<Rightarrow> 'q receiving \<Rightarrow> 'q port_receive_msg list \<Rightarrow> 'q receiver" where
  "after r ds receiving queue =
     r\<lparr>rx_queue := queue, rx_receiving := receiving, rx_calls := rx_calls r @ concat (map data_calls ds)\<rparr>"

lemma after_nest [simp]:
  "after (log_calls (data_calls d) (r\<lparr>rx_receiving := x\<rparr>)) ds y q = after r (d # ds) y q"
  by (simp add: after_def log_calls_def)

lemma recv_any_loop_whole:
  "continues False ds True \<Longrightarrow> rx_receiving r = RecvData b \<Longrightarrow>
     bf_remaining b = length (concat (bf_bufs b)) \<Longrightarrow>
     length (concat (bf_bufs b)) + length (content ds) \<le> min (rx_max_data_size r) usize_max \<Longrightarrow>
     \<exists>b'. recv_any_loop (map DataMsg ds @ rest) r =
        (Got (Some (ReceivedDataBuf b')), after r ds RecvNothing rest) \<and>
        bf_bufs b' = bf_bufs b @ map rd_buf ds \<and> bf_remaining b' = length (concat (bf_bufs b'))"
proof (induction ds arbitrary: r b)
  case (Cons d ds)
  define b1 where "b1 = \<lparr>bf_bufs = bf_bufs b @ [rd_buf d], bf_remaining = bf_remaining b + length (rd_buf d)\<rparr>"
  have push: "try_push b (rd_buf d) (rx_max_data_size r) = Some b1"
    using Cons.prems(3,4) by (simp add: try_push_def b1_def Let_def)
  show ?case
  proof (cases "rd_last d")
    case True
    then have "ds = []" using Cons.prems(1) by (cases ds) auto
    with True Cons.prems push show ?thesis
      by (auto simp: any_data_def Let_def b1_def after_def log_calls_def)
  next
    case False
    define r1 where "r1 = log_calls (data_calls d) (r\<lparr>rx_receiving := RecvData b1\<rparr>)"
    have "recv_any_loop (map DataMsg (d # ds) @ rest) r = recv_any_loop (map DataMsg ds @ rest) r1"
      using Cons.prems False push by (simp add: any_data_def r1_def)
    moreover have "\<exists>b'. recv_any_loop (map DataMsg ds @ rest) r1 =
        (Got (Some (ReceivedDataBuf b')), after r1 ds RecvNothing rest) \<and>
        bf_bufs b' = bf_bufs b1 @ map rd_buf ds \<and> bf_remaining b' = length (concat (bf_bufs b'))"
      using Cons.prems False by (intro Cons.IH) (auto simp: r1_def b1_def log_calls_def)
    ultimately show ?thesis
      by (auto simp: r1_def b1_def)
  qed
qed simp

text \<open>When the limit is exceeded, some chunks are at hand and the rest is still in the queue.\<close>

lemma recv_any_loop_large:
  "continues False ds True \<Longrightarrow> rx_receiving r = RecvData b \<Longrightarrow>
     bf_remaining b = length (concat (bf_bufs b)) \<Longrightarrow>
     min (rx_max_data_size r) usize_max < length (concat (bf_bufs b)) + length (content ds) \<Longrightarrow>
     \<exists>ds1 ds2. ds = ds1 @ ds2 \<and> ds1 \<noteq> [] \<and> continues (rd_last (last ds1)) ds2 True \<and>
        recv_any_loop (map DataMsg ds @ rest) r =
        (Got (Some ReceivedChunks),
         after r ds1 (RecvChunks (bf_bufs b @ map rd_buf ds1) (rd_last (last ds1)) True)
           (map DataMsg ds2 @ rest))"
proof (induction ds arbitrary: r b)
  case (Cons d ds)
  show ?case
  proof (cases "try_push b (rd_buf d) (rx_max_data_size r)")
    case None
    have "recv_any_loop (map DataMsg (d # ds) @ rest) r =
        (Got (Some ReceivedChunks),
         after r [d] (RecvChunks (bf_bufs b @ map rd_buf [d]) (rd_last (last [d])) True) (map DataMsg ds @ rest))"
      using Cons.prems None by (simp add: any_data_def Let_def after_def log_calls_def)
    then show ?thesis
      using Cons.prems by (intro exI [of _ "[d]"] exI [of _ ds]) auto
  next
    case (Some b1)
    then have b1: "b1 = \<lparr>bf_bufs = bf_bufs b @ [rd_buf d], bf_remaining = bf_remaining b + length (rd_buf d)\<rparr>"
      "bf_remaining b + length (rd_buf d) \<le> min (rx_max_data_size r) usize_max"
      by (auto simp: try_push_def Let_def split: if_splits)
    have nl: "\<not> rd_last d"
    proof
      assume "rd_last d"
      then have "ds = []" using Cons.prems(1) by (cases ds) auto
      with Cons.prems(3,4) b1(2) show False by simp
    qed
    define r1 where "r1 = log_calls (data_calls d) (r\<lparr>rx_receiving := RecvData b1\<rparr>)"
    have "recv_any_loop (map DataMsg (d # ds) @ rest) r = recv_any_loop (map DataMsg ds @ rest) r1"
      using Cons.prems nl Some by (simp add: any_data_def r1_def)
    moreover have "\<exists>ds1 ds2. ds = ds1 @ ds2 \<and> ds1 \<noteq> [] \<and> continues (rd_last (last ds1)) ds2 True \<and>
        recv_any_loop (map DataMsg ds @ rest) r1 =
        (Got (Some ReceivedChunks),
         after r1 ds1 (RecvChunks (bf_bufs b1 @ map rd_buf ds1) (rd_last (last ds1)) True)
           (map DataMsg ds2 @ rest))"
      using Cons.prems nl by (intro Cons.IH) (auto simp: r1_def b1(1) log_calls_def)
    then obtain ds1 ds2 where "ds = ds1 @ ds2" "ds1 \<noteq> []" "continues (rd_last (last ds1)) ds2 True"
      "recv_any_loop (map DataMsg ds @ rest) r1 =
        (Got (Some ReceivedChunks),
         after r1 ds1 (RecvChunks (bf_bufs b1 @ map rd_buf ds1) (rd_last (last ds1)) True)
           (map DataMsg ds2 @ rest))"
      by blast
    ultimately show ?thesis
      by (intro exI [of _ "d # ds1"] exI [of _ ds2]) (auto simp: r1_def b1(1))
  qed
qed simp


text \<open>The first chunk of a message resets whatever was being received.\<close>

lemma recv_any_loop_first:
  assumes "rd_first d"
  shows "recv_any_loop (DataMsg d # queue) r =
     recv_any_loop (DataMsg (d\<lparr>rd_first := False\<rparr>) # queue) (r\<lparr>rx_receiving := RecvData buf_new\<rparr>)"
  using assms
  by (cases "try_push buf_new (rd_buf d) (rx_max_data_size r)")
    (simp_all add: any_data_def data_calls_def log_calls_def Let_def)

lemma after_first [simp]:
  "after (r\<lparr>rx_receiving := x\<rparr>) ds y q = after r ds y q"
  "after r (d\<lparr>rd_first := f\<rparr> # ds) y q = after r (d # ds) y q"
  by (simp_all add: after_def data_calls_def)

lemma recv_any_idle: "idle r \<Longrightarrow> recv_any r = recv_any_loop (rx_queue r) r"
  by (simp add: recv_any_def idle_def)

lemma new_bufs: "bf_bufs buf_new = []"
  by (simp add: buf_new_def)

lemma same_receiving: "rx_receiving r = x \<Longrightarrow> r\<lparr>rx_receiving := x\<rparr> = r"
  by (cases r) simp

lemma idle_after: "idle r \<Longrightarrow> idle (after r ds RecvNothing queue)"
  by (simp add: idle_def after_def wait_pre_connect_done_def)

lemma recv_any_loop_message:
  assumes "is_message ds True" "length (content ds) \<le> min (rx_max_data_size r) usize_max"
  shows "\<exists>b. recv_any_loop (map DataMsg ds @ rest) r =
     (Got (Some (ReceivedDataBuf b)), after r ds RecvNothing rest) \<and>
     bf_bufs b = map rd_buf ds \<and> bf_remaining b = length (content ds)"
proof -
  obtain d ds' where ds: "ds = d # ds'" "rd_first d" "continues (rd_last d) ds' True"
    using assms(1) by (cases ds) auto
  define r1 where "r1 = r\<lparr>rx_receiving := RecvData buf_new\<rparr>"
  have "\<exists>b'. recv_any_loop (map DataMsg (d\<lparr>rd_first := False\<rparr> # ds') @ rest) r1 =
        (Got (Some (ReceivedDataBuf b')), after r1 (d\<lparr>rd_first := False\<rparr> # ds') RecvNothing rest) \<and>
        bf_bufs b' = bf_bufs buf_new @ map rd_buf (d\<lparr>rd_first := False\<rparr> # ds') \<and>
        bf_remaining b' = length (concat (bf_bufs b'))"
    using ds assms(2) by (intro recv_any_loop_whole) (auto simp: r1_def buf_new_def)
  then show ?thesis
    using ds recv_any_loop_first [of d "map DataMsg ds' @ rest" r]
    by (auto simp: r1_def buf_new_def content_def)
qed

lemma recv_any_loop_message_large:
  assumes "is_message ds True" "min (rx_max_data_size r) usize_max < length (content ds)"
  shows "\<exists>ds1 ds2. ds = ds1 @ ds2 \<and> ds1 \<noteq> [] \<and> continues (rd_last (last ds1)) ds2 True \<and>
     recv_any_loop (map DataMsg ds @ rest) r =
     (Got (Some ReceivedChunks),
      after r ds1 (RecvChunks (map rd_buf ds1) (rd_last (last ds1)) True) (map DataMsg ds2 @ rest))"
proof -
  obtain d ds' where ds: "ds = d # ds'" "rd_first d" "continues (rd_last d) ds' True"
    using assms(1) by (cases ds) auto
  define d0 where "d0 = d\<lparr>rd_first := False\<rparr>"
  define r1 where "r1 = r\<lparr>rx_receiving := RecvData buf_new\<rparr>"
  have "\<exists>ds1 ds2. d0 # ds' = ds1 @ ds2 \<and> ds1 \<noteq> [] \<and> continues (rd_last (last ds1)) ds2 True \<and>
        recv_any_loop (map DataMsg (d0 # ds') @ rest) r1 =
        (Got (Some ReceivedChunks),
         after r1 ds1 (RecvChunks (bf_bufs buf_new @ map rd_buf ds1) (rd_last (last ds1)) True)
           (map DataMsg ds2 @ rest))"
    using ds assms(2) by (intro recv_any_loop_large) (auto simp: r1_def buf_new_def d0_def)
  then obtain ds1 ds2 where "d0 # ds' = ds1 @ ds2" "ds1 \<noteq> []" "continues (rd_last (last ds1)) ds2 True"
    "recv_any_loop (map DataMsg (d0 # ds') @ rest) r1 =
        (Got (Some ReceivedChunks),
         after r1 ds1 (RecvChunks (map rd_buf ds1) (rd_last (last ds1)) True) (map DataMsg ds2 @ rest))"
    unfolding new_bufs append_Nil by blast
  moreover from this obtain ds3 where "ds1 = d0 # ds3" "ds' = ds3 @ ds2"
    by (cases ds1) auto
  ultimately show ?thesis
    using ds(1) recv_any_loop_first [OF ds(2), of "map DataMsg ds' @ rest" r]
    by (intro exI [of _ "d # ds3"] exI [of _ ds2]) (auto simp: r1_def d0_def)
qed

lemma recv_any_loop_skip:
  "\<forall>d \<in> set ds. \<not> rd_first d \<Longrightarrow> rx_receiving r = RecvNothing \<Longrightarrow>
     recv_any_loop (map DataMsg ds @ rest) r = recv_any_loop rest (after r ds RecvNothing (rx_queue r))"
proof (induction ds arbitrary: r)
  case (Cons d ds)
  define r1 where "r1 = log_calls (data_calls d) (r\<lparr>rx_receiving := RecvNothing\<rparr>)"
  have "recv_any_loop (map DataMsg (d # ds) @ rest) r = recv_any_loop (map DataMsg ds @ rest) r1"
    using Cons.prems by (simp add: any_data_def r1_def)
  also have "\<dots> = recv_any_loop rest (after r1 ds RecvNothing (rx_queue r1))"
    using Cons.prems by (intro Cons.IH) (auto simp: r1_def log_calls_def)
  finally show ?case
    by (simp add: r1_def) (simp add: log_calls_def)
qed (simp add: after_def same_receiving)

lemma recv_any_loop_cut:
  "continues False ds False \<Longrightarrow> rx_receiving r = RecvData b \<Longrightarrow>
     bf_remaining b = length (concat (bf_bufs b)) \<Longrightarrow>
     length (concat (bf_bufs b)) + length (content ds) \<le> min (rx_max_data_size r) usize_max \<Longrightarrow>
     \<exists>b'. recv_any_loop (map DataMsg ds @ rest) r =
        recv_any_loop rest (after r ds (RecvData b') (rx_queue r))"
proof (induction ds arbitrary: r b)
  case Nil
  then show ?case by (intro exI [of _ b]) (simp add: after_def same_receiving)
next
  case (Cons d ds)
  define b1 where "b1 = \<lparr>bf_bufs = bf_bufs b @ [rd_buf d], bf_remaining = bf_remaining b + length (rd_buf d)\<rparr>"
  have push: "try_push b (rd_buf d) (rx_max_data_size r) = Some b1"
    using Cons.prems(3,4) by (simp add: try_push_def b1_def Let_def)
  have nl: "\<not> rd_last d"
    using Cons.prems(1) by (cases ds) auto
  define r1 where "r1 = log_calls (data_calls d) (r\<lparr>rx_receiving := RecvData b1\<rparr>)"
  have "recv_any_loop (map DataMsg (d # ds) @ rest) r = recv_any_loop (map DataMsg ds @ rest) r1"
    using Cons.prems nl push by (simp add: any_data_def r1_def)
  moreover have "\<exists>b'. recv_any_loop (map DataMsg ds @ rest) r1 =
      recv_any_loop rest (after r1 ds (RecvData b') (rx_queue r1))"
    using Cons.prems nl by (intro Cons.IH [where b = b1]) (auto simp: r1_def b1_def log_calls_def)
  ultimately show ?case
    by (simp add: r1_def) (simp add: log_calls_def)
qed

text \<open>An example: five bytes sent in two chunks, paid for by different pools.\<close>

definition example_sender :: sender where
  "example_sender =
     \<lparr>sd_local_port = Local 1, sd_remote_port = Remote 2, sd_chunk_size = 4,
      sd_max_data_size = 100, sd_all_received_supported = True, sd_pre_connected = None\<rparr>"

definition example_send_env :: send_env where
  "example_send_env =
     \<lparr>se_grants = [Inr [\<lparr>ac_pool = PortPool, ac_credits = 3\<rparr>], Inr [\<lparr>ac_pool = GlobalPool, ac_credits = 3\<rparr>]],
      se_queue = [True, True, True]\<rparr>"

definition example_sent :: send_state where
  "example_sent =
     \<lparr>ss_acc = [SendData (Remote 2) [1, 2, 3] True False PortOnly,
                SendData (Remote 2) [4, 5] False True GlobalOnly],
      ss_credits = [\<lparr>ac_pool = GlobalPool, ac_credits = 1\<rparr>], ss_first = False,
      ss_env = \<lparr>se_grants = [], se_queue = [True]\<rparr>\<rparr>"

lemmas send_evaluation =
  do_send_def do_send_int_def start_sending_def send_loop.simps send_chunk_def send_evt_def
  request_credits_def chunk_len_def mixed_available_def mixed_take_def mixed_take_loop.simps
  ac_take_def Let_def

lemma example_do_send: "do_send example_sender [1, 2, 3, 4, 5] example_send_env = (AllSent, example_sent)"
  by (simp add: send_evaluation example_sender_def example_send_env_def example_sent_def)

definition example_short_env :: send_env where
  "example_short_env = \<lparr>se_grants = [Inr [\<lparr>ac_pool = PortPool, ac_credits = 8\<rparr>]], se_queue = [True]\<rparr>"

definition example_short_sent :: "bool \<Rightarrow> send_state" where
  "example_short_sent finish =
     \<lparr>ss_acc = [SendData (Remote 2) [9] True finish PortOnly],
      ss_credits = [\<lparr>ac_pool = PortPool, ac_credits = 7\<rparr>], ss_first = False,
      ss_env = \<lparr>se_grants = [], se_queue = []\<rparr>\<rparr>"

lemma example_short_send:
  "do_send example_sender [9] example_short_env = (AllSent, example_short_sent True)"
  "do_send_int example_sender [9] False (start_sending example_short_env) =
     (AllSent, example_short_sent False)"
  by (simp_all add: send_evaluation example_sender_def example_short_env_def example_short_sent_def)

definition example_receiver :: "nat \<Rightarrow> unit port_receive_msg list \<Rightarrow> unit receiver" where
  "example_receiver max_size queue =
     \<lparr>rx_max_data_size = max_size, rx_max_ports = 2, rx_queue = queue, rx_disconnected = False,
      rx_receiving = RecvNothing, rx_finished = False, rx_pre_connected = None, rx_calls = []\<rparr>"

lemma example_receiver_simps [simp]:
  "idle (example_receiver max_size queue)"
  "rx_queue (example_receiver max_size queue) = queue"
  "rx_max_data_size (example_receiver max_size queue) = max_size"
  by (simp_all add: example_receiver_def idle_def wait_pre_connect_done_def)

text \<open>C5: A message arrives whole. When a send has completed and its chunks have been delivered
  to an idle receiver whose limit admits the message, \<^verbatim>\<open>recv_any\<close> returns exactly the bytes
  sent, whatever the chunk size and the credits granted on the way. It takes exactly the chunks
  of the message from the queue, returns the credits of each of them, and leaves the receiver
  idle for the messages that follow.\<close>

theorem message_received:
  assumes "do_send sd data env = (AllSent, s)"
    "idle r" "rx_queue r = map DataMsg (delivered (ss_acc s)) @ rest"
    "length data \<le> min (rx_max_data_size r) usize_max"
  shows "\<exists>b r'. recv_any r = (Got (Some (ReceivedDataBuf b)), r') \<and> buf_bytes b = data \<and>
     bf_remaining b = length data \<and> rx_queue r' = rest \<and> idle r' \<and>
     rx_calls r' = rx_calls r @ concat (map data_calls (delivered (ss_acc s)))"
proof -
  let ?ds = "delivered (ss_acc s)"
  from recv_any_loop_message [OF do_send_message(1) [OF assms(1)], of r rest] obtain b where
    "recv_any_loop (map DataMsg ?ds @ rest) r = (Got (Some (ReceivedDataBuf b)), after r ?ds RecvNothing rest)"
    "bf_bufs b = map rd_buf ?ds" "bf_remaining b = length data"
    using assms(4) by (auto simp: do_send_message(2) [OF assms(1)])
  moreover have "buf_bytes b = data"
    using calculation(2) do_send_message(2) [OF assms(1)]
    by (auto simp: buf_bytes_def content_def split: list.splits)
  ultimately show ?thesis
    using assms(2,3) idle_after [OF assms(2), of ?ds rest]
    by (auto simp: recv_any_idle after_def)
qed

theorem message_received_witness:
  "\<exists>b r'. recv_any (example_receiver 5 (map DataMsg (delivered (ss_acc example_sent)) @ [FinishedMsg])) =
       (Got (Some (ReceivedDataBuf b)), r') \<and>
     buf_bytes b = [1, 2, 3, 4, 5] \<and> bf_remaining b = length [1, 2, 3, 4, 5 :: u8] \<and>
     rx_queue r' = [FinishedMsg] \<and> idle r' \<and>
     rx_calls r' =
       rx_calls (example_receiver 5 (map DataMsg (delivered (ss_acc example_sent)) @ [FinishedMsg])) @
       concat (map data_calls (delivered (ss_acc example_sent)))"
  by (rule message_received [OF example_do_send]) (simp_all add: usize_max_def)



text \<open>Calling \<^verbatim>\<open>recv_chunk\<close> until it returns nothing, at most \<open>n\<close> times.\<close>

fun collect_chunks :: "nat \<Rightarrow> 'q receiver \<Rightarrow> (bytes \<times> 'q receiver) option" where
  "collect_chunks 0 r = None"
| "collect_chunks (Suc n) r =
     (case recv_chunk r of
        (Got (Some chunk), r') \<Rightarrow>
          map_option (\<lambda>(bs, r''). (chunk @ bs, r'')) (collect_chunks n r')
      | (Got None, r') \<Rightarrow> Some ([], r')
      | _ \<Rightarrow> None)"

definition connected :: "'q receiver \<Rightarrow> bool" where
  "connected r \<longleftrightarrow> \<not> rx_finished r \<and> wait_pre_connect_done r = Got ()"

lemma connected_update [simp]:
  "connected (r\<lparr>rx_receiving := x\<rparr>) = connected r"
  "connected (after r ds x queue) = connected r"
  by (simp_all add: connected_def wait_pre_connect_done_def after_def)

lemma recv_chunk_at_hand:
  "connected r \<Longrightarrow> rx_receiving r = RecvChunks (c # cs) l a \<Longrightarrow>
     recv_chunk r = (Got (Some c), r\<lparr>rx_receiving := RecvChunks cs l True\<rparr>)"
  by (simp add: recv_chunk_def connected_def)

lemma recv_chunk_done:
  "connected r \<Longrightarrow> rx_receiving r = RecvChunks [] True a \<Longrightarrow>
     recv_chunk r = (Got None, r\<lparr>rx_receiving := RecvNothing\<rparr>)"
  by (simp add: recv_chunk_def connected_def)

lemma recv_chunk_next:
  "connected r \<Longrightarrow> rx_receiving r = RecvChunks [] False a \<Longrightarrow> rx_queue r = DataMsg d # queue \<Longrightarrow>
     \<not> rd_first d \<Longrightarrow>
     recv_chunk r = (Got (Some (rd_buf d)), after r [d] (RecvChunks [] (rd_last d) True) queue)"
  by (simp add: recv_chunk_def connected_def chunk_data_def is_receiving_chunks_def after_def log_calls_def)

lemma after_after [simp]: "after (after r ds x q) es y p = after r (ds @ es) y p"
  by (simp add: after_def)

lemma rx_after [simp]:
  "rx_receiving (after r ds x q) = x" "rx_queue (after r ds x q) = q"
  "rx_max_data_size (after r ds x q) = rx_max_data_size r"
  "rx_calls (after r ds x q) = rx_calls r @ concat (map data_calls ds)"
  by (simp_all add: after_def)

lemma collect_queue:
  "connected r \<Longrightarrow> rx_receiving r = RecvChunks [] l a \<Longrightarrow> continues l ds True \<Longrightarrow>
     rx_queue r = map DataMsg ds @ rest \<Longrightarrow> length ds < n \<Longrightarrow>
     collect_chunks n r = Some (content ds, after r ds RecvNothing rest)"
proof (induction ds arbitrary: r l a n)
  case Nil
  then show ?case
    by (cases n) (simp_all add: recv_chunk_done after_def)
next
  case (Cons d ds)
  then obtain m where n: "n = Suc m" "length ds < m" by (cases n) auto
  define r1 where "r1 = after r [d] (RecvChunks [] (rd_last d) True) (map DataMsg ds @ rest)"
  have "recv_chunk r = (Got (Some (rd_buf d)), r1)"
    using Cons.prems by (simp add: recv_chunk_next r1_def)
  moreover have "collect_chunks m r1 = Some (content ds, after r1 ds RecvNothing rest)"
    using Cons.prems n by (intro Cons.IH [of r1 "rd_last d" True]) (auto simp: r1_def)
  ultimately show ?case
    by (simp add: n r1_def)
qed

lemma collect_all:
  "connected r \<Longrightarrow> rx_receiving r = RecvChunks cs l a \<Longrightarrow> continues l ds True \<Longrightarrow>
     rx_queue r = map DataMsg ds @ rest \<Longrightarrow> length cs + length ds < n \<Longrightarrow>
     collect_chunks n r = Some (concat cs @ content ds, after r ds RecvNothing rest)"
proof (induction cs arbitrary: r a n)
  case Nil
  then show ?case by (simp add: collect_queue)
next
  case (Cons c cs)
  then obtain m where n: "n = Suc m" "length cs + length ds < m" by (cases n) auto
  have "collect_chunks m (r\<lparr>rx_receiving := RecvChunks cs l True\<rparr>) =
      Some (concat cs @ content ds, after (r\<lparr>rx_receiving := RecvChunks cs l True\<rparr>) ds RecvNothing rest)"
    using Cons.prems n by (intro Cons.IH [of _ True]) auto
  then show ?case
    using Cons.prems by (simp add: n recv_chunk_at_hand)
qed

lemma idle_connected: "idle r \<Longrightarrow> connected r"
  by (simp add: idle_def connected_def)

text \<open>C10: A message larger than the limit of the receiver can be streamed. \<^verbatim>\<open>recv_any\<close>
  announces it, and calling \<^verbatim>\<open>recv_chunk\<close> until it returns nothing gives exactly the bytes
  sent, in a number of calls bounded by the number of chunks sent; then the receiver is idle
  with the messages that follow in its queue, and the credits of every chunk are returned.\<close>

theorem large_message_streamed:
  assumes "do_send sd data env = (AllSent, s)"
    "idle r" "rx_queue r = map DataMsg (delivered (ss_acc s)) @ rest"
    "min (rx_max_data_size r) usize_max < length data"
  shows "\<exists>r1 r2. recv_any r = (Got (Some ReceivedChunks), r1) \<and>
     collect_chunks (length (delivered (ss_acc s)) + 1) r1 = Some (data, r2) \<and>
     rx_queue r2 = rest \<and> idle r2 \<and>
     rx_calls r2 = rx_calls r @ concat (map data_calls (delivered (ss_acc s)))"
proof -
  let ?ds = "delivered (ss_acc s)"
  from recv_any_loop_message_large [OF do_send_message(1) [OF assms(1)], of r rest] obtain ds1 ds2 where
    ds: "?ds = ds1 @ ds2" "continues (rd_last (last ds1)) ds2 True"
    "recv_any_loop (map DataMsg ?ds @ rest) r =
     (Got (Some ReceivedChunks),
      after r ds1 (RecvChunks (map rd_buf ds1) (rd_last (last ds1)) True) (map DataMsg ds2 @ rest))"
    using assms(4) by (auto simp: do_send_message(2) [OF assms(1)])
  define r1 where
    "r1 = after r ds1 (RecvChunks (map rd_buf ds1) (rd_last (last ds1)) True) (map DataMsg ds2 @ rest)"
  have "collect_chunks (length ?ds + 1) r1 =
      Some (concat (map rd_buf ds1) @ content ds2, after r1 ds2 RecvNothing rest)"
    using ds(1,2) idle_connected [OF assms(2)] by (intro collect_all) (auto simp: r1_def)
  moreover have "concat (map rd_buf ds1) @ content ds2 = data"
    using do_send_message(2) [OF assms(1)] by (simp add: ds(1) content_def)
  moreover have "after r1 ds2 RecvNothing rest = after r ?ds RecvNothing rest"
    by (simp add: r1_def ds(1))
  ultimately show ?thesis
    using assms(2,3) ds(3) idle_after [OF assms(2)] by (simp add: recv_any_idle r1_def [symmetric])
qed

theorem large_message_streamed_witness:
  "\<exists>r1 r2. recv_any (example_receiver 4 (map DataMsg (delivered (ss_acc example_sent)) @ [])) =
       (Got (Some ReceivedChunks), r1) \<and>
     collect_chunks (length (delivered (ss_acc example_sent)) + 1) r1 = Some ([1, 2, 3, 4, 5], r2) \<and>
     rx_queue r2 = [] \<and> idle r2 \<and>
     rx_calls r2 = rx_calls (example_receiver 4 (map DataMsg (delivered (ss_acc example_sent)) @ [])) @
       concat (map data_calls (delivered (ss_acc example_sent)))"
  by (rule large_message_streamed [OF example_do_send]) (simp_all add: usize_max_def)


lemma continues_not_first: "continues l ds e \<Longrightarrow> \<forall>d \<in> set ds. \<not> rd_first d"
  by (induction ds arbitrary: l) auto

text \<open>A message larger than the limit costs \<^verbatim>\<open>recv\<close> one error and nothing else. It
  reports the limit, and the next call returns the message that follows, whole, though part of
  the first message was still in the queue.\<close>

theorem oversized_message_discarded:
  assumes "do_send sd data env = (AllSent, s)" "do_send sd' data' env' = (AllSent, s')"
    "idle r" "rx_queue r = map DataMsg (delivered (ss_acc s) @ delivered (ss_acc s')) @ rest"
    "min (rx_max_data_size r) usize_max < length data"
    "length data' \<le> min (rx_max_data_size r) usize_max"
  shows "\<exists>r1 b r2. recv r = (RecvFailed (ExceedsMaxDataSize (rx_max_data_size r)), r1) \<and>
     recv r1 = (Got (Some b), r2) \<and> buf_bytes b = data' \<and> rx_queue r2 = rest \<and> idle r2"
proof -
  let ?ds = "delivered (ss_acc s)" and ?ds' = "delivered (ss_acc s')"
  from recv_any_loop_message_large [OF do_send_message(1) [OF assms(1)], of r "map DataMsg ?ds' @ rest"]
  obtain ds1 ds2 where
    ds: "?ds = ds1 @ ds2" "continues (rd_last (last ds1)) ds2 True"
    "recv_any_loop (map DataMsg ?ds @ map DataMsg ?ds' @ rest) r =
     (Got (Some ReceivedChunks),
      after r ds1 (RecvChunks (map rd_buf ds1) (rd_last (last ds1)) True)
        (map DataMsg ds2 @ map DataMsg ?ds' @ rest))"
    using assms(5) by (auto simp: do_send_message(2) [OF assms(1)])
  define r1 where "r1 = after r ds1 RecvNothing (map DataMsg ds2 @ map DataMsg ?ds' @ rest)"
  have first: "recv r = (RecvFailed (ExceedsMaxDataSize (rx_max_data_size r)), r1)"
    using assms(3,4) ds(3)
    by (simp add: recv.simps [of r] recv_any_idle discard_chunks_def r1_def) (simp add: after_def)
  have idle1: "idle r1"
    using idle_after [OF assms(3)] by (simp add: r1_def)
  have skip: "recv_any r1 = recv_any_loop (map DataMsg ?ds' @ rest) (after r1 ds2 RecvNothing (rx_queue r1))"
    using idle1 continues_not_first [OF ds(2)]
    by (simp add: recv_any_idle) (simp add: r1_def recv_any_loop_skip)
  from recv_any_loop_message [OF do_send_message(1) [OF assms(2)], of
      "after r1 ds2 RecvNothing (rx_queue r1)" rest]
  obtain b where b: "recv_any r1 = (Got (Some (ReceivedDataBuf b)),
      after r1 (ds2 @ ?ds') RecvNothing rest)" "bf_bufs b = map rd_buf ?ds'"
    using assms(6) skip by (auto simp: do_send_message(2) [OF assms(2)] r1_def)
  have "recv r1 = (Got (Some b), after r1 (ds2 @ ?ds') RecvNothing rest)"
    by (simp add: recv.simps [of r1] b(1))
  moreover have "buf_bytes b = data'"
    using b(2) do_send_message(2) [OF assms(2)]
    by (auto simp: buf_bytes_def content_def split: list.splits)
  ultimately show ?thesis
    using first idle_after [OF idle1] by auto
qed

theorem oversized_message_discarded_witness:
  "\<exists>r1 b r2. recv (example_receiver 3
       (map DataMsg (delivered (ss_acc example_sent) @ delivered (ss_acc (example_short_sent True))) @ [])) =
       (RecvFailed (ExceedsMaxDataSize (rx_max_data_size (example_receiver 3
          (map DataMsg (delivered (ss_acc example_sent) @ delivered (ss_acc (example_short_sent True))) @ [])))), r1) \<and>
     recv r1 = (Got (Some b), r2) \<and> buf_bytes b = [9] \<and> rx_queue r2 = [] \<and> idle r2"
  by (rule oversized_message_discarded [OF example_do_send example_short_send(1)])
    (simp_all add: usize_max_def)


text \<open>C15: A cancelled message leaves no trace. When a chunk sender has been dropped after some
  chunks that the receiver's limit admits and another message follows, \<^verbatim>\<open>recv_any\<close> returns
  the bytes of the second message alone.\<close>

theorem cancelled_message_skipped:
  assumes "do_send_int sd part False (start_sending env) = (AllSent, s)"
    "do_send sd' data env' = (AllSent, s')"
    "idle r" "rx_queue r = map DataMsg (delivered (ss_acc s) @ delivered (ss_acc s')) @ rest"
    "length part \<le> min (rx_max_data_size r) usize_max"
    "length data \<le> min (rx_max_data_size r) usize_max"
  shows "\<exists>b r'. recv_any r = (Got (Some (ReceivedDataBuf b)), r') \<and> buf_bytes b = data \<and>
     rx_queue r' = rest \<and> idle r'"
proof -
  let ?ds = "delivered (ss_acc s)" and ?ds' = "delivered (ss_acc s')"
  from do_send_int_chunks [OF assms(1)] obtain d ds where
    d: "?ds = d # ds" "rd_first d" "continues (rd_last d) ds False" "content ?ds = part"
    by (auto simp: sent_chunks_def start_sending_def)
  define d0 where "d0 = d\<lparr>rd_first := False\<rparr>"
  define r0 where "r0 = r\<lparr>rx_receiving := RecvData buf_new\<rparr>"
  have "\<exists>b'. recv_any_loop (map DataMsg (d0 # ds) @ map DataMsg ?ds' @ rest) r0 =
      recv_any_loop (map DataMsg ?ds' @ rest) (after r0 (d0 # ds) (RecvData b') (rx_queue r0))"
  proof (rule recv_any_loop_cut)
    show "continues False (d0 # ds) False"
      using d(3) by (cases ds) (auto simp: d0_def)
    show "length (concat (bf_bufs buf_new)) + length (content (d0 # ds)) \<le>
        min (rx_max_data_size r0) usize_max"
      using d assms(5) by (auto simp: r0_def d0_def new_bufs)
  qed (simp_all add: r0_def buf_new_def)
  then obtain b' where "recv_any_loop (map DataMsg ?ds @ map DataMsg ?ds' @ rest) r =
      recv_any_loop (map DataMsg ?ds' @ rest) (after r ?ds (RecvData b') (rx_queue r))"
    using recv_any_loop_first [OF d(2), of "map DataMsg ds @ map DataMsg ?ds' @ rest" r]
    by (auto simp: d(1) r0_def d0_def)
  moreover from recv_any_loop_message [OF do_send_message(1) [OF assms(2)], of
      "after r ?ds (RecvData b') (rx_queue r)" rest]
  obtain b where "recv_any_loop (map DataMsg ?ds' @ rest) (after r ?ds (RecvData b') (rx_queue r)) =
      (Got (Some (ReceivedDataBuf b)), after r (?ds @ ?ds') RecvNothing rest)" "bf_bufs b = map rd_buf ?ds'"
    using assms(6) by (auto simp: do_send_message(2) [OF assms(2)])
  moreover have "buf_bytes b = data"
    using calculation(3) do_send_message(2) [OF assms(2)]
    by (auto simp: buf_bytes_def content_def split: list.splits)
  ultimately show ?thesis
    using assms(3,4) idle_after [OF assms(3)] by (simp add: recv_any_idle)
qed

theorem cancelled_message_skipped_witness:
  "\<exists>b r'. recv_any (example_receiver 5
       (map DataMsg (delivered (ss_acc (example_short_sent False)) @ delivered (ss_acc example_sent)) @ [])) =
       (Got (Some (ReceivedDataBuf b)), r') \<and>
     buf_bytes b = [1, 2, 3, 4, 5] \<and> rx_queue r' = [] \<and> idle r'"
  by (rule cancelled_message_skipped [OF example_short_send(2) example_do_send])
    (simp_all add: usize_max_def)


end
