(* ===== verification/SendProgress.thy ===== *)
theory SendProgress
  imports Transmission
begin

text \<open>
  Progress of sends: a send completes once enough requests are granted, and the sending of
  ports completes when their local numbers become free and credits come in multiples of four,
  but not otherwise. Examples that
  evaluate the transfer of concrete messages.
\<close>

section \<open>A send completes\<close>

definition credits_ok :: "mixed_credits \<Rightarrow> bool" where
  "credits_ok q \<longleftrightarrow> (\<forall>ac \<in> set q. ac_credits ac \<noteq> 0) \<and> mixed_sum q < 2 ^ 32"

definition granted :: "send_error + mixed_credits \<Rightarrow> bool" where
  "granted g \<longleftrightarrow> (case g of Inl _ \<Rightarrow> False | Inr q \<Rightarrow> q \<noteq> [] \<and> credits_ok q)"

text \<open>An environment that answers at least \<open>n\<close> requests and takes at least \<open>n\<close> events.\<close>

definition serves :: "nat \<Rightarrow> send_env \<Rightarrow> bool" where
  "serves n env \<longleftrightarrow>
     n \<le> length (se_grants env) \<and> (\<forall>g \<in> set (se_grants env). granted g) \<and>
     n \<le> length (se_queue env) \<and> (\<forall>b \<in> set (se_queue env). b)"

lemma unat_mixed_available: "mixed_sum q < 2 ^ 32 \<Longrightarrow> unat (mixed_available q) = mixed_sum q"
  by (induction q) (auto simp: mixed_available_def unat_add_u32)

lemma mixed_sum_pos: "credits_ok q \<Longrightarrow> q \<noteq> [] \<Longrightarrow> 0 < mixed_sum q"
  by (cases q) (auto simp: credits_ok_def unat_gt_0)

lemma mixed_take_loop_nonzero:
  "mixed_take_loop credits q g p = Ret (q', g', p') \<Longrightarrow> \<forall>ac \<in> set q. ac_credits ac \<noteq> 0 \<Longrightarrow>
     \<forall>ac \<in> set q'. ac_credits ac \<noteq> 0"
proof (induction credits q g p rule: mixed_take_loop.induct)
  case (1 credits q g p)
  show ?case
  proof (cases "credits = 0 \<or> q = []")
    case True
    with "1.prems" show ?thesis by (auto simp: mixed_take_loop.simps [of credits q] split: if_splits)
  next
    case False
    then obtain ac qs where q: "q = ac # qs" "credits \<noteq> 0" by (cases q) auto
    define tk where "tk = min (ac_credits ac) credits"
    define ac' where "ac' = ac\<lparr>ac_credits := ac_credits ac - tk\<rparr>"
    define gp where "gp = (case ac_pool ac' of GlobalPool \<Rightarrow> (g + tk, p) | PortPool \<Rightarrow> (g, p + tk))"
    have take: "ac_take tk ac = Ret ac'"
      by (auto simp: ac_take_def ac'_def tk_def min_def)
    have loop: "mixed_take_loop (credits - tk) (if ac_credits ac' = 0 then qs else ac' # qs) (fst gp) (snd gp) =
        Ret (q', g', p')"
      using "1.prems"(1) take q
      by (subst (asm) mixed_take_loop.simps)
        (simp add: tk_def [symmetric] gp_def case_prod_beta Let_def)
    have nonzero: "\<forall>ac \<in> set (if ac_credits ac' = 0 then qs else ac' # qs). ac_credits ac \<noteq> 0"
      using "1.prems"(2) by (simp add: q(1))
    show ?thesis
      by (rule "1.IH" [OF q(2,1) tk_def take gp_def prod.collapse loop nonzero])
  qed
qed

lemma mixed_take_ok:
  assumes "credits_ok q" "unat credits \<le> mixed_sum q"
  shows "\<exists>q' dc. mixed_take credits q = Ret (q', dc) \<and> credits_ok q'"
proof -
  obtain q' g p where take: "mixed_take_loop credits q 0 0 = Ret (q', g, p)"
    "unat g + pool_sum GlobalPool q' = 0 + pool_sum GlobalPool q"
    "unat p + pool_sum PortPool q' = 0 + pool_sum PortPool q"
    using mixed_take_loop_ok [OF assms(2), of 0 0] by auto
  then have "mixed_sum q' \<le> mixed_sum q"
    using pool_sums [of q] pool_sums [of q'] by simp
  then have "credits_ok q'"
    using mixed_take_loop_nonzero [OF take(1)] assms(1) by (simp add: credits_ok_def)
  then show ?thesis
    by (simp add: mixed_take_def take(1))
qed

lemma serves_request:
  assumes "serves (Suc n) env"
  shows "\<exists>q env'. request_credits env = Inr (q, env') \<and> q \<noteq> [] \<and> credits_ok q \<and>
     n \<le> length (se_grants env') \<and> (\<forall>g \<in> set (se_grants env'). granted g) \<and>
     se_queue env' = se_queue env"
  using assms by (cases "se_grants env")
    (auto simp: serves_def request_credits_def granted_def split: sum.splits)

text \<open>The credits a chunk is paid from, whether at hand or requested.\<close>

lemma serves_credits:
  assumes "serves (Suc n) (ss_env s)" "credits_ok (ss_credits s)"
  shows "\<exists>q env. (if ss_credits s = [] then request_credits (ss_env s) else Inr (ss_credits s, ss_env s)) =
       Inr (q, env) \<and> q \<noteq> [] \<and> credits_ok q \<and> n \<le> length (se_grants env) \<and>
     (\<forall>g \<in> set (se_grants env). granted g) \<and> se_queue env = se_queue (ss_env s)"
  using serves_request [OF assms(1)] assms by (auto simp: serves_def)

lemma send_evt_serves:
  assumes "se_queue env = se_queue env0" "serves (Suc n) env0" "n \<le> length (se_grants env)"
    "\<forall>g \<in> set (se_grants env). granted g"
  shows "\<exists>env'. send_evt msg acc0 env = Inr (acc0 @ [msg], env') \<and> serves n env'"
  using assms by (cases "se_queue env0") (auto simp: send_evt_def serves_def)

lemma send_chunk_progress:
  assumes "data \<noteq> []" "0 < sd_chunk_size sd" "serves (Suc n) (ss_env s)" "credits_ok (ss_credits s)"
  shows "\<exists>rest s'. send_chunk sd finish data s = Inr (rest, s') \<and> length rest < length data \<and>
     serves n (ss_env s') \<and> credits_ok (ss_credits s')"
proof -
  obtain q env where q: "(if ss_credits s = [] then request_credits (ss_env s)
      else Inr (ss_credits s, ss_env s)) = Inr (q, env)"
    "q \<noteq> []" "credits_ok q" "n \<le> length (se_grants env)"
    "\<forall>g \<in> set (se_grants env). granted g" "se_queue env = se_queue (ss_env s)"
    using serves_credits [OF assms(3,4)] by blast
  define at where "at = chunk_len sd data q"
  have avail: "unat (mixed_available q) = mixed_sum q" "mixed_sum q < 2 ^ 32"
    using q(3) by (simp_all add: unat_mixed_available credits_ok_def)
  have at: "at \<le> mixed_sum q" "0 < at"
    using mixed_sum_pos [OF q(3,2)] assms(1,2) avail by (simp_all add: at_def chunk_len_def)
  have "unat (word_of_nat at :: u32) = at"
    using at(1) avail(2) by (simp add: unat_of_nat)
  then obtain q' dc where take: "mixed_take (word_of_nat at) q = Ret (q', dc)" "credits_ok q'"
    using mixed_take_ok [OF q(3), of "word_of_nat at"] at(1) by auto
  obtain env' where env': "serves n env'"
    "send_evt (SendData (sd_remote_port sd) (take at data) (ss_first s) (drop at data = [] \<and> finish) dc)
      (ss_acc s) env =
     Inr (ss_acc s @ [SendData (sd_remote_port sd) (take at data) (ss_first s)
       (drop at data = [] \<and> finish) dc], env')"
    using send_evt_serves [OF q(6) assms(3) q(4,5)] by blast
  have "\<exists>s'. send_chunk sd finish data s = Inr (drop at data, s') \<and> ss_env s' = env' \<and> ss_credits s' = q'"
    using q(1) take(1) env'(2)
    by (simp add: send_chunk_def at_def [symmetric] Let_def del: drop_eq_Nil)
  then show ?thesis
    using env'(1) take(2) at(2) assms(1) by (auto simp: length_drop)
qed

lemma send_loop_progress:
  "0 < sd_chunk_size sd \<Longrightarrow> serves (length data) (ss_env s) \<Longrightarrow> credits_ok (ss_credits s) \<Longrightarrow>
     \<exists>s'. send_loop sd finish data s = (AllSent, s')"
proof (induction sd finish data s rule: send_loop.induct)
  case (1 sd finish data s)
  show ?case
  proof (cases "data = []")
    case True
    then show ?thesis by (simp add: send_loop.simps)
  next
    case False
    then obtain n where n: "length data = Suc n" by (cases data) auto
    with send_chunk_progress [OF False "1.prems"(1) _ "1.prems"(3), of n finish] "1.prems"(2)
    obtain rest s1 where s1: "send_chunk sd finish data s = Inr (rest, s1)" "length rest \<le> n"
      "serves n (ss_env s1)" "credits_ok (ss_credits s1)"
      by auto
    have "serves (length rest) (ss_env s1)"
      using s1(2,3) by (auto simp: serves_def)
    from "1.IH" [OF False s1(1) refl "1.prems"(1) this s1(4)] False s1(1) show ?thesis
      by (simp add: send_loop.simps [of sd finish data])
  qed
qed

text \<open>C11: A send completes. With a positive chunk size, if every credit request is granted at
  least one credit and the event queue takes the events, one grant and one place for each byte
  (or one for an empty message) are always enough for \<^verbatim>\<open>send\<close> to finish.\<close>

theorem send_completes:
  assumes "0 < sd_chunk_size sd" "serves (max (length data) 1) env"
  shows "\<exists>s. do_send sd data env = (AllSent, s)"
proof (cases "data = []")
  case False
  then have "serves (length data) (ss_env (start_sending env))"
    using assms(2) by (cases data) (auto simp: start_sending_def)
  then show ?thesis
    using send_loop_progress [OF assms(1)] False
    by (simp add: do_send_def) (simp add: start_sending_def credits_ok_def)
next
  case True
  then have serves: "serves (Suc 0) env"
    using assms(2) by simp
  from serves_request [OF this] obtain q env1 where q: "request_credits env = Inr (q, env1)" "q \<noteq> []"
    "credits_ok q" "se_queue env1 = se_queue env" "\<forall>g \<in> set (se_grants env1). granted g"
    by blast
  have "unat (1 :: u32) \<le> mixed_sum q"
    using mixed_sum_pos [OF q(3,2)] by simp
  then obtain q' dc where "mixed_take 1 q = Ret (q', dc)"
    using mixed_take_ok [OF q(3)] by blast
  moreover obtain env2 where
    "send_evt (SendData (sd_remote_port sd) [] True True dc) [] env1 =
     Inr ([SendData (sd_remote_port sd) [] True True dc], env2)"
    using send_evt_serves [OF q(4) serves _ q(5), of "SendData (sd_remote_port sd) [] True True dc" "[]"]
    by auto
  ultimately show ?thesis
    using True q(1) by (simp add: do_send_def send_empty_def start_sending_def)
qed

theorem send_completes_witness:
  "\<exists>s. do_send example_sender [9] example_short_env = (AllSent, s)"
  by (rule send_completes)
    (simp_all add: example_sender_def example_short_env_def serves_def granted_def credits_ok_def)



section \<open>Sending ports\<close>

definition whole_ports :: "u32 \<Rightarrow> bool" where
  "whole_ports n \<longleftrightarrow> 4 dvd unat n"

fun ports_of :: "port_evt list \<Rightarrow> port_reply list" where
  "ports_of [] = []"
| "ports_of (SendPorts _ _ _ ps # es) = ps @ ports_of es"
| "ports_of (_ # es) = ports_of es"

lemma ports_of_append [simp]: "ports_of (es @ es') = ports_of es @ ports_of es'"
  by (induction es rule: ports_of.induct) auto

definition connect_serves :: "nat \<Rightarrow> connect_env \<Rightarrow> bool" where
  "connect_serves n env \<longleftrightarrow>
     n \<le> length (ce_grants env) \<and>
     (\<forall>g \<in> set (ce_grants env). \<exists>ac. g = Inr ac \<and> whole_ports (ac_credits ac) \<and> ac_credits ac \<noteq> 0) \<and>
     n \<le> length (ce_queue env) \<and> (\<forall>b \<in> set (ce_queue env). b)"

lemma connect_grant:
  assumes "connect_serves (Suc n) env" "whole_ports (ac_credits ac)"
  shows "\<exists>ac' env'. (if ac_credits ac = 0
            then (case ce_grants env of
                    [] \<Rightarrow> Inl SendWaiting
                  | Inl err # _ \<Rightarrow> Inl (SendFailed err)
                  | Inr ac # rest \<Rightarrow> Inr (ac, env\<lparr>ce_grants := rest\<rparr>))
            else Inr (ac, env)) = Inr (ac', env') \<and>
     whole_ports (ac_credits ac') \<and> ac_credits ac' \<noteq> 0 \<and> ce_queue env' = ce_queue env \<and>
     n \<le> length (ce_grants env') \<and>
     (\<forall>g \<in> set (ce_grants env'). \<exists>ac. g = Inr ac \<and> whole_ports (ac_credits ac) \<and> ac_credits ac \<noteq> 0)"
  using assms by (cases "ce_grants env") (auto simp: connect_serves_def split: sum.splits)

lemma unat_of_nat_le:
  assumes "m \<le> unat (x :: u32)"
  shows "unat (word_of_nat m :: u32) = m"
proof -
  have "m < 4294967296"
    using assms by (rule le_less_trans) simp
  then show ?thesis
    by (simp add: unat_of_nat)
qed

lemma connect_chunk_progress:
  assumes "ports \<noteq> []" "4 \<le> sd_chunk_size sd" "connect_serves (Suc n) env" "whole_ports (ac_credits ac)"
  shows "\<exists>now more ac' env'. connect_chunk sd ports first ac env sent =
       Inr (more, ac', env', sent @ [SendPorts (sd_remote_port sd) first (more = []) now]) \<and>
     ports = now @ more \<and> now \<noteq> [] \<and> whole_ports (ac_credits ac') \<and> connect_serves n env'"
proof -
  obtain ac1 env1 where g: "(if ac_credits ac = 0
            then (case ce_grants env of
                    [] \<Rightarrow> Inl SendWaiting
                  | Inl err # _ \<Rightarrow> Inl (SendFailed err)
                  | Inr ac # rest \<Rightarrow> Inr (ac, env\<lparr>ce_grants := rest\<rparr>))
            else Inr (ac, env)) = Inr (ac1, env1)"
    "whole_ports (ac_credits ac1)" "ac_credits ac1 \<noteq> 0" "ce_queue env1 = ce_queue env"
    "n \<le> length (ce_grants env1)"
    "\<forall>g \<in> set (ce_grants env1). \<exists>ac. g = Inr ac \<and> whole_ports (ac_credits ac) \<and> ac_credits ac \<noteq> 0"
    using connect_grant [OF assms(3,4)] by blast
  define mx where "mx = min (sd_chunk_size sd) (unat (ac_credits ac1)) div 4"
  define more where "more = (if length ports > mx then drop mx ports else [])"
  define now where "now = (if length ports > mx then take mx ports else ports)"
  have "unat (ac_credits ac1) \<noteq> 0"
    using g(3) by (simp add: unat_eq_zero)
  then have four: "4 \<le> unat (ac_credits ac1)"
    using g(2) by (auto simp: whole_ports_def elim!: dvdE)
  then have mx: "0 < mx" "mx * 4 \<le> unat (ac_credits ac1)"
    using assms(2) by (simp_all add: mx_def)
  have now: "ports = now @ more" "now \<noteq> []" "length now \<le> mx"
    using mx(1) assms(1) by (auto simp: now_def more_def)
  have "length now * 4 \<le> unat (ac_credits ac1)"
    using now(3) mx(2) by linarith
  from unat_of_nat_le [OF this] this
  have cost: "unat (word_of_nat (length now * 4) :: u32) = length now * 4"
    "(word_of_nat (length now * 4) :: u32) \<le> ac_credits ac1"
    by (simp_all only: word_le_nat_alt)
  define ac2 where "ac2 = ac1\<lparr>ac_credits := ac_credits ac1 - word_of_nat (length now * 4)\<rparr>"
  have take: "ac_take (word_of_nat (length now * 4)) ac1 = Ret ac2"
    using cost(2) by (auto simp: ac_take_def ac2_def)
  have "unat (ac_credits ac2) = unat (ac_credits ac1) - length now * 4"
    using cost by (simp add: ac2_def unat_sub_u32)
  then have whole: "whole_ports (ac_credits ac2)"
    using g(2) by (simp add: whole_ports_def)
  obtain qs where qs: "ce_queue env1 = True # qs" "n \<le> length qs" "\<forall>b \<in> set qs. b"
    using assms(3) g(4) by (cases "ce_queue env") (auto simp: connect_serves_def)
  have "connect_chunk sd ports first ac env sent =
       Inr (more, ac2, env1\<lparr>ce_queue := qs\<rparr>, sent @ [SendPorts (sd_remote_port sd) first (more = []) now])"
    unfolding connect_chunk_def g(1) Let_def sum.case prod.case
    unfolding mx_def [symmetric] now_def [symmetric] more_def [symmetric]
    by (simp add: take [simplified] qs(1))
  then show ?thesis
    using now whole g(5,6) qs by (auto simp: connect_serves_def)
qed

lemma connect_loop_progress:
  "4 \<le> sd_chunk_size sd \<Longrightarrow> connect_serves (length ports) env \<Longrightarrow> whole_ports (ac_credits ac) \<Longrightarrow>
     \<exists>es. connect_loop sd ports first ac env sent = (AllSent, sent @ es) \<and> ports_of es = ports"
proof (induction sd ports first ac env sent rule: connect_loop.induct)
  case (1 sd ports first ac env sent)
  show ?case
  proof (cases "ports = []")
    case True
    then show ?thesis by (simp add: connect_loop.simps)
  next
    case False
    then obtain n where n: "length ports = Suc n" by (cases ports) auto
    from connect_chunk_progress [OF False "1.prems"(1) _ "1.prems"(3), of n env first sent] "1.prems"(2) n
    obtain now more ac' env' where c: "connect_chunk sd ports first ac env sent =
        Inr (more, ac', env', sent @ [SendPorts (sd_remote_port sd) first (more = []) now])"
      "ports = now @ more" "now \<noteq> []" "whole_ports (ac_credits ac')" "connect_serves n env'"
      by auto
    have "connect_serves (length more) env'"
      using c(2,3,5) n by (cases now) (auto simp: connect_serves_def)
    from "1.IH" [OF False c(1) refl refl refl "1.prems"(1) this c(4)] obtain es where
      "connect_loop sd more False ac' env' (sent @ [SendPorts (sd_remote_port sd) first (more = []) now]) =
       (AllSent, (sent @ [SendPorts (sd_remote_port sd) first (more = []) now]) @ es)" "ports_of es = more"
      by blast
    then have "connect_loop sd ports first ac env sent =
        (AllSent, sent @ SendPorts (sd_remote_port sd) first (more = []) now # es)"
      using False c(1) by (simp add: connect_loop.simps [of sd ports])
    with \<open>ports_of es = more\<close> c(2) show ?thesis
      by auto
  qed
qed

text \<open>When the local number of a request is free: at its first try if the request does not wait or
  the ports must not be exhausted, else at one of its tries. The request keeps its pre-allocated
  number all the while.\<close>

definition port_free :: "u32 \<Rightarrow> port_alloc \<Rightarrow> bool" where
  "port_free n p \<longleftrightarrow> is_available p \<and> n \<notin> local_used p \<and> n \<notin> quarantined_set p"

definition port_comes :: "on_ports_exhausted \<Rightarrow> port_reply \<Rightarrow> port_alloc list \<times> bool \<Rightarrow> bool" where
  "port_comes policy port tries \<longleftrightarrow>
     (\<forall>p \<in> set (fst tries). pr_port (fst port) \<in> local_pre_allocated p) \<and>
     (if pr_wait (fst port) \<and> policy \<noteq> Fail then \<exists>p \<in> set (fst tries). port_free (pr_port (fst port)) p
      else fst tries \<noteq> [] \<and> port_free (pr_port (fst port)) (hd (fst tries)))"

lemma pre_try_allocate_free:
  "n \<in> local_pre_allocated p \<Longrightarrow> \<exists>p'. pre_try_allocate p n = Ret (port_free n p, p')"
  by (auto simp: pre_try_allocate_def try_allocate_pre_allocated_def port_free_def)

lemma pre_wait_allocate_free:
  "\<forall>p \<in> set ps. n \<in> local_pre_allocated p \<Longrightarrow>
     pre_wait_allocate n ps = (if \<exists>p \<in> set ps. port_free n p then Some (Ret True) else None)"
proof (induction ps)
  case (Cons p ps)
  moreover obtain p' where "pre_try_allocate p n = Ret (port_free n p, p')"
    using pre_try_allocate_free [of n p] Cons.prems by auto
  ultimately show ?case by (cases "port_free n p") auto
qed simp

lemma port_comes_obtained:
  assumes "port_comes policy port tries"
  shows "into_port_req policy (fst port) tries = Some (Ret True)"
proof (cases "pr_wait (fst port) \<and> policy \<noteq> Fail")
  case True
  then have "pre_wait_allocate (pr_port (fst port)) (fst tries) = Some (Ret True)"
    using assms pre_wait_allocate_free [of "fst tries" "pr_port (fst port)"] by (simp add: port_comes_def)
  with True show ?thesis
    by (cases policy) (simp_all add: into_port_req_def pre_allocate_port_def)
next
  case False
  then obtain p ps where "fst tries = p # ps" "pr_port (fst port) \<in> local_pre_allocated p"
    "port_free (pr_port (fst port)) p"
    using assms by (cases "fst tries") (auto simp: port_comes_def)
  then have "pre_try_once (pr_port (fst port)) (fst tries) = Some (Ret True)"
    using pre_try_allocate_free [of "pr_port (fst port)" p] by (auto simp: pre_try_once_def)
  with False show ?thesis
    by (auto simp: into_port_req_def pre_allocate_port_def)
qed

lemma obtain_ports_all:
  "list_all2 (port_comes policy) ports tries \<Longrightarrow> obtain_ports policy ports tries = AllSent"
proof (induction rule: list_all2_induct)
  case (Cons port ports t tries)
  with port_comes_obtained [OF Cons.hyps(1)] show ?case by (cases port) simp
qed simp

text \<open>C16: Sending ports completes when the local ports come and the credits come in whole ports.
  If every request finds its pre-allocated number free (at once when it does not wait or the policy
  is to fail, otherwise at one of its tries), the chunk size admits a port, every grant is a
  positive multiple of four credits and the event queue takes the events, then one grant and one
  place for each port are enough, and the messages carry all ports in order. A request whose
  number is never free makes the call wait, or fail with \<^verbatim>\<open>LocalPortsExhausted\<close>, before it sends
  anything (\<open>connect_ports_exhausted\<close>).\<close>

theorem connect_completes:
  assumes "list_all2 (port_comes (ce_policy env)) ports (ce_tries env)"
    "4 \<le> sd_chunk_size sd" "connect_serves (length ports) env"
  shows "\<exists>es. do_connect sd ports env = (AllSent, es) \<and> ports_of es = ports"
  using connect_loop_progress [OF assms(2,3), of "ac_empty PortPool" True "[]"] obtain_ports_all [OF assms(1)]
  by (simp add: do_connect_def ac_empty_def whole_ports_def)

lemma connect_ports_exhausted:
  assumes "list_all2 (port_comes (ce_policy env)) got tries" "ce_tries env = tries @ t # later"
    "\<forall>p \<in> set (fst t). pr_port (fst port) \<in> local_pre_allocated p \<and> \<not> port_free (pr_port (fst port)) p"
  shows "do_connect sd (got @ port # ports) env =
    (if fst t \<noteq> [] \<and> (\<not> pr_wait (fst port) \<or> ce_policy env = Fail) \<or>
        pr_wait (fst port) \<and> (\<exists>d. ce_policy env = Timeout d) \<and> snd t
     then (SendFailed LocalPortsExhausted, []) else (SendWaiting, []))"
proof -
  define n where "n = pr_port (fst port)"
  have wait: "pre_wait_allocate n (fst t) = None"
    using assms(3) pre_wait_allocate_free [of "fst t" n] by (auto simp: n_def)
  have once: "pre_try_once n (fst t) = (if fst t = [] then None else Some (Ret False))"
  proof (cases "fst t")
    case (Cons p ps)
    then show ?thesis
      using assms(3) pre_try_allocate_free [of n p] by (auto simp: pre_try_once_def n_def)
  qed (simp add: pre_try_once_def)
  have "obtain_ports (ce_policy env) (got @ port # ports) (tries @ t # later) =
      obtain_ports (ce_policy env) (port # ports) (t # later)"
    using assms(1)
  proof (induction rule: list_all2_induct)
    case (Cons port ports t tries)
    with port_comes_obtained [OF Cons.hyps(1)] show ?case by (cases port) simp
  qed simp
  then show ?thesis
    unfolding do_connect_def assms(2) using wait once
    by (cases port; cases "ce_policy env") (auto simp: n_def into_port_req_def pre_allocate_port_def)
qed

definition example_port_reply :: port_reply where
  "example_port_reply = (\<lparr>pr_port = 3, pr_id = 3, pr_wait = True, pr_pre_connect = False\<rparr>, 0)"

definition example_no_wait :: port_reply where
  "example_no_wait = (\<lparr>pr_port = 4, pr_id = 4, pr_wait = False, pr_pre_connect = False\<rparr>, 1)"

text \<open>An allocator with numbers 3 and 4 pre-allocated, and the same without a free port.\<close>

definition example_pre_alloc :: port_alloc where
  "example_pre_alloc = (new_port_alloc 5)\<lparr>local_pre_allocated := {3, 4}\<rparr>"

definition example_connect_env :: connect_env where
  "example_connect_env =
     \<lparr>ce_policy = Timeout 60,
      ce_tries = [([example_pre_alloc\<lparr>reserved := 5\<rparr>, example_pre_alloc], False), ([example_pre_alloc], False)],
      ce_grants = [Inr \<lparr>ac_pool = PortPool, ac_credits = 8\<rparr>, Inr \<lparr>ac_pool = PortPool, ac_credits = 4\<rparr>],
      ce_queue = [True, True]\<rparr>"

theorem connect_completes_witness:
  "\<exists>es. do_connect example_sender [example_port_reply, example_no_wait] example_connect_env =
       (AllSent, es) \<and> ports_of es = [example_port_reply, example_no_wait]"
  by (rule connect_completes)
    (simp_all add: example_sender_def example_connect_env_def connect_serves_def whole_ports_def
      port_comes_def port_free_def example_port_reply_def example_no_wait_def example_pre_alloc_def
      new_port_alloc_def is_available_def)

text \<open>With one to three credits left over, a round sends no port and takes no credit.\<close>

lemma connect_chunk_stuck:
  assumes "ports \<noteq> []" "0 < ac_credits ac" "ac_credits ac < 4" "ce_queue env = True # qs"
  shows "connect_chunk sd ports first ac env sent =
     Inr (ports, ac, env\<lparr>ce_queue := qs\<rparr>, sent @ [SendPorts (sd_remote_port sd) first False []])"
proof -
  have "unat (ac_credits ac) < 4"
    using assms(3) by (simp add: word_less_nat_alt)
  then have mx: "min (sd_chunk_size sd) (unat (ac_credits ac)) div 4 = 0"
    by simp
  have "ac_take 0 ac = Ret ac"
    by (simp add: ac_take_def)
  then show ?thesis
    using assms mx by (simp add: connect_chunk_def Let_def word_greater_zero_iff)
qed

lemma connect_loop_stuck:
  assumes "ports \<noteq> []" "0 < ac_credits ac" "ac_credits ac < 4"
  shows "ce_queue env = replicate n True \<Longrightarrow>
     connect_loop sd ports False ac env sent =
       (SendWaiting, sent @ replicate n (SendPorts (sd_remote_port sd) False False []))"
proof (induction n arbitrary: env sent)
  case 0
  have "ac_credits ac \<noteq> 0" "unat (ac_credits ac) < 4"
    using assms by (auto simp: word_less_nat_alt)
  then have "connect_chunk sd ports False ac env sent = Inl (SendWaiting, sent)"
    using 0 by (simp add: connect_chunk_def Let_def ac_take_def assms(1))
  then show ?case
    using assms(1) by (simp add: connect_loop.simps [of sd ports])
next
  case (Suc n)
  with connect_chunk_stuck [OF assms, of env "replicate n True"]
  have "connect_loop sd ports False ac env sent =
      connect_loop sd ports False ac (env\<lparr>ce_queue := replicate n True\<rparr>)
        (sent @ [SendPorts (sd_remote_port sd) False False []])"
    using assms(1) by (simp add: connect_loop.simps [of sd ports])
  with Suc.IH [of "env\<lparr>ce_queue := replicate n True\<rparr>"] show ?case
    by simp
qed

text \<open>Sending ports does not end when a grant is not a multiple of four. With six port
  credits in the store, the request for two ports (eight credits, at least four) is granted six;
  the first message carries one port, and then the two credits left over make every further
  round send an empty message without asking for credits: the call never finishes, however many
  events the queue takes.\<close>

theorem connect_floods:
  assumes "4 \<le> sd_chunk_size sd" "list_all2 (port_comes policy) [p1, p2] tries"
  shows "request_poll new_user 8 4 (Some (new_store PortPool 6)) =
       (Some (Inr \<lparr>ac_pool = PortPool, ac_credits = 6\<rparr>), Some (new_store PortPool 0)) \<and>
     do_connect sd [p1, p2]
       \<lparr>ce_policy = policy, ce_tries = tries, ce_grants = [Inr \<lparr>ac_pool = PortPool, ac_credits = 6\<rparr>], ce_queue = replicate (Suc n) True\<rparr> =
     (SendWaiting,
      SendPorts (sd_remote_port sd) True False [p1] #
        replicate n (SendPorts (sd_remote_port sd) False False []))"
proof -
  let ?env = "\<lparr>ce_policy = policy, ce_tries = tries, ce_grants = [Inr \<lparr>ac_pool = PortPool, ac_credits = 6\<rparr>], ce_queue = replicate (Suc n) True\<rparr>"
  let ?ac = "\<lparr>ac_pool = PortPool, ac_credits = 2\<rparr>"
  have mx: "min (sd_chunk_size sd) 6 div 4 = 1"
    using assms by (auto simp: min_def)
  have "connect_chunk sd [p1, p2] True (ac_empty PortPool) ?env [] =
      Inr ([p2], ?ac, \<lparr>ce_policy = policy, ce_tries = tries, ce_grants = [], ce_queue = replicate n True\<rparr>,
        [SendPorts (sd_remote_port sd) True False [p1]])"
    by (simp add: connect_chunk_def ac_empty_def Let_def mx ac_take_def)
  with obtain_ports_all [OF assms(2)] have "do_connect sd [p1, p2] ?env =
      connect_loop sd [p2] False ?ac \<lparr>ce_policy = policy, ce_tries = tries, ce_grants = [], ce_queue = replicate n True\<rparr>
        [SendPorts (sd_remote_port sd) True False [p1]]"
    by (simp add: do_connect_def connect_loop.simps [of sd "[p1, p2]"])
  also have "\<dots> = (SendWaiting, [SendPorts (sd_remote_port sd) True False [p1]] @
      replicate n (SendPorts (sd_remote_port sd) False False []))"
    by (rule connect_loop_stuck) simp_all
  finally show ?thesis
    by (simp add: request_poll_def new_user_def new_store_def store_check_sendable_def
        try_take_credits_def ac_new_def)
qed

theorem connect_floods_witness:
  "request_poll new_user 8 4 (Some (new_store PortPool 6)) =
       (Some (Inr \<lparr>ac_pool = PortPool, ac_credits = 6\<rparr>), Some (new_store PortPool 0)) \<and>
     do_connect example_sender [example_port_reply, example_no_wait]
       \<lparr>ce_policy = ce_policy example_connect_env, ce_tries = ce_tries example_connect_env, ce_grants = [Inr \<lparr>ac_pool = PortPool, ac_credits = 6\<rparr>], ce_queue = replicate (Suc 1000) True\<rparr> =
     (SendWaiting,
      SendPorts (sd_remote_port example_sender) True False [example_port_reply] #
        replicate 1000 (SendPorts (sd_remote_port example_sender) False False []))"
  by (rule connect_floods)
    (simp_all add: example_sender_def example_connect_env_def port_comes_def port_free_def
      example_port_reply_def example_no_wait_def example_pre_alloc_def new_port_alloc_def is_available_def)

end
