(* ===== verification/Mux.thy ===== *)
theory Mux
  imports GlobalCredits Receiver PortAlloc
begin

text \<open>
  The event loop of the multiplexer, \<^verbatim>\<open>remoc/src/chmux/mux.rs\<close>: its state, the handling of
  local events and the handling of received messages. A handler gives the new state and what it
  sends: messages to the remote endpoint, messages to the receivers of ports, requests to the
  listener and answers on reply channels. A protocol error ends the connection. The handles a
  port holds are numbers; freeing a port is the drop of its handle in the allocator.
\<close>

section \<open>State\<close>

record request =
  rqs_remote_port :: u32
  rqs_id :: u32
  rqs_wait :: bool
  rqs_pre_connected :: bool

type_synonym port_msg = "request port_receive_msg"

record port_conn =
  pc_port :: side_port
  pc_remote_port :: side_port
  pc_provider :: credit_provider
  pc_receiver_open :: bool
  pc_monitor :: port_monitor
  pc_receiver_closed :: bool
  pc_receiver_dropped :: bool
  pc_sender_dropped :: bool
  pc_remote_receiver_closed :: bool
  pc_closed_notify :: "reply_id list option"
  pc_remote_receiver_dropped :: bool
  pc_report_processed :: "reply_id list"
  pc_pre_connected :: "pre_connect_state option"
  pc_pre_connect_credit :: bool

datatype port_state = Connecting u32 reply_id | Connected port_conn

datatype global_evt =
    ConnectReq port_req reply_id reply_id
  | AllClientsDropped
  | ListenerDropped
  | PortEvent port_evt
  | ReturnGlobalCreditsEvt global_credits
  | GlobalCreditsReportEvt credits_report
  | SendGoodbye

text \<open>The parts of the two configurations the event loop uses.\<close>

record mux_cfg =
  mc_chunk_size :: u32
  mc_port_receive_buffer :: u32
  mc_port_receive_throttle :: u32
  mc_connect_queue :: u16
  mc_remote_port_receive_buffer :: u32
  mc_remote_port_id :: bool

record mux =
  mx_cfg :: mux_cfg
  mx_ports :: "side_port \<rightharpoonup> port_state"
  mx_alloc :: port_alloc
  mx_outstanding :: "u32 set"
  mx_listening :: bool
  mx_all_clients_dropped :: bool
  mx_remote_client_dropped :: bool
  mx_remote_listener_dropped :: bool
  mx_goodbye_sent :: bool
  mx_goodbye_received :: bool
  mx_send_provider :: "credit_provider option"
  mx_send_report :: "credits_report option"
  mx_receive_monitor :: global_monitor
  mx_remote_report :: credits_report
  mx_inhibit_ports :: "side_port set"
  mx_pool :: nat

datatype connect_rsp = RspAccepted side_port | RspRejected bool

datatype 'v mux_out =
    Feed "'v multiplex_msg" "bytes option"
  | FlushSink reply_id
  | Respond reply_id connect_rsp
  | Reply reply_id
  | ToReceiver side_port port_msg
  | ToListener bool request
  | ClientDroppedToListener
  | SetPreConnected side_port pre_connect_state

datatype 'v mux_result =
    MuxPanic
  | MuxError "(unit, unit) chmux_error"
  | MuxOk mux "'v mux_out list"

definition protocol_err :: "string \<Rightarrow> 'v mux_result" where
  "protocol_err msg = MuxError (Protocol msg)"

fun mux_bind :: "'v mux_result \<Rightarrow> (mux \<Rightarrow> 'v mux_result) \<Rightarrow> 'v mux_result" where
  "mux_bind MuxPanic f = MuxPanic"
| "mux_bind (MuxError e) f = MuxError e"
| "mux_bind (MuxOk m out) f =
     (case f m of MuxPanic \<Rightarrow> MuxPanic | MuxError e \<Rightarrow> MuxError e | MuxOk m' out' \<Rightarrow> MuxOk m' (out @ out'))"

fun mux_of_chmux :: "(unit, unit) chmux_error + 'a \<Rightarrow> ('a \<Rightarrow> 'v mux_result) \<Rightarrow> 'v mux_result" where
  "mux_of_chmux (Inl e) f = MuxError e"
| "mux_of_chmux (Inr x) f = f x"

section \<open>Ports\<close>

definition should_terminate :: "mux \<Rightarrow> bool" where
  "should_terminate m \<longleftrightarrow>
     (dom (mx_ports m) = {} \<and>
      (mx_all_clients_dropped m \<or> mx_remote_listener_dropped m) \<and>
      (\<not> mx_listening m \<or> mx_remote_client_dropped m) \<and>
      mx_outstanding m = {}) \<or>
     mx_goodbye_sent m \<or> mx_goodbye_received m"

definition new_conn :: "mux \<Rightarrow> side_port \<Rightarrow> side_port \<Rightarrow> bool \<Rightarrow> port_conn" where
  "new_conn m local_port remote_port pre_connect_credit =
     \<lparr>pc_port = local_port, pc_remote_port = remote_port,
      pc_provider = credit_send_pair PortPool (mc_remote_port_receive_buffer (mx_cfg m)),
      pc_receiver_open = True,
      pc_monitor = new_port_monitor (mc_port_receive_buffer (mx_cfg m))
                     (mc_port_receive_throttle (mx_cfg m)),
      pc_receiver_closed = False, pc_receiver_dropped = False, pc_sender_dropped = False,
      pc_remote_receiver_closed = False, pc_closed_notify = Some [],
      pc_remote_receiver_dropped = False, pc_report_processed = [],
      pc_pre_connected = (if pre_connect_credit then Some PreConnected else None),
      pc_pre_connect_credit = pre_connect_credit\<rparr>"

definition create_port :: "side_port \<Rightarrow> side_port \<Rightarrow> bool \<Rightarrow> mux \<Rightarrow> 'v mux_result" where
  "create_port local_port remote_port pre_connect_credit m =
     (let m' = m\<lparr>mx_ports := (mx_ports m)(local_port \<mapsto>
                   Connected (new_conn m local_port remote_port pre_connect_credit))\<rparr>
      in case mx_ports m local_port of
           Some (Connected _) \<Rightarrow> MuxPanic
         | Some (Connecting n _) \<Rightarrow> MuxOk (m'\<lparr>mx_alloc := drop_local (mx_alloc m) n\<rparr>) []
         | None \<Rightarrow> MuxOk m' [])"

definition release_port :: "side_port \<Rightarrow> port_alloc \<Rightarrow> port_alloc" where
  "release_port port p = (case port of Local n \<Rightarrow> drop_local p n | Remote n \<Rightarrow> drop_remote p n)"

definition freeable :: "port_conn \<Rightarrow> bool" where
  "freeable c \<longleftrightarrow>
     pc_sender_dropped c \<and> pc_receiver_dropped c \<and> \<not> pc_receiver_open c \<and>
     pc_remote_receiver_dropped c"

definition maybe_free_port :: "side_port \<Rightarrow> mux \<Rightarrow> 'v mux_result" where
  "maybe_free_port local_port m =
     (case mx_ports m local_port of
        Some (Connected c) \<Rightarrow>
          if freeable c
          then MuxOk (m\<lparr>mx_ports := (mx_ports m)(local_port := None),
                        mx_alloc := release_port (pc_port c) (mx_alloc m)\<rparr>) []
          else MuxOk m []
      | _ \<Rightarrow> MuxPanic)"

definition conn_at :: "mux \<Rightarrow> side_port \<Rightarrow> port_conn option" where
  "conn_at m port = (case mx_ports m port of Some (Connected c) \<Rightarrow> Some c | _ \<Rightarrow> None)"

definition set_conn :: "side_port \<Rightarrow> port_conn \<Rightarrow> mux \<Rightarrow> mux" where
  "set_conn port c m = m\<lparr>mx_ports := (mx_ports m)(port \<mapsto> Connected c)\<rparr>"

section \<open>Local events\<close>

definition handle_connect_req :: "port_req \<Rightarrow> reply_id \<Rightarrow> reply_id \<Rightarrow> mux \<Rightarrow> 'v mux_result" where
  "handle_connect_req req sent_tx response_tx m =
     (if mx_remote_listener_dropped m
      then MuxOk (m\<lparr>mx_alloc := drop_local (mx_alloc m) (pr_port req)\<rparr>)
             [Respond response_tx (RspRejected False)]
      else
        (let port_num = pr_port req;
             opt_id = (if mc_remote_port_id (mx_cfg m) then Some (pr_id req) else None);
             feed = [Feed (OpenPort port_num (pr_wait req) opt_id (pr_pre_connect req)) None, Reply sent_tx]
         in if pr_pre_connect req
            then mux_bind (create_port (Local port_num) (Local port_num) True m)
                   (\<lambda>m. MuxOk m (Respond response_tx (RspAccepted (Local port_num)) # feed))
            else if mx_ports m (Local port_num) \<noteq> None then MuxPanic
            else MuxOk (m\<lparr>mx_ports := (mx_ports m)(Local port_num \<mapsto> Connecting port_num response_tx)\<rparr>)
                   feed))"

definition send_port_item :: "mux \<Rightarrow> port_req \<Rightarrow> port_data_item" where
  "send_port_item m req =
     (let item = port_data_item_of req
      in if mc_remote_port_id (mx_cfg m) then item else item\<lparr>pdi_id := pdi_port item\<rparr>)"

fun open_sent_ports :: "(port_req \<times> reply_id) list \<Rightarrow> mux \<Rightarrow> 'v mux_result" where
  "open_sent_ports [] m = MuxOk m []"
| "open_sent_ports ((req, response_tx) # ps) m =
     mux_bind
       (if pr_pre_connect req
        then mux_bind (create_port (Local (pr_port req)) (Local (pr_port req)) True m)
               (\<lambda>m. MuxOk m [Respond response_tx (RspAccepted (Local (pr_port req)))])
        else if mx_ports m (Local (pr_port req)) \<noteq> None then MuxPanic
        else MuxOk (m\<lparr>mx_ports := (mx_ports m)(Local (pr_port req) \<mapsto>
                        Connecting (pr_port req) response_tx)\<rparr>) [])
       (open_sent_ports ps)"

fun handle_port_evt :: "port_evt \<Rightarrow> mux \<Rightarrow> 'v mux_result" where
  "handle_port_evt (Accepted local_port remote_port port_tx) m =
     (if remote_port \<notin> mx_outstanding m then MuxPanic
      else mux_bind
             (create_port local_port (Remote remote_port) False
               (m\<lparr>mx_outstanding := mx_outstanding m - {remote_port}\<rparr>))
             (\<lambda>m. MuxOk m [Feed (PortOpened remote_port local_port) None,
                            Respond port_tx (RspAccepted local_port)]))"
| "handle_port_evt (AcceptedAfterPreConnect remote_port) m =
     (if remote_port \<notin> mx_outstanding m then MuxPanic
      else MuxOk (m\<lparr>mx_outstanding := mx_outstanding m - {remote_port}, mx_pool := mx_pool m + 1\<rparr>)
             [Feed (PortOpened remote_port (Remote remote_port)) None])"
| "handle_port_evt (RejectedEvt remote_port no_ports returns) m =
     (if remote_port \<notin> mx_outstanding m then MuxPanic
      else MuxOk (m\<lparr>mx_outstanding := mx_outstanding m - {remote_port},
                    mx_pool := (if returns then mx_pool m + 1 else mx_pool m)\<rparr>)
             [Feed (Rejected remote_port no_ports) None])"
| "handle_port_evt (RejectedAfterAccept remote_port no_ports) m =
     MuxOk m [Feed (Rejected remote_port no_ports) None]"
| "handle_port_evt (SendData remote_port data f l credits) m =
     MuxOk m [Feed (Data remote_port f l credits) (Some data)]"
| "handle_port_evt (SendPorts remote_port f l ps) m =
     (let items = map (\<lambda>(req, _). send_port_item m req) ps;
          wait = (\<exists>(req, _) \<in> set ps. pr_wait req)
      in mux_bind (open_sent_ports ps m)
           (\<lambda>m. MuxOk m [Feed (PortData remote_port f l wait items) None]))"
| "handle_port_evt (Flush flushed_tx) m = MuxOk m [FlushSink flushed_tx]"
| "handle_port_evt (RequestReceivedReportEvt local_port processed_tx) m =
     (case conn_at m local_port of
        None \<Rightarrow> MuxPanic
      | Some c \<Rightarrow>
          MuxOk (set_conn local_port (c\<lparr>pc_report_processed := pc_report_processed c @ [processed_tx]\<rparr>) m)
            [Feed (RequestReceivedReport (pc_remote_port c)) None])"
| "handle_port_evt (ReceivedReportEvt remote_port) m =
     MuxOk m [Feed (ReceivedReport remote_port) None]"
| "handle_port_evt (ReturnCredits remote_port credits) m =
     MuxOk m [Feed (PortCredits remote_port credits) None]"
| "handle_port_evt (ChangeGlobalCreditUsage remote_port allow) m =
     MuxOk m [Feed (if allow then AllowGlobalCreditUsageByPort remote_port
                    else InhibitGlobalCreditUsageByPort remote_port) None]"
| "handle_port_evt (SenderDropped local_port) m =
     (case conn_at m local_port of
        None \<Rightarrow> MuxPanic
      | Some c \<Rightarrow>
          if pc_sender_dropped c then MuxPanic
          else mux_bind
                 (MuxOk (set_conn local_port (c\<lparr>pc_sender_dropped := True\<rparr>) m)
                    [Feed (SendFinish (pc_remote_port c)) None])
                 (maybe_free_port local_port))"
| "handle_port_evt (ReceiverClosed local_port) m =
     (case conn_at m local_port of
        None \<Rightarrow> MuxPanic
      | Some c \<Rightarrow>
          if pc_receiver_closed c \<or> pc_receiver_dropped c then MuxPanic
          else MuxOk (set_conn local_port (c\<lparr>pc_receiver_closed := True\<rparr>) m)
                 [Feed (ReceiveClose (pc_remote_port c)) None])"
| "handle_port_evt (ReceiverDropped local_port) m =
     (case conn_at m local_port of
        None \<Rightarrow> MuxPanic
      | Some c \<Rightarrow>
          if pc_receiver_dropped c then MuxPanic
          else mux_bind
                 (MuxOk (set_conn local_port (c\<lparr>pc_receiver_dropped := True\<rparr>) m)
                    [Feed (ReceiveFinish (pc_remote_port c)) None])
                 (maybe_free_port local_port))"

fun handle_event :: "global_evt \<Rightarrow> mux \<Rightarrow> 'v mux_result" where
  "handle_event (ConnectReq req sent_tx response_tx) m = handle_connect_req req sent_tx response_tx m"
| "handle_event (PortEvent evt) m = handle_port_evt evt m"
| "handle_event AllClientsDropped m =
     MuxOk (m\<lparr>mx_all_clients_dropped := True\<rparr>) [Feed ClientFinish None]"
| "handle_event ListenerDropped m =
     MuxOk (m\<lparr>mx_listening := False\<rparr>) [Feed ListenerFinish None]"
| "handle_event (ReturnGlobalCreditsEvt credits) m = MuxOk m [Feed (GlobalCredits credits) None]"
| "handle_event (GlobalCreditsReportEvt report) m = MuxOk m [Feed (GlobalCreditsReport report) None]"
| "handle_event SendGoodbye m =
     MuxOk (m\<lparr>mx_goodbye_sent := True\<rparr>) [Feed Goodbye None]"


section \<open>Received messages\<close>

text \<open>Messages a port cannot take are protocol errors; their texts carry no port numbers here.
  The answers of the two listener queues (for requests that wait and that do not) are an
  argument.\<close>

definition pre_connect_port :: "u32 \<Rightarrow> string \<Rightarrow> string \<Rightarrow> mux \<Rightarrow> 'v mux_result" where
  "pre_connect_port client_port too_many taken m =
     (if mx_pool m = 0 then protocol_err too_many
      else case into_remote (mx_alloc m) client_port of
        Panic \<Rightarrow> MuxPanic
      | Ret (AllocatedRemote n, p) \<Rightarrow>
          create_port (Remote n) (Remote client_port) False (m\<lparr>mx_pool := mx_pool m - 1, mx_alloc := p\<rparr>)
      | Ret (_, p) \<Rightarrow> protocol_err taken)"

definition recv_open_port ::
  "(bool \<Rightarrow> try_result) \<Rightarrow> u32 \<Rightarrow> bool \<Rightarrow> u32 option \<Rightarrow> bool \<Rightarrow> mux \<Rightarrow> 'v mux_result" where
  "recv_open_port lq client_port wait opt_id pre_connect m =
     (if client_port \<in> mx_outstanding m
      then protocol_err ''remote endpoint sent OpenPort request for same remote port twice''
      else
        (let m = m\<lparr>mx_outstanding := insert client_port (mx_outstanding m)\<rparr>
         in if card (mx_outstanding m) > unat (mc_connect_queue (mx_cfg m))
            then protocol_err ''remote endpoint sent too many OpenPort requests''
            else mux_bind
              (if pre_connect
               then pre_connect_port client_port
                      ''remote endpoint sent too many pre-connected OpenPort requests''
                      ''remote endpoint sent OpenPort request for already allocated remote port'' m
               else MuxOk m [])
              (\<lambda>m.
                 let req = \<lparr>rqs_remote_port = client_port,
                            rqs_id = (case opt_id of None \<Rightarrow> client_port | Some i \<Rightarrow> i),
                            rqs_wait = wait, rqs_pre_connected = pre_connect\<rparr>
                 in if mx_listening m
                    then (case lq wait of
                            SendFull \<Rightarrow> protocol_err ''remote endpoint sent too many OpenPort requests''
                          | SendOk \<Rightarrow> MuxOk m [ToListener wait req]
                          | SendClosed \<Rightarrow> MuxOk m [])
                    else MuxOk m [])))"

definition recv_port_opened :: "u32 \<Rightarrow> side_port \<Rightarrow> mux \<Rightarrow> 'v mux_result" where
  "recv_port_opened client_port server_port m =
     (case mx_ports m (Local client_port) of
        None \<Rightarrow> protocol_err ''received PortOpened message for unknown port''
      | Some (Connecting port response_tx) \<Rightarrow>
          mux_bind
            (create_port (Local port) (flipped server_port) False
              (m\<lparr>mx_ports := (mx_ports m)(Local client_port := None)\<rparr>))
            (\<lambda>m. MuxOk m [Respond response_tx (RspAccepted (Local port))])
      | Some (Connected c) \<Rightarrow>
          if pc_pre_connected c \<noteq> None
          then MuxOk (set_conn (Local client_port)
                 (c\<lparr>pc_pre_connected := Some PreAccepted, pc_pre_connect_credit := False\<rparr>) m)
                 [SetPreConnected (Local client_port) PreAccepted]
          else protocol_err ''received PortOpened message for port not in connecting or pre-connected state'')"

definition recv_rejected :: "u32 \<Rightarrow> bool \<Rightarrow> mux \<Rightarrow> 'v mux_result" where
  "recv_rejected client_port no_ports m =
     (case mx_ports m (Local client_port) of
        None \<Rightarrow> protocol_err ''received Rejected message for unknown port''
      | Some (Connecting port response_tx) \<Rightarrow>
          MuxOk (m\<lparr>mx_ports := (mx_ports m)(Local client_port := None),
                   mx_alloc := drop_local (mx_alloc m) port\<rparr>)
            [Respond response_tx (RspRejected no_ports)]
      | Some (Connected c) \<Rightarrow>
          if pc_pre_connected c \<noteq> None
          then MuxOk (set_conn (Local client_port)
                 (c\<lparr>pc_pre_connected := Some (PreRejected no_ports), pc_pre_connect_credit := False\<rparr>) m)
                 [SetPreConnected (Local client_port) (PreRejected no_ports)]
          else protocol_err ''received Rejected message for port not in connecting or pre-connected state'')"

text \<open>The charges of data: to the global monitor unless only port credits are used, then to the
  monitor of the port.\<close>

definition charge_data ::
  "data_credits \<Rightarrow> u32 \<Rightarrow> global_monitor \<Rightarrow> port_monitor \<Rightarrow>
     (unit, unit) chmux_error + (u32 \<times> used_port_credit \<times> global_monitor \<times> port_monitor)" where
  "charge_data credits amount gm pm =
     (let (global, port) = charge credits amount;
          g = (case credits of PortOnly \<Rightarrow> (Inr 0, gm) | _ \<Rightarrow> global_use_credits global gm)
      in case g of
           (Inl e, _) \<Rightarrow> Inl e
         | (Inr used, gm) \<Rightarrow>
             (case port_use_credits port global pm of
                (Inl e, _) \<Rightarrow> Inl e
              | (Inr credit, pm) \<Rightarrow> Inr (used, credit, gm, pm)))"

definition recv_data ::
  "side_port \<Rightarrow> bool \<Rightarrow> bool \<Rightarrow> data_credits \<Rightarrow> bytes option \<Rightarrow> mux \<Rightarrow> 'v mux_result" where
  "recv_data port f l credits data m =
     (let port = flipped port
      in case conn_at m port of
           None \<Rightarrow> protocol_err ''received data for non-connected or finished local port''
         | Some c \<Rightarrow>
             if \<not> pc_receiver_open c then protocol_err ''received data for non-connected or finished local port''
             else case data of
               None \<Rightarrow> MuxPanic
             | Some data \<Rightarrow>
                 if length data \<ge> 2 ^ 32 then protocol_err ''received data exceeds maximum size''
                 else if word_of_nat (length data) > mc_chunk_size (mx_cfg m)
                 then protocol_err ''received data exceeds maximum chunk size''
                 else mux_of_chmux
                   (charge_data credits (max (word_of_nat (length data)) 1) (mx_receive_monitor m) (pc_monitor c))
                   (\<lambda>(used, credit, gm, pm).
                      MuxOk
                        (set_conn port (c\<lparr>pc_monitor := pm\<rparr>)
                          (m\<lparr>mx_receive_monitor := gm,
                             mx_remote_report := report_consume (mx_remote_report m) used,
                             mx_inhibit_ports :=
                               (if fst (inhibiting_global_credit_usage False pm)
                                then insert port (mx_inhibit_ports m) else mx_inhibit_ports m)\<rparr>))
                        [ToReceiver port (DataMsg
                           \<lparr>rd_buf = data, rd_first = f, rd_last = l, rd_port_credit = credit,
                            rd_global_credit = used\<rparr>)]))"

fun recv_port_requests :: "bool \<Rightarrow> port_data_item list \<Rightarrow> mux \<Rightarrow> 'v mux_result" where
  "recv_port_requests wait [] m = MuxOk m []"
| "recv_port_requests wait (item # items) m =
     (if pdi_port item \<in> mx_outstanding m
      then protocol_err ''remote endpoint sent PortData request for same remote port twice''
      else mux_bind
        (let m = m\<lparr>mx_outstanding := insert (pdi_port item) (mx_outstanding m)\<rparr>
         in if pdi_pre_connect item
            then pre_connect_port (pdi_port item)
                   ''remote endpoint sent too many pre-connected PortData requests''
                   ''remote endpoint sent PortData request for already allocated remote port'' m
            else MuxOk m [])
        (recv_port_requests wait items))"

definition request_of_item :: "bool \<Rightarrow> port_data_item \<Rightarrow> request" where
  "request_of_item wait item =
     \<lparr>rqs_remote_port = pdi_port item, rqs_id = pdi_id item, rqs_wait = wait,
      rqs_pre_connected = pdi_pre_connect item\<rparr>"

definition recv_port_data ::
  "side_port \<Rightarrow> bool \<Rightarrow> bool \<Rightarrow> bool \<Rightarrow> port_data_item list \<Rightarrow> mux \<Rightarrow> 'v mux_result" where
  "recv_port_data port f l wait items m =
     (let port = flipped port
      in case conn_at m port of
           None \<Rightarrow> protocol_err ''received port data for non-connected or finished local port''
         | Some c \<Rightarrow>
             if \<not> pc_receiver_open c
             then protocol_err ''received port data for non-connected or finished local port''
             else if length items * 4 \<ge> 2 ^ 32 \<or> word_of_nat (length items * 4) > mc_chunk_size (mx_cfg m)
             then protocol_err ''received ports exceeds maximum chunk size''
             else case (port_use_credits (word_of_nat (length items * 4)) 0 (pc_monitor c) ::
                          ((unit, unit) chmux_error + used_port_credit) \<times> port_monitor) of
               (r, pm) \<Rightarrow>
                 mux_of_chmux r (\<lambda>credit.
                   mux_bind (recv_port_requests wait items (set_conn port (c\<lparr>pc_monitor := pm\<rparr>) m))
                     (\<lambda>m. MuxOk m [ToReceiver port (PortRequestsMsg
                             \<lparr>rq_requests = map (request_of_item wait) items, rq_first = f, rq_last = l,
                              rq_credit = credit\<rparr>)])))"

definition with_conn :: "side_port \<Rightarrow> string \<Rightarrow> (port_conn \<Rightarrow> 'v mux_result) \<Rightarrow> mux \<Rightarrow> 'v mux_result" where
  "with_conn port err f m = (case conn_at m port of None \<Rightarrow> protocol_err err | Some c \<Rightarrow> f c)"

definition when_conn :: "side_port \<Rightarrow> (port_conn \<Rightarrow> 'v mux_result) \<Rightarrow> mux \<Rightarrow> 'v mux_result" where
  "when_conn port f m = (case conn_at m port of None \<Rightarrow> MuxOk m [] | Some c \<Rightarrow> f c)"

definition recv_send_finish :: "side_port \<Rightarrow> mux \<Rightarrow> 'v mux_result" where
  "recv_send_finish port m =
     with_conn port ''received SendFinish message for local port not in connected state''
       (\<lambda>c. if \<not> pc_receiver_open c
            then protocol_err ''received SendFinish message for local port more than once''
            else mux_bind
              (MuxOk (set_conn port (c\<lparr>pc_receiver_open := False\<rparr>) m) [ToReceiver port FinishedMsg])
              (maybe_free_port port)) m"

text \<open>Closing the provider and telling those who wait for the hang-up; taking the list of waiters
  twice panics.\<close>

definition hang_up :: "bool \<Rightarrow> port_conn \<Rightarrow> (port_conn \<times> reply_id list) exec" where
  "hang_up gracefully c =
     (case pc_closed_notify c of
        None \<Rightarrow> Panic
      | Some notifies \<Rightarrow>
          Ret (c\<lparr>pc_provider := close_provider gracefully (pc_provider c),
                 pc_remote_receiver_closed := True, pc_closed_notify := None\<rparr>, notifies))"

definition recv_receive_close :: "side_port \<Rightarrow> mux \<Rightarrow> 'v mux_result" where
  "recv_receive_close port m =
     with_conn port ''received ReceiveClose message for port not in connected state''
       (\<lambda>c. if pc_remote_receiver_closed c
            then protocol_err ''received more than one ReceiveClose message for port''
            else case hang_up True c of
              Panic \<Rightarrow> MuxPanic
            | Ret (c, notifies) \<Rightarrow>
                mux_bind (MuxOk (set_conn port c m) (map Reply notifies)) (maybe_free_port port)) m"

definition recv_receive_finish :: "side_port \<Rightarrow> mux \<Rightarrow> 'v mux_result" where
  "recv_receive_finish port m =
     with_conn port ''received ReceiveFinish message for port not in connected state''
       (\<lambda>c. case (if pc_remote_receiver_closed c then Ret (c, []) else hang_up False c) of
              Panic \<Rightarrow> MuxPanic
            | Ret (c, notifies) \<Rightarrow>
                mux_bind
                  (MuxOk (set_conn port
                     (c\<lparr>pc_report_processed := [], pc_remote_receiver_dropped := True\<rparr>) m)
                     (map Reply (notifies @ pc_report_processed c)))
                  (maybe_free_port port)) m"

definition recv_global_credits :: "global_credits \<Rightarrow> mux \<Rightarrow> 'v mux_result" where
  "recv_global_credits gc m =
     (case mx_send_provider m of
        None \<Rightarrow> protocol_err ''received GlobalCredits message from peer without global credits support''
      | Some p \<Rightarrow>
          (case (provide (gc_credits gc) p :: ((unit, unit) chmux_error + unit) \<times> credit_provider) of
             (r, p) \<Rightarrow>
               mux_of_chmux r (\<lambda>_.
                 let (report, p) = take_status (gc_seq gc) p;
                     report = (case mx_send_report m of
                                 None \<Rightarrow> report
                               | Some prev \<Rightarrow> report\<lparr>rep_min := min (rep_min report) (rep_min prev)\<rparr>)
                 in MuxOk (m\<lparr>mx_send_provider := Some p, mx_send_report := Some report\<rparr>) [])))"

definition recv_client_finish :: "(bool \<Rightarrow> try_result) \<Rightarrow> mux \<Rightarrow> 'v mux_result" where
  "recv_client_finish lq m =
     (if mx_listening m \<and> (lq True = SendFull \<or> lq False = SendFull)
      then protocol_err ''remote endpoint sent too many OpenPort or ClientFinish requests''
      else MuxOk (m\<lparr>mx_remote_client_dropped := True\<rparr>)
             (if mx_listening m then [ClientDroppedToListener] else []))"

definition recv_reset :: "'v mux_result" where
  "recv_reset = MuxError ResetError"

fun handle_received_msg ::
  "(bool \<Rightarrow> try_result) \<Rightarrow> 'w multiplex_msg \<Rightarrow> bytes option \<Rightarrow> mux \<Rightarrow> 'v mux_result" where
  "handle_received_msg lq Reset data m = recv_reset"
| "handle_received_msg lq (Hello v x) data m =
     protocol_err ''received Hello message for already established multiplexer connection''"
| "handle_received_msg lq Ping data m = MuxOk m []"
| "handle_received_msg lq (OpenPort client_port wait opt_id pre_connect) data m =
     recv_open_port lq client_port wait opt_id pre_connect m"
| "handle_received_msg lq (PortOpened client_port server_port) data m =
     recv_port_opened client_port server_port m"
| "handle_received_msg lq (Rejected client_port no_ports) data m = recv_rejected client_port no_ports m"
| "handle_received_msg lq (Data port f l credits) data m = recv_data port f l credits data m"
| "handle_received_msg lq (PortData port f l wait items) data m = recv_port_data port f l wait items m"
| "handle_received_msg lq (RequestReceivedReport port) data m =
     with_conn (flipped port) ''received processed report request for non-connected or finished local port''
       (\<lambda>c. if pc_receiver_open c then MuxOk m [ToReceiver (flipped port) RequestReportMsg]
            else protocol_err ''received processed report request for non-connected or finished local port'') m"
| "handle_received_msg lq (ReceivedReport port) data m =
     when_conn (flipped port)
       (\<lambda>c. case pc_report_processed c of
              [] \<Rightarrow> MuxOk m []
            | processed_tx # rest \<Rightarrow>
                MuxOk (set_conn (flipped port) (c\<lparr>pc_report_processed := rest\<rparr>) m) [Reply processed_tx]) m"
| "handle_received_msg lq (PortCredits port credits) data m =
     when_conn (flipped port)
       (\<lambda>c. case (provide credits (pc_provider c) :: ((unit, unit) chmux_error + unit) \<times> credit_provider) of
              (r, p) \<Rightarrow> mux_of_chmux r (\<lambda>_. MuxOk (set_conn (flipped port) (c\<lparr>pc_provider := p\<rparr>) m) [])) m"
| "handle_received_msg lq (InhibitGlobalCreditUsageByPort port) data m =
     when_conn (flipped port)
       (\<lambda>c. MuxOk (set_conn (flipped port)
              (c\<lparr>pc_provider := set_use_global_credits False (pc_provider c)\<rparr>) m) []) m"
| "handle_received_msg lq (AllowGlobalCreditUsageByPort port) data m =
     when_conn (flipped port)
       (\<lambda>c. MuxOk (set_conn (flipped port)
              (c\<lparr>pc_provider := set_use_global_credits True (pc_provider c)\<rparr>) m) []) m"
| "handle_received_msg lq (SendFinish port) data m = recv_send_finish (flipped port) m"
| "handle_received_msg lq (ReceiveClose port) data m = recv_receive_close (flipped port) m"
| "handle_received_msg lq (ReceiveFinish port) data m = recv_receive_finish (flipped port) m"
| "handle_received_msg lq (GlobalCredits gc) data m = recv_global_credits gc m"
| "handle_received_msg lq (GlobalCreditsReport report) data m = MuxOk (m\<lparr>mx_remote_report := report\<rparr>) []"
| "handle_received_msg lq ClientFinish data m = recv_client_finish lq m"
| "handle_received_msg lq ListenerFinish data m = MuxOk (m\<lparr>mx_remote_listener_dropped := True\<rparr>) []"
| "handle_received_msg lq Goodbye data m = MuxOk (m\<lparr>mx_goodbye_received := True\<rparr>) []"

section \<open>The event loop\<close>

text \<open>Ports that ask for inhibition are kept in a \<^verbatim>\<open>BTreeSet\<close>, whose order is the derived one:
  local ports first, then by number.\<close>

instantiation side_port :: linorder
begin

fun less_eq_side_port :: "side_port \<Rightarrow> side_port \<Rightarrow> bool" where
  "less_eq_side_port (Local a) (Local b) = (a \<le> b)"
| "less_eq_side_port (Local a) (Remote b) = True"
| "less_eq_side_port (Remote a) (Local b) = False"
| "less_eq_side_port (Remote a) (Remote b) = (a \<le> b)"

definition less_side_port :: "side_port \<Rightarrow> side_port \<Rightarrow> bool" where
  "less_side_port p q \<longleftrightarrow> p \<le> q \<and> \<not> q \<le> p"

instance
proof
  fix p q r :: side_port
  show "p < q \<longleftrightarrow> p \<le> q \<and> \<not> q \<le> p" by (rule less_side_port_def)
  show "p \<le> p" by (cases p) auto
  show "p \<le> q \<Longrightarrow> q \<le> r \<Longrightarrow> p \<le> r" by (cases p; cases q; cases r) auto
  show "p \<le> q \<Longrightarrow> q \<le> p \<Longrightarrow> p = q" by (cases p; cases q) auto
  show "p \<le> q \<or> q \<le> p" by (cases p; cases q) auto
qed

end

text \<open>Popping ports off the set until one still asks for inhibition.\<close>

fun pop_inhibit :: "side_port list \<Rightarrow> mux \<Rightarrow> side_port option \<times> mux" where
  "pop_inhibit [] m = (None, m)"
| "pop_inhibit (port # ps) m =
     (let m = m\<lparr>mx_inhibit_ports := mx_inhibit_ports m - {port}\<rparr>
      in case conn_at m port of
           None \<Rightarrow> pop_inhibit ps m
         | Some c \<Rightarrow>
             (case inhibiting_global_credit_usage True (pc_monitor c) of
                (True, pm) \<Rightarrow> (Some (pc_remote_port c), set_conn port (c\<lparr>pc_monitor := pm\<rparr>) m)
              | (False, pm) \<Rightarrow> pop_inhibit ps m))"

text \<open>The next event of high priority, up to the wait for the ports and the global monitor.\<close>

definition next_high_priority ::
  "('b \<Rightarrow> buffer_query \<Rightarrow> ('b \<times> buffer_size) option) \<Rightarrow> 'b \<Rightarrow> mux \<Rightarrow>
     (global_evt option \<times> 'b \<times> mux) exec" where
  "next_high_priority sizer b m =
     (case pop_inhibit (sorted_list_of_set (mx_inhibit_ports m)) m of
        (Some remote_port, m) \<Rightarrow>
          Ret (Some (PortEvent (ChangeGlobalCreditUsage remote_port False)), b, m)
      | (None, m) \<Rightarrow>
          (case mx_send_report m of
             Some report \<Rightarrow> Ret (Some (GlobalCreditsReportEvt report), b, m\<lparr>mx_send_report := None\<rparr>)
           | None \<Rightarrow>
               exec_bind (return_to_remote_sized sizer b (mx_remote_report m) (mx_receive_monitor m))
                 (\<lambda>(credits, b, gm).
                    Ret (map_option ReturnGlobalCreditsEvt credits, b, m\<lparr>mx_receive_monitor := gm\<rparr>))))"

text \<open>The state of a new multiplexer: the pool holds one reserved port for each connection
  request that may be pre-connected.\<close>

fun reserve_pool :: "nat \<Rightarrow> port_alloc \<Rightarrow> port_alloc exec" where
  "reserve_pool 0 p = Ret p"
| "reserve_pool (Suc n) p =
     (case try_reserve p of (True, p') \<Rightarrow> reserve_pool n p' | (False, _) \<Rightarrow> Panic)"

definition new_mux :: "mux_cfg \<Rightarrow> u32 \<Rightarrow> buffer_size \<Rightarrow> u32 option \<Rightarrow> mux exec" where
  "new_mux c maximum initial remote_global_credits =
     exec_bind (reserve_pool (unat (mc_connect_queue c)) (new_port_alloc (maximum + ucast (mc_connect_queue c))))
       (\<lambda>p. Ret
         \<lparr>mx_cfg = c, mx_ports = Map.empty, mx_alloc = p, mx_outstanding = {}, mx_listening = True,
          mx_all_clients_dropped = False, mx_remote_client_dropped = False,
          mx_remote_listener_dropped = False, mx_goodbye_sent = False, mx_goodbye_received = False,
          mx_send_provider = map_option (credit_send_pair GlobalPool) remote_global_credits,
          mx_send_report = None, mx_receive_monitor = new_global_monitor initial,
          mx_remote_report = report_initial (gm_total (new_global_monitor initial)),
          mx_inhibit_ports = {}, mx_pool = unat (mc_connect_queue c)\<rparr>)"

text \<open>The loop ends once Goodbye has gone both ways and the send task has ended.\<close>

definition run_ended :: "mux \<Rightarrow> bool \<Rightarrow> bool" where
  "run_ended m send_task_ended \<longleftrightarrow> mx_goodbye_sent m \<and> mx_goodbye_received m \<and> send_task_ended"

end
