(* ===== verification/Endpoint.thy ===== *)
theory Endpoint
  imports Mux
begin

text \<open>
  An endpoint: the event loop of \<^verbatim>\<open>mux.rs\<close> together with the handles the application holds, as
  a step relation. Handles are allocated ports (of connection requests and of ports being
  accepted), numbers pre-allocated for connection requests, reserved ports, requests of the
  remote endpoint that have not been answered, the senders and receivers of ports, and the
  futures of \<^verbatim>\<open>Sender::all_received\<close>, which may outlive their sender. A handle sends the
  events the code lets it send; the remote endpoint may send any message. The invariant accounts
  for every port number and for the four ends of every port, and shows that a report request that
  comes after its port has been freed is the one event, and that no message, makes the event
  loop panic.
\<close>

section \<open>The endpoint\<close>

text \<open>The ends of the ports that are still there: the senders and receivers the application
  holds, the receivers it has not closed, the senders the remote endpoint has not finished and
  the receivers it has not dropped; and the numbers pre-allocated for connection requests.\<close>

record port_ends =
  pe_senders :: "side_port set"
  pe_receivers :: "side_port set"
  pe_unclosed :: "side_port set"
  pe_remote_senders :: "side_port set"
  pe_remote_receivers :: "side_port set"
  pe_pre :: "u32 set"

record endpoint =
  ep_mux :: mux
  ep_held :: "side_port set"
  ep_reserved :: nat
  ep_requests :: "(u32 \<times> bool) set"
  ep_ends :: port_ends
  ep_reports :: "side_port set"

abbreviation ep_senders :: "endpoint \<Rightarrow> side_port set" where
  "ep_senders e \<equiv> pe_senders (ep_ends e)"

abbreviation ep_receivers :: "endpoint \<Rightarrow> side_port set" where
  "ep_receivers e \<equiv> pe_receivers (ep_ends e)"

abbreviation ep_unclosed :: "endpoint \<Rightarrow> side_port set" where
  "ep_unclosed e \<equiv> pe_unclosed (ep_ends e)"

abbreviation ep_remote_senders :: "endpoint \<Rightarrow> side_port set" where
  "ep_remote_senders e \<equiv> pe_remote_senders (ep_ends e)"

abbreviation ep_remote_receivers :: "endpoint \<Rightarrow> side_port set" where
  "ep_remote_receivers e \<equiv> pe_remote_receivers (ep_ends e)"

abbreviation ep_pre :: "endpoint \<Rightarrow> u32 set" where
  "ep_pre e \<equiv> pe_pre (ep_ends e)"

text \<open>The handles an event is sent with, and those it moves into the event loop. A report
  request is sent by the future \<^verbatim>\<open>all_received\<close> returns: it holds a clone of the channel to the
  event loop and only the number of the port, and sends when it is polled.\<close>

fun owns_evt :: "port_evt \<Rightarrow> endpoint \<Rightarrow> bool" where
  "owns_evt (Accepted p rp _) e = (p \<in> ep_held e \<and> (rp, False) \<in> ep_requests e)"
| "owns_evt (AcceptedAfterPreConnect rp) e = ((rp, True) \<in> ep_requests e \<and> 0 < ep_reserved e)"
| "owns_evt (RejectedEvt rp _ returns) e =
     ((rp, returns) \<in> ep_requests e \<and> (returns \<longrightarrow> 0 < ep_reserved e))"
| "owns_evt (SendPorts _ _ _ ps) e =
     (distinct (map (pr_port \<circ> fst) ps) \<and> (\<forall>(req, _) \<in> set ps. Local (pr_port req) \<in> ep_held e))"
| "owns_evt (RequestReceivedReportEvt p _) e = (p \<in> ep_reports e)"
| "owns_evt (SenderDropped p) e = (p \<in> ep_senders e)"
| "owns_evt (ReceiverClosed p) e = (p \<in> ep_unclosed e)"
| "owns_evt (ReceiverDropped p) e = (p \<in> ep_receivers e)"
| "owns_evt _ e = True"

fun owns :: "global_evt \<Rightarrow> endpoint \<Rightarrow> bool" where
  "owns (ConnectReq req _ _) e = (Local (pr_port req) \<in> ep_held e)"
| "owns (PortEvent evt) e = owns_evt evt e"
| "owns _ e = True"

fun give_evt :: "port_evt \<Rightarrow> endpoint \<Rightarrow> endpoint" where
  "give_evt (Accepted p rp _) e =
     e\<lparr>ep_held := ep_held e - {p}, ep_requests := ep_requests e - {(rp, False)}\<rparr>"
| "give_evt (AcceptedAfterPreConnect rp) e =
     e\<lparr>ep_requests := ep_requests e - {(rp, True)}, ep_reserved := ep_reserved e - 1\<rparr>"
| "give_evt (RejectedEvt rp _ returns) e =
     e\<lparr>ep_requests := ep_requests e - {(rp, returns)},
       ep_reserved := (if returns then ep_reserved e - 1 else ep_reserved e)\<rparr>"
| "give_evt (SendPorts _ _ _ ps) e =
     e\<lparr>ep_held := ep_held e - set (map (Local \<circ> pr_port \<circ> fst) ps)\<rparr>"
| "give_evt (SenderDropped p) e = 
     e\<lparr>ep_ends := (ep_ends e)\<lparr>pe_senders := ep_senders e - {p}\<rparr>\<rparr>"
| "give_evt (ReceiverClosed p) e =
     e\<lparr>ep_ends := (ep_ends e)\<lparr>pe_unclosed := ep_unclosed e - {p}\<rparr>\<rparr>"
| "give_evt (ReceiverDropped p) e =
     e\<lparr>ep_ends := (ep_ends e)\<lparr>pe_receivers := ep_receivers e - {p},
         pe_unclosed := ep_unclosed e - {p}\<rparr>\<rparr>"
| "give_evt _ e = e"

fun give :: "global_evt \<Rightarrow> endpoint \<Rightarrow> endpoint" where
  "give (ConnectReq req _ _) e = e\<lparr>ep_held := ep_held e - {Local (pr_port req)}\<rparr>"
| "give (PortEvent evt) e = give_evt evt e"
| "give _ e = e"

text \<open>The handles the event loop hands out: a sender and a receiver with each accepted port, and
  a request for each port the remote endpoint opens, with a sender and a receiver when it is
  pre-connected.\<close>

definition answered :: "'v mux_out list \<Rightarrow> side_port set" where
  "answered out = {p. \<exists>tx. Respond tx (RspAccepted p) \<in> set out}"

fun offered :: "'w multiplex_msg \<Rightarrow> (u32 \<times> bool) list" where
  "offered (OpenPort client_port _ _ pre_connect) = [(client_port, pre_connect)]"
| "offered (PortData _ _ _ _ items) = map (\<lambda>item. (pdi_port item, pdi_pre_connect item)) items"
| "offered _ = []"

definition opened :: "(u32 \<times> bool) list \<Rightarrow> side_port set" where
  "opened os = {Remote rp | rp. (rp, True) \<in> set os}"

text \<open>A new port has all its ends; the finish of the remote sender and the drop of the remote
  receiver are announced by messages.\<close>

definition add_ends :: "side_port set \<Rightarrow> port_ends \<Rightarrow> port_ends" where
  "add_ends ps es =
     es\<lparr>pe_senders := pe_senders es \<union> ps, pe_receivers := pe_receivers es \<union> ps,
        pe_unclosed := pe_unclosed es \<union> ps, pe_remote_senders := pe_remote_senders es \<union> ps,
        pe_remote_receivers := pe_remote_receivers es \<union> ps\<rparr>"

fun finish_end :: "'w multiplex_msg \<Rightarrow> port_ends \<Rightarrow> port_ends" where
  "finish_end (SendFinish p) es = es\<lparr>pe_remote_senders := pe_remote_senders es - {flipped p}\<rparr>"
| "finish_end (ReceiveFinish p) es = es\<lparr>pe_remote_receivers := pe_remote_receivers es - {flipped p}\<rparr>"
| "finish_end _ es = es"

definition take_ports :: "side_port set \<Rightarrow> endpoint \<Rightarrow> endpoint" where
  "take_ports ps e = e\<lparr>ep_ends := add_ends ps (ep_ends e)\<rparr>"

definition after_event :: "global_evt \<Rightarrow> endpoint \<Rightarrow> mux \<Rightarrow> 'v mux_out list \<Rightarrow> endpoint" where
  "after_event evt e m out = take_ports (answered out) (give evt (e\<lparr>ep_mux := m\<rparr>))"

definition after_msg :: "'w multiplex_msg \<Rightarrow> endpoint \<Rightarrow> mux \<Rightarrow> 'v mux_out list \<Rightarrow> endpoint" where
  "after_msg msg e m out =
     take_ports (answered out \<union> opened (offered msg))
       (e\<lparr>ep_mux := m, ep_requests := ep_requests e \<union> set (offered msg),
         ep_ends := finish_end msg (ep_ends e)\<rparr>)"

text \<open>Only data messages come with data, and they always do.\<close>

fun well_framed :: "'w multiplex_msg \<Rightarrow> bytes option \<Rightarrow> bool" where
  "well_framed (Data _ _ _ _) data = (data \<noteq> None)"
| "well_framed _ data = (data = None)"

text \<open>Besides the event loop, the application uses the allocator, the halves of the credits
  of a port it shares with the event loop, and the list of those waiting for a hang-up. A
  connection request pre-allocates its number, and turns it into an allocated port when it is
  sent (\<^verbatim>\<open>ConnectReq::into_port_req\<close>); a try that finds no free port keeps the number, and
  \<^verbatim>\<open>wait_allocate\<close> repeats it. The future of \<^verbatim>\<open>all_received\<close> is made while the sender lives.\<close>

definition with_alloc :: "port_alloc \<Rightarrow> endpoint \<Rightarrow> endpoint" where
  "with_alloc p e = e\<lparr>ep_mux := (ep_mux e)\<lparr>mx_alloc := p\<rparr>\<rparr>"

definition with_pre :: "u32 set \<Rightarrow> endpoint \<Rightarrow> endpoint" where
  "with_pre ns e = e\<lparr>ep_ends := (ep_ends e)\<lparr>pe_pre := ns\<rparr>\<rparr>"

definition with_port :: "side_port \<Rightarrow> port_conn \<Rightarrow> endpoint \<Rightarrow> endpoint" where
  "with_port k c e = e\<lparr>ep_mux := set_conn k c (ep_mux e)\<rparr>"

inductive ep_step :: "endpoint \<Rightarrow> endpoint \<Rightarrow> bool" where
  event: "owns evt e \<Longrightarrow> handle_event evt (ep_mux e) = MuxOk m (out :: unit mux_out list) \<Longrightarrow>
    ep_step e (after_event evt e m out)"
| received: "well_framed msg data \<Longrightarrow>
    handle_received_msg lq (msg :: unit multiplex_msg) data (ep_mux e) = MuxOk m (out :: unit mux_out list) \<Longrightarrow>
    ep_step e (after_msg msg e m out)"
| poll: "next_high_priority dynamic_size b (ep_mux e) = Ret (evt, b', m) \<Longrightarrow>
    ep_step e (e\<lparr>ep_mux := m\<rparr>)"
| all_received: "k \<in> ep_senders e \<Longrightarrow> ep_step e (e\<lparr>ep_reports := insert k (ep_reports e)\<rparr>)"
| pre_allocate: "try_pre_allocate_local (mx_alloc (ep_mux e)) = Some (Some n, p) \<Longrightarrow>
    ep_step e (with_pre (insert n (ep_pre e)) (with_alloc p e))"
| allocate: "n \<in> ep_pre e \<Longrightarrow> pre_try_allocate (mx_alloc (ep_mux e)) n = Ret (True, p) \<Longrightarrow>
    ep_step e ((with_pre (ep_pre e - {n}) (with_alloc p e))\<lparr>ep_held := insert (Local n) (ep_held e)\<rparr>)"
| allocate_exhausted: "n \<in> ep_pre e \<Longrightarrow> pre_try_allocate (mx_alloc (ep_mux e)) n = Ret (False, p) \<Longrightarrow>
    ep_step e (with_alloc p e)"
| drop_pre: "n \<in> ep_pre e \<Longrightarrow>
    ep_step e (with_pre (ep_pre e - {n}) (with_alloc (drop_pre_allocated (mx_alloc (ep_mux e)) n) e))"
| reserve: "try_reserve (mx_alloc (ep_mux e)) = (True, p) \<Longrightarrow>
    ep_step e ((with_alloc p e)\<lparr>ep_reserved := ep_reserved e + 1\<rparr>)"
| into_local: "0 < ep_reserved e \<Longrightarrow> into_local (mx_alloc (ep_mux e)) = Some (Ret (n, p)) \<Longrightarrow>
    ep_step e ((with_alloc p e)\<lparr>ep_held := insert (Local n) (ep_held e), ep_reserved := ep_reserved e - 1\<rparr>)"
| into_remote: "0 < ep_reserved e \<Longrightarrow>
    into_remote (mx_alloc (ep_mux e)) rp = Ret (AllocatedRemote n, p) \<Longrightarrow>
    ep_step e ((with_alloc p e)\<lparr>ep_held := insert (Remote n) (ep_held e), ep_reserved := ep_reserved e - 1\<rparr>)"
| into_remote_taken: "0 < ep_reserved e \<Longrightarrow>
    into_remote (mx_alloc (ep_mux e)) rp = Ret (AlreadyAllocated n, p) \<Longrightarrow>
    ep_step e ((with_alloc p e)\<lparr>ep_reserved := ep_reserved e - 1\<rparr>)"
| drop_port: "k \<in> ep_held e \<Longrightarrow>
    ep_step e ((with_alloc (release_port k (mx_alloc (ep_mux e))) e)\<lparr>ep_held := ep_held e - {k}\<rparr>)"
| drop_reservation: "0 < ep_reserved e \<Longrightarrow> drop_reserved (mx_alloc (ep_mux e)) = Ret p \<Longrightarrow>
    ep_step e ((with_alloc p e)\<lparr>ep_reserved := ep_reserved e - 1\<rparr>)"
| credits: "conn_at (ep_mux e) k = Some c \<Longrightarrow>
    ep_step e (with_port k (c\<lparr>pc_provider := provider, pc_monitor := monitor\<rparr>) e)"
| await_hangup: "conn_at (ep_mux e) k = Some c \<Longrightarrow> pc_closed_notify c = Some notifies \<Longrightarrow>
    ep_step e (with_port k (c\<lparr>pc_closed_notify := Some (notifies @ [tx])\<rparr>) e)"

definition ep_start :: "mux \<Rightarrow> endpoint" where
  "ep_start m =
     \<lparr>ep_mux = m, ep_held = {}, ep_reserved = 0, ep_requests = {},
      ep_ends = \<lparr>pe_senders = {}, pe_receivers = {}, pe_unclosed = {}, pe_remote_senders = {},
        pe_remote_receivers = {}, pe_pre = {}\<rparr>,
      ep_reports = {}\<rparr>"

inductive ep_reachable :: "endpoint \<Rightarrow> bool" where
  start: "new_mux c maximum initial global_credits = Ret m \<Longrightarrow> ep_reachable (ep_start m)"
| step: "ep_reachable e \<Longrightarrow> ep_step e e' \<Longrightarrow> ep_reachable e'"

section \<open>The invariant\<close>

definition table_ok :: "(side_port \<rightharpoonup> port_state) \<Rightarrow> bool" where
  "table_ok ports \<longleftrightarrow>
     (\<forall>k s. ports k = Some s \<longrightarrow>
       (case s of
          Connecting n _ \<Rightarrow> k = Local n
        | Connected c \<Rightarrow> pc_port c = k \<and> \<not> freeable c \<and>
            (pc_closed_notify c = None \<longleftrightarrow> pc_remote_receiver_closed c)))"

definition accounted :: "side_port set \<Rightarrow> nat \<Rightarrow> port_alloc \<Rightarrow> bool" where
  "accounted owned res p \<longleftrightarrow>
     local_used p = {n. Local n \<in> owned} \<and> remote_used p = {n. Remote n \<in> owned} \<and>
     reserved p = res \<and> card (local_used p) + card (remote_used p) + reserved p \<le> limit p"

definition mux_ok :: "side_port set \<Rightarrow> nat \<Rightarrow> mux \<Rightarrow> bool" where
  "mux_ok hs res m \<longleftrightarrow>
     table_ok (mx_ports m) \<and> hs \<inter> dom (mx_ports m) = {} \<and>
     accounted (dom (mx_ports m) \<union> hs) (mx_pool m + res) (mx_alloc m)"

definition ports_where :: "(port_conn \<Rightarrow> bool) \<Rightarrow> mux \<Rightarrow> side_port set" where
  "ports_where f m = {k. \<exists>c. conn_at m k = Some c \<and> f c}"

definition open_sender :: "port_conn \<Rightarrow> bool" where
  "open_sender c \<longleftrightarrow> \<not> pc_sender_dropped c"

definition open_receiver :: "port_conn \<Rightarrow> bool" where
  "open_receiver c \<longleftrightarrow> \<not> pc_receiver_dropped c"

definition unclosed :: "port_conn \<Rightarrow> bool" where
  "unclosed c \<longleftrightarrow> \<not> pc_receiver_closed c \<and> \<not> pc_receiver_dropped c"

definition remote_receiver :: "port_conn \<Rightarrow> bool" where
  "remote_receiver c \<longleftrightarrow> \<not> pc_remote_receiver_dropped c"

definition ends :: "mux \<Rightarrow> port_ends" where
  "ends m =
     \<lparr>pe_senders = ports_where open_sender m, pe_receivers = ports_where open_receiver m,
      pe_unclosed = ports_where unclosed m, pe_remote_senders = ports_where pc_receiver_open m,
      pe_remote_receivers = ports_where remote_receiver m,
      pe_pre = local_pre_allocated (mx_alloc m)\<rparr>"

definition ep_inv :: "endpoint \<Rightarrow> bool" where
  "ep_inv e \<longleftrightarrow>
     mux_ok (ep_held e) (ep_reserved e) (ep_mux e) \<and>
     ends (ep_mux e) = ep_ends e \<and>
     mx_outstanding (ep_mux e) = fst ` ep_requests e \<and> inj_on fst (ep_requests e)"


section \<open>Accounting for port numbers\<close>

lemma card_remove_le: "card (A - {n :: u32}) \<le> card A"
  by (rule card_mono) auto

lemma card_insert_new: "n \<notin> A \<Longrightarrow> card (insert (n :: u32) A) = card A + 1"
  by simp

lemma drop_local_keeps [simp]:
  "local_used (drop_local p n) = local_used p - {n}" "remote_used (drop_local p n) = remote_used p"
  "reserved (drop_local p n) = reserved p" "limit (drop_local p n) = limit p"
  "local_pre_allocated (drop_local p n) = local_pre_allocated p"
  by (simp_all add: drop_local_def split: prod.splits)

lemma drop_remote_fields [simp]:
  "local_used (drop_remote p n) = local_used p" "remote_used (drop_remote p n) = remote_used p - {n}"
  "reserved (drop_remote p n) = reserved p" "limit (drop_remote p n) = limit p"
  "local_pre_allocated (drop_remote p n) = local_pre_allocated p"
  by (simp_all add: drop_remote_def)

lemma release_port_pre [simp]: "local_pre_allocated (release_port k p) = local_pre_allocated p"
  by (simp add: release_port_def split: side_port.splits)

lemma into_remote_pre: "into_remote p rp = Ret (r, q) \<Longrightarrow> local_pre_allocated q = local_pre_allocated p"
  by (auto simp: into_remote_def try_allocate_remote_def split: if_splits)

lemma into_local_pre: "into_local p = Some (Ret (n, q)) \<Longrightarrow> local_pre_allocated q = local_pre_allocated p"
  by (auto simp: into_local_def try_allocate_local_def split: if_splits option.splits)

lemma accounted_pre [simp]:
  "accounted owned res (p\<lparr>local_pre_allocated := ns\<rparr>) = accounted owned res p"
  "accounted owned res (p\<lparr>next_number := n\<rparr>) = accounted owned res p"
  by (simp_all add: accounted_def)

lemma accounted_release:
  assumes "accounted owned res p"
  shows "accounted (owned - {k}) res (release_port k p)"
proof -
  have sum: "card (local_used p) + card (remote_used p) + reserved p \<le> limit p"
    using assms unfolding accounted_def by blast
  show ?thesis
  proof (cases k)
    case (Local n)
    have "local_used p - {n} = {j. Local j \<in> owned - {k}}" "remote_used p = {j. Remote j \<in> owned - {k}}"
      using assms Local by (auto simp: accounted_def)
    moreover have "card (local_used p - {n}) + card (remote_used p) + reserved p \<le> limit p"
      using sum card_remove_le [of "local_used p" n] by linarith
    ultimately show ?thesis
      using assms Local by (simp add: accounted_def release_port_def)
  next
    case (Remote n)
    have "local_used p = {j. Local j \<in> owned - {k}}" "remote_used p - {n} = {j. Remote j \<in> owned - {k}}"
      using assms Remote by (auto simp: accounted_def)
    moreover have "card (local_used p) + card (remote_used p - {n}) + reserved p \<le> limit p"
      using sum card_remove_le [of "remote_used p" n] by linarith
    ultimately show ?thesis
      using assms Remote by (simp add: accounted_def release_port_def)
  qed
qed

lemma accounted_allocate:
  assumes "accounted owned res p" "is_available p" "n \<notin> local_used p"
    "local_used q = insert n (local_used p)" "remote_used q = remote_used p"
    "reserved q = reserved p" "limit q = limit p"
  shows "accounted (insert (Local n) owned) res q"
  using assms by (auto simp: accounted_def is_available_def)

lemma accounted_allocate_remote:
  assumes "accounted owned res p" "is_available p" "n \<notin> remote_used p"
    "remote_used q = insert n (remote_used p)" "local_used q = local_used p"
    "reserved q = reserved p" "limit q = limit p"
  shows "accounted (insert (Remote n) owned) res q"
  using assms by (auto simp: accounted_def is_available_def)

lemma accounted_unreserve:
  assumes "accounted owned (Suc res) p"
  shows "accounted owned res (p\<lparr>reserved := reserved p - 1\<rparr>)" "is_available (p\<lparr>reserved := reserved p - 1\<rparr>)"
  using assms by (auto simp: accounted_def is_available_def)

lemma accounted_allocate_local:
  assumes "accounted owned res p" "try_allocate_local p = Some (r, q)"
  shows "case r of None \<Rightarrow> q = p \<and> \<not> is_available p
    | Some n \<Rightarrow> Local n \<notin> owned \<and> accounted (insert (Local n) owned) res q"
proof (cases "is_available p")
  case True
  then obtain n where n: "next_free (\<lambda>n. \<not> (is_available p \<and> n \<notin> local_used p \<and> n \<notin> local_pre_allocated p
      \<and> n \<notin> quarantined_set p)) (next_number p) = Some n" "r = Some n"
      "q = p\<lparr>next_number := n, local_used := insert n (local_used p)\<rparr>"
    using assms(2) by (auto simp: try_allocate_local_def split: option.splits)
  from next_free_Some [OF n(1)] have "n \<notin> local_used p"
    by simp
  with True have "accounted (insert (Local n) owned) res q" "Local n \<notin> owned"
    using assms(1) n(3) by (auto intro!: accounted_allocate) (auto simp: accounted_def)
  with n show ?thesis by simp
qed (use assms(2) in \<open>auto simp: try_allocate_local_def\<close>)

lemma accounted_into_remote:
  assumes "accounted owned (Suc res) p"
  shows "(\<exists>q. into_remote p rp = Ret (AlreadyAllocated rp, q) \<and> accounted owned res q) \<or>
    (\<exists>q. into_remote p rp = Ret (AllocatedRemote rp, q) \<and> Remote rp \<notin> owned \<and>
      accounted (insert (Remote rp) owned) res q)"
proof -
  define p1 where "p1 = p\<lparr>reserved := reserved p - 1\<rparr>"
  have p1: "accounted owned res p1" "is_available p1" "reserved p \<noteq> 0"
  proof -
    show "accounted owned res p1" "is_available p1"
      unfolding p1_def by (rule accounted_unreserve [OF assms])+
    show "reserved p \<noteq> 0"
      using assms by (simp add: accounted_def)
  qed
  have into: "into_remote p rp =
      (if rp \<in> remote_used p1 then Ret (AlreadyAllocated rp, p1)
       else Ret (AllocatedRemote rp, p1\<lparr>remote_used := insert rp (remote_used p1)\<rparr>))"
    unfolding into_remote_def p1_def [symmetric] try_allocate_remote_def using p1 by simp
  show ?thesis
  proof (cases "rp \<in> remote_used p1")
    case True
    with p1 into show ?thesis by simp
  next
    case False
    define q where "q = p1\<lparr>remote_used := insert rp (remote_used p1)\<rparr>"
    have "into_remote p rp = Ret (AllocatedRemote rp, q)"
      using into False by (simp add: q_def)
    moreover have "accounted (insert (Remote rp) owned) res q"
      using p1 False by (auto simp: q_def intro!: accounted_allocate_remote)
    moreover have "Remote rp \<notin> owned"
      using p1 False by (auto simp: accounted_def)
    ultimately show ?thesis by blast
  qed
qed

section \<open>The state of ports\<close>

lemma conn_at_Some: "conn_at m k = Some c \<longleftrightarrow> mx_ports m k = Some (Connected c)"
  by (auto simp: conn_at_def split: option.splits port_state.splits)

lemma conn_at_set_conn [simp]: "conn_at (set_conn k c m) j = (if j = k then Some c else conn_at m j)"
  by (simp add: conn_at_def set_conn_def)

lemma ports_where_set_conn:
  "ports_where f (set_conn k c m) = (if f c then insert k (ports_where f m) else ports_where f m - {k})"
  by (auto simp: ports_where_def)

lemma ports_where_same: "conn_at m k = Some c \<Longrightarrow> f c' = f c \<Longrightarrow> ports_where f (set_conn k c' m) = ports_where f m"
  by (auto simp: ports_where_def)

lemma ports_where_gone: "\<not> f c' \<Longrightarrow> ports_where f (set_conn k c' m) = ports_where f m - {k}"
  by (simp add: ports_where_set_conn)

lemma set_conn_outstanding [simp]: "mx_outstanding (set_conn k c m) = mx_outstanding m"
  by (simp add: set_conn_def)

lemma set_conn_alloc [simp]: "mx_alloc (set_conn k c m) = mx_alloc m"
  by (simp add: set_conn_def)

text \<open>What the four ends of a port depend on.\<close>

lemmas end_defs = open_sender_def open_receiver_def unclosed_def remote_receiver_def

lemma table_ok_conn:
  assumes "table_ok ports" "ports k = Some (Connected c)"
  shows "pc_port c = k" "\<not> freeable c" "pc_closed_notify c = None \<longleftrightarrow> pc_remote_receiver_closed c"
proof -
  have "case Connected c of Connecting n _ \<Rightarrow> k = Local n
      | Connected c \<Rightarrow> pc_port c = k \<and> \<not> freeable c \<and>
          (pc_closed_notify c = None \<longleftrightarrow> pc_remote_receiver_closed c)"
    using assms unfolding table_ok_def by blast
  then show "pc_port c = k" "\<not> freeable c" "pc_closed_notify c = None \<longleftrightarrow> pc_remote_receiver_closed c"
    by simp_all
qed

lemma mux_ok_connecting:
  assumes "mux_ok hs res m" "mx_ports m (Local n) = Some (Connecting port tx)"
  shows "port = n"
proof -
  have "case Connecting port tx of Connecting j _ \<Rightarrow> Local n = Local j
      | Connected c \<Rightarrow> pc_port c = Local n \<and> \<not> freeable c \<and>
          (pc_closed_notify c = None \<longleftrightarrow> pc_remote_receiver_closed c)"
    using assms unfolding mux_ok_def table_ok_def by blast
  then show ?thesis by simp
qed

lemma mux_ok_conn:
  assumes "mux_ok hs res m" "conn_at m k = Some c"
  shows "pc_port c = k" "\<not> freeable c" "pc_closed_notify c = None \<longleftrightarrow> pc_remote_receiver_closed c"
  using assms table_ok_conn by (auto simp: mux_ok_def conn_at_Some)

lemma mux_ok_set_conn:
  assumes "mux_ok hs res m" "conn_at m k = Some c" "pc_port c' = k" "\<not> freeable c'"
    "pc_closed_notify c' = None \<longleftrightarrow> pc_remote_receiver_closed c'"
  shows "mux_ok hs res (set_conn k c' m)"
proof -
  have "dom (mx_ports (set_conn k c' m)) = dom (mx_ports m)"
    using assms(2) by (auto simp: set_conn_def conn_at_Some)
  moreover have "table_ok (mx_ports (set_conn k c' m))"
    using assms by (auto simp: mux_ok_def table_ok_def set_conn_def)
  ultimately show ?thesis
    using assms(1) by (simp add: mux_ok_def) (simp add: set_conn_def)
qed

text \<open>Changes that leave the four ends of a port alone.\<close>

definition same_ends :: "port_conn \<Rightarrow> port_conn \<Rightarrow> bool" where
  "same_ends c c' \<longleftrightarrow>
     pc_port c' = pc_port c \<and> pc_sender_dropped c' = pc_sender_dropped c \<and>
     pc_receiver_dropped c' = pc_receiver_dropped c \<and> pc_receiver_closed c' = pc_receiver_closed c \<and>
     pc_receiver_open c' = pc_receiver_open c \<and>
     pc_remote_receiver_dropped c' = pc_remote_receiver_dropped c \<and>
     (pc_closed_notify c = None \<longleftrightarrow> pc_remote_receiver_closed c) =
       (pc_closed_notify c' = None \<longleftrightarrow> pc_remote_receiver_closed c')"

lemma ends_set_conn:
  assumes "conn_at m k = Some c" "pc_sender_dropped c' = pc_sender_dropped c"
    "pc_receiver_dropped c' = pc_receiver_dropped c" "pc_receiver_closed c' = pc_receiver_closed c"
    "pc_receiver_open c' = pc_receiver_open c"
    "pc_remote_receiver_dropped c' = pc_remote_receiver_dropped c"
  shows "ends (set_conn k c' m) = ends m"
  using assms(2-6) unfolding ends_def by (simp add: ports_where_same [OF assms(1)] end_defs)

lemma set_conn_same:
  assumes "mux_ok hs res m" "conn_at m k = Some c" "same_ends c c'"
  shows "mux_ok hs res (set_conn k c' m)" "ends (set_conn k c' m) = ends m"
proof -
  have "freeable c' = freeable c"
    using assms(3) by (auto simp: same_ends_def freeable_def)
  then show "mux_ok hs res (set_conn k c' m)"
    using assms mux_ok_conn [OF assms(1,2)] by (intro mux_ok_set_conn) (auto simp: same_ends_def)
  show "ends (set_conn k c' m) = ends m"
    using assms by (intro ends_set_conn) (auto simp: same_ends_def)
qed

section \<open>Results of handlers\<close>

definition holds :: "(mux \<Rightarrow> 'v mux_out list \<Rightarrow> bool) \<Rightarrow> 'v mux_result \<Rightarrow> bool" where
  "holds P r \<longleftrightarrow> (case r of MuxPanic \<Rightarrow> False | MuxError e \<Rightarrow> True | MuxOk m out \<Rightarrow> P m out)"

lemma holds_simps [simp]:
  "holds P (MuxOk m out) = P m out" "holds P (MuxError e)" "holds P (protocol_err msg)" "\<not> holds P MuxPanic"
  by (simp_all add: holds_def protocol_err_def)

lemma holds_bind:
  assumes "holds P r" "\<And>m out. P m out \<Longrightarrow> holds (\<lambda>m' out'. Q m' (out @ out')) (f m)"
  shows "holds Q (mux_bind r f)"
proof (cases r)
  case (MuxOk m out)
  then have "holds (\<lambda>m' out'. Q m' (out @ out')) (f m)" using assms by simp
  with MuxOk show ?thesis by (cases "f m") auto
qed (use assms in auto)

lemma holds_mono: "holds P r \<Longrightarrow> (\<And>m out. P m out \<Longrightarrow> Q m out) \<Longrightarrow> holds Q r"
  by (cases r) auto

lemma holds_chmux: "(\<And>x. r = Inr x \<Longrightarrow> holds P (f x)) \<Longrightarrow> holds P (mux_of_chmux r f)"
  by (cases r) auto

declare mux_bind.simps [simp del]

lemma add_ends_empty [simp]: "add_ends {} es = es"
  by (simp add: add_ends_def)

lemma add_ends_twice [simp]: "add_ends ps (add_ends qs es) = add_ends (qs \<union> ps) es"
  by (simp add: add_ends_def Un_assoc)

lemma answered_simps [simp]:
  "answered [] = {}" "answered (out @ out') = answered out \<union> answered out'"
  "answered (Respond tx (RspAccepted k) # out) = insert k (answered out)"
  "answered (Respond tx (RspRejected b) # out) = answered out"
  "answered (Feed msg data # out) = answered out" "answered (Reply tx # out) = answered out"
  "answered (FlushSink tx # out) = answered out" "answered (ToReceiver k pm # out) = answered out"
  "answered (ToListener b q # out) = answered out" "answered (ClientDroppedToListener # out) = answered out"
  "answered (SetPreConnected k st # out) = answered out"
  "answered (map Reply txs) = {}"
  by (auto simp: answered_def)

lemma opened_simps [simp]:
  "opened [] = {}" "opened (os @ os') = opened os \<union> opened os'"
  "opened ((rp, True) # os) = insert (Remote rp) (opened os)" "opened ((rp, False) # os) = opened os"
  by (auto simp: opened_def)

lemma mux_ok_update [simp]:
  "mux_ok hs res (m\<lparr>mx_outstanding := x1\<rparr>) = mux_ok hs res m"
  "mux_ok hs res (m\<lparr>mx_listening := x2\<rparr>) = mux_ok hs res m"
  "mux_ok hs res (m\<lparr>mx_all_clients_dropped := x2\<rparr>) = mux_ok hs res m"
  "mux_ok hs res (m\<lparr>mx_remote_client_dropped := x2\<rparr>) = mux_ok hs res m"
  "mux_ok hs res (m\<lparr>mx_remote_listener_dropped := x2\<rparr>) = mux_ok hs res m"
  "mux_ok hs res (m\<lparr>mx_goodbye_sent := x2\<rparr>) = mux_ok hs res m"
  "mux_ok hs res (m\<lparr>mx_goodbye_received := x2\<rparr>) = mux_ok hs res m"
  "mux_ok hs res (m\<lparr>mx_send_provider := x3\<rparr>) = mux_ok hs res m"
  "mux_ok hs res (m\<lparr>mx_send_report := x4\<rparr>) = mux_ok hs res m"
  "mux_ok hs res (m\<lparr>mx_receive_monitor := x5\<rparr>) = mux_ok hs res m"
  "mux_ok hs res (m\<lparr>mx_remote_report := x6\<rparr>) = mux_ok hs res m"
  "mux_ok hs res (m\<lparr>mx_inhibit_ports := x7\<rparr>) = mux_ok hs res m"
  by (simp_all add: mux_ok_def)

lemma conn_at_update [simp]:
  "conn_at (m\<lparr>mx_outstanding := x1\<rparr>) = conn_at m"
  "conn_at (m\<lparr>mx_listening := x2\<rparr>) = conn_at m"
  "conn_at (m\<lparr>mx_all_clients_dropped := x2\<rparr>) = conn_at m"
  "conn_at (m\<lparr>mx_remote_client_dropped := x2\<rparr>) = conn_at m"
  "conn_at (m\<lparr>mx_remote_listener_dropped := x2\<rparr>) = conn_at m"
  "conn_at (m\<lparr>mx_goodbye_sent := x2\<rparr>) = conn_at m"
  "conn_at (m\<lparr>mx_goodbye_received := x2\<rparr>) = conn_at m"
  "conn_at (m\<lparr>mx_send_provider := x3\<rparr>) = conn_at m"
  "conn_at (m\<lparr>mx_send_report := x4\<rparr>) = conn_at m"
  "conn_at (m\<lparr>mx_receive_monitor := x5\<rparr>) = conn_at m"
  "conn_at (m\<lparr>mx_remote_report := x6\<rparr>) = conn_at m"
  "conn_at (m\<lparr>mx_inhibit_ports := x7\<rparr>) = conn_at m"
  "conn_at (m\<lparr>mx_alloc := x8\<rparr>) = conn_at m"
  "conn_at (m\<lparr>mx_pool := x9\<rparr>) = conn_at m"
  by (simp_all add: fun_eq_iff conn_at_def)

lemma ends_cong:
  "conn_at m = conn_at m' \<Longrightarrow> local_pre_allocated (mx_alloc m) = local_pre_allocated (mx_alloc m') \<Longrightarrow>
     ends m = ends m'"
  by (simp add: ends_def ports_where_def)

lemma ends_update [simp]:
  "ends (m\<lparr>mx_outstanding := x1\<rparr>) = ends m"
  "ends (m\<lparr>mx_listening := x2\<rparr>) = ends m"
  "ends (m\<lparr>mx_all_clients_dropped := x2\<rparr>) = ends m"
  "ends (m\<lparr>mx_remote_client_dropped := x2\<rparr>) = ends m"
  "ends (m\<lparr>mx_remote_listener_dropped := x2\<rparr>) = ends m"
  "ends (m\<lparr>mx_goodbye_sent := x2\<rparr>) = ends m"
  "ends (m\<lparr>mx_goodbye_received := x2\<rparr>) = ends m"
  "ends (m\<lparr>mx_send_provider := x3\<rparr>) = ends m"
  "ends (m\<lparr>mx_send_report := x4\<rparr>) = ends m"
  "ends (m\<lparr>mx_receive_monitor := x5\<rparr>) = ends m"
  "ends (m\<lparr>mx_remote_report := x6\<rparr>) = ends m"
  "ends (m\<lparr>mx_inhibit_ports := x7\<rparr>) = ends m"
  "local_pre_allocated x8 = local_pre_allocated (mx_alloc m) \<Longrightarrow> ends (m\<lparr>mx_alloc := x8\<rparr>) = ends m"
  "ends (m\<lparr>mx_pool := x9\<rparr>) = ends m"
  by (rule ends_cong; simp)+

section \<open>Creating and freeing ports\<close>

lemma create_port_holds:
  assumes "mux_ok (insert k hs) res m" "k \<notin> hs"
  shows "holds (\<lambda>m' out. out = [] \<and> mux_ok hs res m' \<and> ends m' = add_ends {k} (ends m) \<and>
     mx_outstanding m' = mx_outstanding m \<and> mx_listening m' = mx_listening m)
     (create_port k remote_port credit m :: 'v mux_result)"
proof -
  have none: "mx_ports m k = None"
    using assms(1) by (auto simp: mux_ok_def)
  define m' where "m' = m\<lparr>mx_ports := (mx_ports m)(k \<mapsto> Connected (new_conn m k remote_port credit))\<rparr>"
  have create: "create_port k remote_port credit m = (MuxOk m' [] :: 'v mux_result)"
    using none by (simp add: create_port_def m'_def Let_def)
  have conn: "conn_at m' j = (if j = k then Some (new_conn m k remote_port credit) else conn_at m j)" for j
    by (simp add: m'_def conn_at_def)
  have absent: "conn_at m k = None"
    using none by (simp add: conn_at_def)
  have new: "ports_where f m' = ports_where f m \<union> {k}" if "f (new_conn m k remote_port credit)" for f
    using that absent by (auto simp: ports_where_def conn)
  have "ends m' = add_ends {k} (ends m)"
    unfolding ends_def by (simp add: add_ends_def new new_conn_def end_defs) (simp add: m'_def)
  moreover have "mux_ok hs res m'"
  proof -
    have "dom (mx_ports m') \<union> hs = dom (mx_ports m) \<union> insert k hs"
      by (auto simp: m'_def)
    moreover have "table_ok (mx_ports m')"
      using assms(1) by (auto simp: mux_ok_def table_ok_def m'_def new_conn_def freeable_def)
    ultimately show ?thesis
      using assms by (auto simp: mux_ok_def) (auto simp: m'_def split: if_splits)
  qed
  ultimately show ?thesis
    using create by (simp add: m'_def)
qed

lemma maybe_free_holds:
  assumes "mux_ok hs res m" "conn_at m k = Some c" "pc_port c' = k"
    "pc_closed_notify c' = None \<longleftrightarrow> pc_remote_receiver_closed c'"
  shows "holds (\<lambda>m' out. out = [] \<and> mux_ok hs res m' \<and> ends m' = ends (set_conn k c' m) \<and>
     mx_outstanding m' = mx_outstanding m) (maybe_free_port k (set_conn k c' m) :: 'v mux_result)"
proof (cases "freeable c'")
  case False
  then show ?thesis
    using mux_ok_set_conn [OF assms(1-3) False assms(4)]
    by (simp add: maybe_free_port_def) (simp add: set_conn_def)
next
  case True
  define m' where "m' = m\<lparr>mx_ports := (mx_ports m)(k := None), mx_alloc := release_port k (mx_alloc m)\<rparr>"
  have free: "maybe_free_port k (set_conn k c' m) = (MuxOk m' [] :: 'v mux_result)"
    using True assms(3) by (simp add: maybe_free_port_def set_conn_def m'_def)
  have owned: "dom (mx_ports m') \<union> hs = (dom (mx_ports m) \<union> hs) - {k}"
    using assms(1,2) by (auto simp: m'_def mux_ok_def conn_at_Some)
  have conn: "conn_at m' j = (if j = k then None else conn_at m j)" for j
    by (simp add: m'_def conn_at_def)
  have gone: "ports_where f m' = ports_where f m - {k}" for f
    by (auto simp: ports_where_def conn)
  have "ends m' = ends (set_conn k c' m)"
    using True unfolding ends_def by (simp add: gone ports_where_gone freeable_def end_defs) (simp add: m'_def)
  moreover have "accounted (dom (mx_ports m') \<union> hs) (mx_pool m + res) (mx_alloc m')"
    using assms(1) unfolding owned mux_ok_def by (simp add: m'_def accounted_release)
  then have "mux_ok hs res m'"
    using assms(1) by (auto simp: mux_ok_def table_ok_def m'_def)
  ultimately show ?thesis
    using free by (simp add: m'_def)
qed

lemma pre_connect_port_holds:
  assumes "mux_ok hs res m"
  shows "holds (\<lambda>m' out. out = [] \<and> mux_ok hs res m' \<and> ends m' = add_ends {Remote rp} (ends m) \<and>
     mx_outstanding m' = mx_outstanding m \<and> mx_listening m' = mx_listening m)
     (pre_connect_port rp too_many taken m)"
proof (cases "mx_pool m = 0")
  case True
  then show ?thesis by (simp add: pre_connect_port_def)
next
  case False
  let ?owned = "dom (mx_ports m) \<union> hs"
  have "accounted ?owned (Suc (mx_pool m - 1 + res)) (mx_alloc m)"
    using assms False by (simp add: mux_ok_def)
  from accounted_into_remote [OF this, of rp] consider
    q where "into_remote (mx_alloc m) rp = Ret (AlreadyAllocated rp, q)"
  | q where "into_remote (mx_alloc m) rp = Ret (AllocatedRemote rp, q)" "Remote rp \<notin> ?owned"
      "accounted (insert (Remote rp) ?owned) (mx_pool m - 1 + res) q"
    by blast
  then show ?thesis
  proof cases
    case 1
    then show ?thesis by (simp add: pre_connect_port_def)
  next
    case 2
    define m2 where "m2 = m\<lparr>mx_pool := mx_pool m - 1, mx_alloc := q\<rparr>"
    have "mux_ok (insert (Remote rp) hs) res m2" "Remote rp \<notin> hs"
      using 2 assms by (auto simp: mux_ok_def m2_def)
    from create_port_holds [OF this] show ?thesis
      using False 2(1) into_remote_pre [OF 2(1)] by (simp add: pre_connect_port_def m2_def)
  qed
qed

section \<open>Received messages\<close>

text \<open>What a handler of a received message guarantees: the requests it hands out are new, and
  it adds the ends of new ports to those the message leaves.\<close>

definition received_with ::
  "port_ends \<Rightarrow> side_port set \<Rightarrow> nat \<Rightarrow> mux \<Rightarrow> (u32 \<times> bool) list \<Rightarrow> 'v mux_result \<Rightarrow> bool" where
  "received_with es hs res m os r \<longleftrightarrow> holds (\<lambda>m' out.
     mux_ok hs res m' \<and> ends m' = add_ends (answered out \<union> opened os) es \<and>
     distinct (map fst os) \<and> fst ` set os \<inter> mx_outstanding m = {} \<and>
     mx_outstanding m' = mx_outstanding m \<union> fst ` set os) r"

abbreviation received_ok ::
  "side_port set \<Rightarrow> nat \<Rightarrow> mux \<Rightarrow> (u32 \<times> bool) list \<Rightarrow> 'v mux_result \<Rightarrow> bool" where
  "received_ok hs res m \<equiv> received_with (ends m) hs res m"

lemmas received_ok_def = received_with_def

lemma received_ok_error [simp]:
  "received_with es hs res m os (protocol_err msg)" "received_with es hs res m os (MuxError e)"
  by (simp_all add: received_ok_def)

lemma received_ok_quiet:
  "received_with es hs res m [] (MuxOk m' out) \<longleftrightarrow>
     mux_ok hs res m' \<and> ends m' = add_ends (answered out) es \<and> mx_outstanding m' = mx_outstanding m"
  by (simp add: received_ok_def)

lemma received_ok_set_conn:
  assumes "mux_ok hs res m" "conn_at m k = Some c" "same_ends c c'" "answered out = {}"
  shows "received_ok hs res m [] (MuxOk (set_conn k c' m) out)"
  using set_conn_same [OF assms(1-3)] assms(4) by (simp add: received_ok_quiet)

lemma received_with_finish:
  assumes "mux_ok hs res m" "conn_at m k = Some c" "pc_port c' = k"
    "pc_closed_notify c' = None \<longleftrightarrow> pc_remote_receiver_closed c'"
    "ends (set_conn k c' m) = es" "answered out = {}"
  shows "received_with es hs res m [] (mux_bind (MuxOk (set_conn k c' m) out) (maybe_free_port k))"
  unfolding received_ok_def
proof (rule holds_bind [where P = "\<lambda>m1 out1. m1 = set_conn k c' m \<and> out1 = out"], goal_cases)
  case (2 m1 out1)
  with assms(5,6) show ?case
    by (auto intro!: holds_mono [OF maybe_free_holds [OF assms(1-4)]])
qed simp

lemma received_ok_bind:
  assumes "received_ok hs res m os (x :: 'v mux_result)"
    "\<And>m'. mux_ok hs res m' \<Longrightarrow> received_ok hs res m' os' (f m' :: 'v mux_result)"
  shows "received_ok hs res m (os @ os') (mux_bind x f)"
  unfolding received_ok_def
proof (rule holds_bind [OF assms(1) [unfolded received_ok_def]])
  fix m1 and out1 :: "'v mux_out list"
  assume 1: "mux_ok hs res m1 \<and> ends m1 = add_ends (answered out1 \<union> opened os) (ends m) \<and>
     distinct (map fst os) \<and> fst ` set os \<inter> mx_outstanding m = {} \<and>
     mx_outstanding m1 = mx_outstanding m \<union> fst ` set os"
  with assms(2) have "received_ok hs res m1 os' (f m1)"
    by blast
  then show "holds (\<lambda>m' out'. mux_ok hs res m' \<and>
      ends m' = add_ends (answered (out1 @ out') \<union> opened (os @ os')) (ends m) \<and>
      distinct (map fst (os @ os')) \<and> fst ` set (os @ os') \<inter> mx_outstanding m = {} \<and>
      mx_outstanding m' = mx_outstanding m \<union> fst ` set (os @ os')) (f m1)"
    unfolding received_ok_def using 1
    by (elim holds_mono) (auto simp: Un_ac)
qed

lemma offered_port_ok:
  assumes "mux_ok hs res m" "rp \<notin> mx_outstanding m"
  shows "received_ok hs res m [(rp, pre)]
    (if pre then pre_connect_port rp too_many taken (m\<lparr>mx_outstanding := insert rp (mx_outstanding m)\<rparr>)
     else MuxOk (m\<lparr>mx_outstanding := insert rp (mx_outstanding m)\<rparr>) [])"
proof (cases pre)
  case True
  have m1: "mux_ok hs res (m\<lparr>mx_outstanding := insert rp (mx_outstanding m)\<rparr>)"
    using assms by simp
  show ?thesis
    unfolding received_ok_def using True assms(2)
    by simp (rule holds_mono [OF pre_connect_port_holds [OF m1]], simp)
qed (use assms in \<open>simp add: received_ok_def\<close>)

lemma recv_open_port_ok:
  assumes "mux_ok hs res m"
  shows "received_ok hs res m [(rp, pre)] (recv_open_port lq rp wait i pre m)"
proof (cases "rp \<in> mx_outstanding m")
  case new: False
  let ?m = "m\<lparr>mx_outstanding := insert rp (mx_outstanding m)\<rparr>"
  show ?thesis
  proof (cases "card (mx_outstanding ?m) > unat (mc_connect_queue (mx_cfg ?m))")
    case False
    have "received_ok hs res m ([(rp, pre)] @ []) (recv_open_port lq rp wait i pre m)"
      unfolding recv_open_port_def Let_def by (simp only: new False if_False)
        (rule received_ok_bind [OF offered_port_ok [OF assms new]],
          simp add: received_ok_quiet split: try_result.splits)
    then show ?thesis by simp
  qed (use new in \<open>simp add: recv_open_port_def\<close>)
qed (simp add: recv_open_port_def)

lemma recv_port_requests_ok:
  "mux_ok hs res m \<Longrightarrow>
     received_ok hs res m (map (\<lambda>item. (pdi_port item, pdi_pre_connect item)) items)
       (recv_port_requests wait items m)"
proof (induction items arbitrary: m)
  case (Cons item items)
  show ?case
  proof (cases "pdi_port item \<in> mx_outstanding m")
    case False
    from received_ok_bind [OF offered_port_ok [OF Cons.prems False] Cons.IH]
    show ?thesis using False by (simp add: Let_def)
  qed simp
qed (simp add: received_ok_quiet)


lemma recv_port_opened_ok:
  assumes "mux_ok hs res m"
  shows "received_ok hs res m [] (recv_port_opened client_port server_port m :: 'v mux_result)"
proof (cases "mx_ports m (Local client_port)")
  case None
  then show ?thesis by (simp add: recv_port_opened_def)
next
  case (Some s)
  show ?thesis
  proof (cases s)
    case (Connecting port response_tx)
    define m1 where "m1 = m\<lparr>mx_ports := (mx_ports m)(Local client_port := None)\<rparr>"
    have port: "port = client_port"
      using mux_ok_connecting [OF assms] Some Connecting by simp
    have owned: "dom (mx_ports m1) \<union> insert (Local client_port) hs = dom (mx_ports m) \<union> hs"
      using Some by (auto simp: m1_def)
    have "mux_ok (insert (Local client_port) hs) res m1" "Local client_port \<notin> hs"
      using assms Some unfolding mux_ok_def owned by (auto simp: m1_def table_ok_def)
    note created = create_port_holds [OF this]
    have "ends m1 = ends m"
      by (rule ends_cong) (use Some Connecting in \<open>auto simp: m1_def conn_at_def\<close>)
    moreover have "mx_outstanding m1 = mx_outstanding m"
      by (simp add: m1_def)
    moreover have "recv_port_opened client_port server_port m = (mux_bind (create_port (Local client_port) (flipped server_port) False m1)
          (\<lambda>m. MuxOk m [Respond response_tx (RspAccepted (Local client_port))]) :: 'v mux_result)"
      using Some Connecting by (simp add: recv_port_opened_def m1_def port)
    ultimately show ?thesis
      by (simp add: received_ok_def) (rule holds_bind [OF created], simp)
  next
    case (Connected c)
    then have conn: "conn_at m (Local client_port) = Some c"
      using Some by (simp add: conn_at_Some)
    show ?thesis
      using Some Connected
      by (auto simp: recv_port_opened_def same_ends_def intro!: received_ok_set_conn [OF assms conn])
  qed
qed

lemma recv_rejected_ok:
  assumes "mux_ok hs res m"
  shows "received_ok hs res m [] (recv_rejected client_port no_ports m)"
proof (cases "mx_ports m (Local client_port)")
  case None
  then show ?thesis by (simp add: recv_rejected_def)
next
  case (Some s)
  show ?thesis
  proof (cases s)
    case (Connecting port response_tx)
    define m1 where "m1 = m\<lparr>mx_ports := (mx_ports m)(Local client_port := None),
      mx_alloc := release_port (Local client_port) (mx_alloc m)\<rparr>"
    have port: "port = client_port"
      using mux_ok_connecting [OF assms] Some Connecting by simp
    have owned: "dom (mx_ports m1) \<union> hs = (dom (mx_ports m) \<union> hs) - {Local client_port}"
      using assms Some by (auto simp: m1_def mux_ok_def)
    have "accounted (dom (mx_ports m1) \<union> hs) (mx_pool m1 + res) (mx_alloc m1)"
      using assms unfolding owned mux_ok_def by (simp add: m1_def accounted_release)
    then have "mux_ok hs res m1"
      using assms by (auto simp: mux_ok_def m1_def table_ok_def)
    moreover have "ends m1 = ends m"
      by (rule ends_cong) (use Some Connecting in \<open>auto simp: m1_def conn_at_def\<close>)
    ultimately show ?thesis
      using Some Connecting
      by (simp add: recv_rejected_def received_ok_quiet port m1_def release_port_def)
  next
    case (Connected c)
    then have conn: "conn_at m (Local client_port) = Some c"
      using Some by (simp add: conn_at_Some)
    show ?thesis
      using Some Connected
      by (auto simp: recv_rejected_def same_ends_def intro!: received_ok_set_conn [OF assms conn])
  qed
qed

lemma recv_data_ok:
  assumes "mux_ok hs res m" "data \<noteq> None"
  shows "received_ok hs res m [] (recv_data port f l credits data m)"
proof (cases "conn_at m (flipped port)")
  case None
  then show ?thesis by (simp add: recv_data_def)
next
  case (Some c)
  have charged: "mux_ok hs res (set_conn (flipped port) (c\<lparr>pc_monitor := pm\<rparr>) m2)"
    "ends (set_conn (flipped port) (c\<lparr>pc_monitor := pm\<rparr>) m2) = ends m"
    if "mux_ok hs res m2" "conn_at m2 = conn_at m" "mx_alloc m2 = mx_alloc m" for pm m2
    using set_conn_same [OF that(1), of "flipped port" c "c\<lparr>pc_monitor := pm\<rparr>"] Some that
      ends_cong [OF that(2)] by (simp_all add: same_ends_def)
  show ?thesis
    using Some assms unfolding received_ok_def
    by (auto simp: recv_data_def Let_def charged intro!: holds_chmux)
qed

lemma recv_port_data_ok:
  assumes "mux_ok hs res m"
  shows "received_ok hs res m (map (\<lambda>item. (pdi_port item, pdi_pre_connect item)) items)
    (recv_port_data port f l wait items m)"
proof (cases "conn_at m (flipped port)")
  case None
  then show ?thesis by (simp add: recv_port_data_def)
next
  case (Some c)
  let ?os = "map (\<lambda>item. (pdi_port item, pdi_pre_connect item)) items"
  have "received_ok hs res m ?os
     (mux_bind (recv_port_requests wait items (set_conn (flipped port) (c\<lparr>pc_monitor := pm\<rparr>) m))
        (\<lambda>m. MuxOk m [ToReceiver (flipped port) msg]))" for pm msg
  proof -
    define m1 where "m1 = set_conn (flipped port) (c\<lparr>pc_monitor := pm\<rparr>) m"
    have m1: "mux_ok hs res m1" "ends m1 = ends m" "mx_outstanding m1 = mx_outstanding m"
      using set_conn_same [OF assms Some, of "c\<lparr>pc_monitor := pm\<rparr>"] by (simp_all add: m1_def same_ends_def)
    have "received_ok hs res m1 (?os @ [])
        (mux_bind (recv_port_requests wait items m1) (\<lambda>m. MuxOk m [ToReceiver (flipped port) msg]))"
      by (intro received_ok_bind recv_port_requests_ok m1) (simp add: received_ok_quiet)
    then show ?thesis
      unfolding received_ok_def m1(2,3) by (simp add: m1_def)
  qed
  then show ?thesis
    using Some unfolding received_ok_def
    by (auto simp: recv_port_data_def Let_def intro!: holds_chmux split: prod.splits)
qed

lemma hang_up_ok:
  assumes "mux_ok hs res m" "conn_at m k = Some c" "\<not> pc_remote_receiver_closed c"
  shows "\<exists>c' notifies. hang_up g c = Ret (c', notifies) \<and> pc_port c' = k \<and>
     (pc_closed_notify c' = None \<longleftrightarrow> pc_remote_receiver_closed c') \<and>
     pc_sender_dropped c' = pc_sender_dropped c \<and> pc_receiver_dropped c' = pc_receiver_dropped c \<and>
     pc_receiver_closed c' = pc_receiver_closed c \<and> pc_receiver_open c' = pc_receiver_open c \<and>
     pc_remote_receiver_dropped c' = pc_remote_receiver_dropped c"
  using mux_ok_conn [OF assms(1,2)] assms(3) by (auto simp: hang_up_def)

text \<open>The two messages that end a remote end.\<close>

lemma ends_finish:
  assumes "conn_at m k = Some c" "pc_sender_dropped c' = pc_sender_dropped c"
    "pc_receiver_dropped c' = pc_receiver_dropped c" "pc_receiver_closed c' = pc_receiver_closed c"
  shows "\<not> pc_receiver_open c' \<Longrightarrow> pc_remote_receiver_dropped c' = pc_remote_receiver_dropped c \<Longrightarrow>
      ends (set_conn k c' m) = (ends m)\<lparr>pe_remote_senders := pe_remote_senders (ends m) - {k}\<rparr>"
    "pc_remote_receiver_dropped c' \<Longrightarrow> pc_receiver_open c' = pc_receiver_open c \<Longrightarrow>
      ends (set_conn k c' m) = (ends m)\<lparr>pe_remote_receivers := pe_remote_receivers (ends m) - {k}\<rparr>"
  using assms(2-) unfolding ends_def
  by (simp_all add: ports_where_same [OF assms(1)] ports_where_gone end_defs)

lemma recv_send_finish_ok:
  assumes "mux_ok hs res m"
  shows "received_with ((ends m)\<lparr>pe_remote_senders := pe_remote_senders (ends m) - {k}\<rparr>) hs res m []
    (recv_send_finish k m)"
proof (cases "conn_at m k")
  case (Some c)
  show ?thesis
  proof (cases "pc_receiver_open c")
    case True
    show ?thesis
      unfolding recv_send_finish_def with_conn_def Some option.case
      by (simp only: True simp_thms if_False, intro received_with_finish [OF assms Some] ends_finish(1) [OF Some])
        (use mux_ok_conn [OF assms Some] in simp_all)
  qed (use Some in \<open>simp add: recv_send_finish_def with_conn_def\<close>)
qed (simp add: recv_send_finish_def with_conn_def)

lemma recv_receive_close_ok:
  assumes "mux_ok hs res m"
  shows "received_ok hs res m [] (recv_receive_close k m)"
proof (cases "conn_at m k")
  case (Some c)
  show ?thesis
  proof (cases "pc_remote_receiver_closed c")
    case False
    from hang_up_ok [OF assms Some False, of True] obtain c' ns where
      c': "hang_up True c = Ret (c', ns)" "pc_port c' = k"
      "pc_closed_notify c' = None \<longleftrightarrow> pc_remote_receiver_closed c'"
      "pc_sender_dropped c' = pc_sender_dropped c" "pc_receiver_dropped c' = pc_receiver_dropped c"
      "pc_receiver_closed c' = pc_receiver_closed c" "pc_receiver_open c' = pc_receiver_open c"
      "pc_remote_receiver_dropped c' = pc_remote_receiver_dropped c"
      by metis
    show ?thesis
      unfolding recv_receive_close_def with_conn_def Some option.case
      by (simp only: False if_False c'(1) exec.case prod.case)
        (rule received_with_finish [OF assms Some c'(2,3) ends_set_conn [OF Some c'(4-8)]]; simp)
  qed (use Some in \<open>simp add: recv_receive_close_def with_conn_def\<close>)
qed (simp add: recv_receive_close_def with_conn_def)

lemma recv_receive_finish_ok:
  assumes "mux_ok hs res m"
  shows "received_with ((ends m)\<lparr>pe_remote_receivers := pe_remote_receivers (ends m) - {k}\<rparr>) hs res m []
    (recv_receive_finish k m)"
proof (cases "conn_at m k")
  case (Some c)
  obtain c' ns where c': "(if pc_remote_receiver_closed c then Ret (c, []) else hang_up False c) = Ret (c', ns)"
    "pc_port c' = k" "pc_closed_notify c' = None \<longleftrightarrow> pc_remote_receiver_closed c'"
    "pc_sender_dropped c' = pc_sender_dropped c" "pc_receiver_dropped c' = pc_receiver_dropped c"
    "pc_receiver_closed c' = pc_receiver_closed c" "pc_receiver_open c' = pc_receiver_open c"
  proof (cases "pc_remote_receiver_closed c")
    case True
    with that [of c "[]"] mux_ok_conn [OF assms Some] show ?thesis by simp
  next
    case False
    obtain c' ns where "hang_up False c = Ret (c', ns) \<and> pc_port c' = k \<and>
        (pc_closed_notify c' = None \<longleftrightarrow> pc_remote_receiver_closed c') \<and>
        pc_sender_dropped c' = pc_sender_dropped c \<and> pc_receiver_dropped c' = pc_receiver_dropped c \<and>
        pc_receiver_closed c' = pc_receiver_closed c \<and> pc_receiver_open c' = pc_receiver_open c \<and>
        pc_remote_receiver_dropped c' = pc_remote_receiver_dropped c"
      using hang_up_ok [OF assms Some False, of False] by (elim exE) (rule that)
    then show ?thesis
      using False by (intro that [of c' ns]) simp_all
  qed
  show ?thesis
    unfolding recv_receive_finish_def with_conn_def Some option.case c'(1) exec.case prod.case
    by (intro received_with_finish [OF assms Some] ends_finish(2) [OF Some]) (use c' in simp_all)
qed (simp add: recv_receive_finish_def with_conn_def)

lemma recv_global_credits_ok:
  assumes "mux_ok hs res m"
  shows "received_ok hs res m [] (recv_global_credits gc m)"
  using assms unfolding received_ok_def
  by (auto simp: recv_global_credits_def Let_def intro!: holds_chmux split: option.splits prod.splits)

lemma handle_received_msg_ok:
  assumes "mux_ok hs res m" "well_framed msg data"
  shows "received_with (finish_end msg (ends m)) hs res m (offered msg) (handle_received_msg lq msg data m)"
proof (cases msg)
  case (RequestReceivedReport port)
  with assms(1) show ?thesis
    by (auto simp: with_conn_def received_ok_quiet split: option.splits)
next
  case (ReceivedReport port)
  with assms(1) show ?thesis
    by (auto simp: when_conn_def received_ok_quiet [of _ _ _ _ m "[]"] same_ends_def
        intro!: received_ok_set_conn [OF assms(1)] split: option.splits list.splits)
next
  case (PortCredits port credits)
  show ?thesis
  proof (cases "conn_at m (flipped port)")
    case (Some c)
    have "received_ok hs res m [] (MuxOk (set_conn (flipped port) (c\<lparr>pc_provider := p\<rparr>) m) [])" for p
      by (rule received_ok_set_conn [OF assms(1) Some]) (simp_all add: same_ends_def)
    then show ?thesis
      using PortCredits Some unfolding received_ok_def
      by (auto simp: when_conn_def intro!: holds_chmux split: prod.splits)
  qed (use PortCredits assms(1) in \<open>simp add: when_conn_def received_ok_quiet\<close>)
next
  case (InhibitGlobalCreditUsageByPort port)
  with assms(1) show ?thesis
    by (auto simp: when_conn_def received_ok_quiet [of _ _ _ _ m "[]"] same_ends_def
        intro!: received_ok_set_conn [OF assms(1)] split: option.splits)
next
  case (AllowGlobalCreditUsageByPort port)
  with assms(1) show ?thesis
    by (auto simp: when_conn_def received_ok_quiet [of _ _ _ _ m "[]"] same_ends_def
        intro!: received_ok_set_conn [OF assms(1)] split: option.splits)
next
  case ClientFinish
  with assms(1) show ?thesis
    by (simp add: recv_client_finish_def received_ok_quiet)
qed (use assms in \<open>simp_all add: recv_reset_def recv_open_port_ok recv_port_opened_ok
      recv_rejected_ok recv_data_ok recv_port_data_ok recv_send_finish_ok recv_receive_close_ok
      recv_receive_finish_ok recv_global_credits_ok
      received_ok_quiet\<close>)

section \<open>Local events\<close>

lemma open_sent_ports_ok:
  "mux_ok (hs \<union> set (map (Local \<circ> pr_port \<circ> fst) ps)) res m \<Longrightarrow>
     distinct (map (pr_port \<circ> fst) ps) \<Longrightarrow> hs \<inter> set (map (Local \<circ> pr_port \<circ> fst) ps) = {} \<Longrightarrow>
     holds (\<lambda>m' out. mux_ok hs res m' \<and> ends m' = add_ends (answered out) (ends m) \<and>
       mx_outstanding m' = mx_outstanding m) (open_sent_ports ps m :: 'v mux_result)"
proof (induction ps arbitrary: m)
  case (Cons q ps)
  obtain req tx where q: "q = (req, tx)" by fastforce
  let ?k = "Local (pr_port req)" and ?hs = "hs \<union> set (map (Local \<circ> pr_port \<circ> fst) ps)"
  have m: "mux_ok (insert ?k ?hs) res m" "?k \<notin> ?hs"
    using Cons.prems by (auto simp: q)
  have first: "holds (\<lambda>m' out. mux_ok ?hs res m' \<and> ends m' = add_ends (answered out) (ends m) \<and>
      mx_outstanding m' = mx_outstanding m)
    ((if pr_pre_connect req
     then mux_bind (create_port ?k ?k True m) (\<lambda>m. MuxOk m [Respond tx (RspAccepted ?k)])
     else if mx_ports m ?k \<noteq> None then MuxPanic
     else MuxOk (m\<lparr>mx_ports := (mx_ports m)(?k \<mapsto> Connecting (pr_port req) tx)\<rparr>) []) :: 'v mux_result)"
  proof (cases "pr_pre_connect req")
    case True
    show ?thesis
      unfolding if_P [OF True] by (rule holds_bind [OF create_port_holds [OF m]], simp)
  next
    case False
    let ?m = "m\<lparr>mx_ports := (mx_ports m)(?k \<mapsto> Connecting (pr_port req) tx)\<rparr>"
    have none: "mx_ports m ?k = None"
      using m(1) by (auto simp: mux_ok_def)
    have owned: "dom (mx_ports ?m) \<union> ?hs = dom (mx_ports m) \<union> insert ?k ?hs"
      by auto
    have "mux_ok ?hs res ?m"
      using m unfolding mux_ok_def owned by (auto simp: table_ok_def)
    moreover have "ends ?m = ends m"
      by (rule ends_cong) (use none in \<open>auto simp: conn_at_def\<close>)
    ultimately show ?thesis
      using False none by simp
  qed
  show ?case
    unfolding q open_sent_ports.simps
  proof (rule holds_bind [OF first], goal_cases)
    case (1 m1 out1)
    have "holds (\<lambda>m' out. mux_ok hs res m' \<and> ends m' = add_ends (answered out) (ends m1) \<and>
       mx_outstanding m' = mx_outstanding m1) (open_sent_ports ps m1 :: 'v mux_result)"
      by (rule Cons.IH) (use 1 Cons.prems in \<open>auto simp: q\<close>)
    then show ?case
      by (rule holds_mono) (use 1 in \<open>auto simp: Un_ac\<close>)
  qed
qed simp

text \<open>The invariant of the endpoint after an event.\<close>

lemma ep_inv_ends:
  assumes "ep_inv e"
  shows "ep_senders e = ports_where open_sender (ep_mux e)"
    "ep_receivers e = ports_where open_receiver (ep_mux e)"
    "ep_unclosed e = ports_where unclosed (ep_mux e)"
    "ep_remote_senders e = ports_where pc_receiver_open (ep_mux e)"
    "ep_remote_receivers e = ports_where remote_receiver (ep_mux e)"
    "ep_pre e = local_pre_allocated (mx_alloc (ep_mux e))"
proof -
  have "ep_ends e = ends (ep_mux e)"
    using assms by (simp add: ep_inv_def)
  then show "ep_senders e = ports_where open_sender (ep_mux e)"
    "ep_receivers e = ports_where open_receiver (ep_mux e)"
    "ep_unclosed e = ports_where unclosed (ep_mux e)"
    "ep_remote_senders e = ports_where pc_receiver_open (ep_mux e)"
    "ep_remote_receivers e = ports_where remote_receiver (ep_mux e)"
    "ep_pre e = local_pre_allocated (mx_alloc (ep_mux e))"
    by (simp_all add: ends_def)
qed

lemma ep_inv_conn:
  assumes "ep_inv e" "conn_at (ep_mux e) k = Some c"
  shows "k \<in> ep_senders e \<longleftrightarrow> open_sender c" "k \<in> ep_receivers e \<longleftrightarrow> open_receiver c"
    "k \<in> ep_unclosed e \<longleftrightarrow> unclosed c" "k \<in> ep_remote_senders e \<longleftrightarrow> pc_receiver_open c"
    "k \<in> ep_remote_receivers e \<longleftrightarrow> remote_receiver c"
  using assms(2) unfolding ep_inv_ends [OF assms(1)] by (simp_all add: ports_where_def)

lemma ep_inv_handle:
  assumes "ep_inv e" "k \<in> ep_senders e \<or> k \<in> ep_receivers e \<or> k \<in> ep_unclosed e"
  shows "\<exists>c. conn_at (ep_mux e) k = Some c"
  using assms(2) unfolding ep_inv_ends [OF assms(1)] by (auto simp: ports_where_def)

lemma ep_inv_request:
  assumes "ep_inv e" "(rp, pre) \<in> ep_requests e"
  shows "rp \<in> mx_outstanding (ep_mux e)"
    "mx_outstanding (ep_mux e) - {rp} = fst ` (ep_requests e - {(rp, pre)})"
    "inj_on fst (ep_requests e - {(rp, pre)})"
proof -
  have inj: "inj_on fst (ep_requests e)" and out: "mx_outstanding (ep_mux e) = fst ` ep_requests e"
    using assms(1) by (auto simp: ep_inv_def)
  show "rp \<in> mx_outstanding (ep_mux e)"
    using assms(2) unfolding out by force
  show "inj_on fst (ep_requests e - {(rp, pre)})"
    using inj by (rule inj_on_subset) auto
  show "mx_outstanding (ep_mux e) - {rp} = fst ` (ep_requests e - {(rp, pre)})"
    using inj_on_image_set_diff [OF inj, of "ep_requests e" "{(rp, pre)}"] assms(2)
    unfolding out by simp
qed

lemma take_ports_simps [simp]:
  "ep_mux (take_ports ps e) = ep_mux e" "ep_held (take_ports ps e) = ep_held e"
  "ep_reserved (take_ports ps e) = ep_reserved e" "ep_requests (take_ports ps e) = ep_requests e"
  "ep_ends (take_ports ps e) = add_ends ps (ep_ends e)"
  by (simp_all add: take_ports_def)

lemma take_ports_inv:
  assumes "mux_ok (ep_held e) (ep_reserved e) (ep_mux e)"
    "ends (ep_mux e) = add_ends ps (ep_ends e)"
    "mx_outstanding (ep_mux e) = fst ` ep_requests e" "inj_on fst (ep_requests e)"
  shows "ep_inv (take_ports ps e)"
  using assms by (simp add: ep_inv_def)

lemma after_event_inv:
  assumes "mux_ok (ep_held e') (ep_reserved e') m"
    "ends m = add_ends (answered out) (ep_ends e')"
    "mx_outstanding m = fst ` ep_requests e'" "inj_on fst (ep_requests e')"
    "give evt (e\<lparr>ep_mux := m\<rparr>) = e'" "ep_mux e' = m"
  shows "ep_inv (after_event evt e m out)"
  unfolding after_event_def assms(5) using assms(1-4,6) by (intro take_ports_inv) auto

lemma ep_inv_parts:
  assumes "ep_inv e"
  shows "mux_ok (ep_held e) (ep_reserved e) (ep_mux e)"
    "ends (ep_mux e) = ep_ends e"
    "mx_outstanding (ep_mux e) = fst ` ep_requests e" "inj_on fst (ep_requests e)"
  using assms unfolding ep_inv_def by blast+

text \<open>Events that only send a message.\<close>

lemma quiet_event_inv:
  assumes "ep_inv e" "answered out = {}" "give evt (e\<lparr>ep_mux := m\<rparr>) = e\<lparr>ep_mux := m\<rparr>"
    "mux_ok (ep_held e) (ep_reserved e) m" "ends m = ends (ep_mux e)"
    "mx_outstanding m = mx_outstanding (ep_mux e)"
  shows "ep_inv (after_event evt e m out)"
  using ep_inv_parts [OF assms(1)] assms(2-)
  by (intro after_event_inv [where e' = "e\<lparr>ep_mux := m\<rparr>"]) simp_all

lemma connect_req_ok:
  assumes "ep_inv e" "owns (ConnectReq req sent_tx response_tx) e"
  shows "holds (\<lambda>m out. ep_inv (after_event (ConnectReq req sent_tx response_tx) e m out))
    (handle_connect_req req sent_tx response_tx (ep_mux e) :: 'v mux_result)"
proof -
  let ?m = "ep_mux e" and ?k = "Local (pr_port req)" and ?hs = "ep_held e - {Local (pr_port req)}"
  note inv = ep_inv_parts [OF assms(1)]
  have held: "insert ?k ?hs = ep_held e" "?k \<notin> ?hs" "?k \<in> ep_held e"
    using assms(2) by auto
  have none: "mx_ports ?m ?k = None"
    using inv(1) held(3) by (auto simp: mux_ok_def)
  have after: "ep_inv (after_event (ConnectReq req sent_tx response_tx) e m out)"
    if "mux_ok ?hs (ep_reserved e) m" "ends m = add_ends (answered out) (ends ?m)"
      "mx_outstanding m = mx_outstanding ?m" for m and out :: "'v mux_out list"
    by (rule after_event_inv [where e' = "e\<lparr>ep_mux := m, ep_held := ?hs\<rparr>"])
      (use that inv in simp_all)
  show ?thesis
  proof (cases "mx_remote_listener_dropped ?m")
    case True
    let ?m1 = "?m\<lparr>mx_alloc := drop_local (mx_alloc ?m) (pr_port req)\<rparr>"
    have "dom (mx_ports ?m) \<union> ?hs = dom (mx_ports ?m) \<union> ep_held e - {?k}"
      using none by auto
    then have "mux_ok ?hs (ep_reserved e) ?m1"
      using inv(1) accounted_release [of "dom (mx_ports ?m) \<union> ep_held e" _ "mx_alloc ?m" ?k]
      by (auto simp: mux_ok_def release_port_def)
    then show ?thesis
      using True by (simp add: handle_connect_req_def after)
  next
    case False
    note listening = False
    show ?thesis
    proof (cases "pr_pre_connect req")
      case True
      have "mux_ok (insert ?k ?hs) (ep_reserved e) ?m"
        unfolding held(1) by (rule inv(1))
      from create_port_holds [OF this held(2)] True listening show ?thesis
        by (auto simp: handle_connect_req_def Let_def intro!: holds_bind after)
    next
      case False
      let ?m1 = "?m\<lparr>mx_ports := (mx_ports ?m)(?k \<mapsto> Connecting (pr_port req) response_tx)\<rparr>"
      have owned: "dom (mx_ports ?m1) \<union> ?hs = dom (mx_ports ?m) \<union> ep_held e"
        using held by auto
      have "mux_ok ?hs (ep_reserved e) ?m1"
        using inv(1) unfolding mux_ok_def owned by (auto simp: table_ok_def)
      moreover have "ends ?m1 = ends ?m"
        by (rule ends_cong) (use none in \<open>auto simp: conn_at_def\<close>)
      ultimately show ?thesis
        using False listening none by (simp add: handle_connect_req_def Let_def after)
    qed
  qed
qed

lemma accepted_ok:
  assumes "ep_inv e" "owns_evt (Accepted p rp tx) e"
  shows "holds (\<lambda>m out. ep_inv (after_event (PortEvent (Accepted p rp tx)) e m out))
    (handle_port_evt (Accepted p rp tx) (ep_mux e) :: 'v mux_result)"
proof -
  let ?m = "ep_mux e" and ?hs = "ep_held e - {p}"
  let ?m0 = "?m\<lparr>mx_outstanding := mx_outstanding ?m - {rp}\<rparr>"
  have req: "(rp, False) \<in> ep_requests e" and "p \<in> ep_held e"
    using assms(2) by auto
  then have held: "insert p ?hs = ep_held e" "p \<notin> ?hs"
    by auto
  note inv = ep_inv_parts [OF assms(1)] and rq = ep_inv_request [OF assms(1) req]
  have "mux_ok (insert p ?hs) (ep_reserved e) ?m0"
    unfolding held(1) using inv(1) by simp
  note created = create_port_holds [OF this held(2), of "Remote rp" False]
  have after: "ep_inv (after_event (PortEvent (Accepted p rp tx)) e m out)"
    if "mux_ok ?hs (ep_reserved e) m" "ends m = add_ends (answered out) (ends ?m)"
      "mx_outstanding m = mx_outstanding ?m - {rp}" for m and out :: "'v mux_out list"
    by (rule after_event_inv [where e' = "e\<lparr>ep_mux := m, ep_held := ?hs,
        ep_requests := ep_requests e - {(rp, False)}\<rparr>"]) (use that inv rq in simp_all)
  show ?thesis
    using rq(1) by (auto intro!: holds_bind [OF created] after)
qed

text \<open>A reserved port goes back to the pool.\<close>

lemma returned_port_ok:
  assumes "mux_ok hs (Suc res) m"
  shows "mux_ok hs res (m\<lparr>mx_pool := Suc (mx_pool m)\<rparr>)"
  using assms by (simp add: mux_ok_def)

lemma answered_request_ok:
  assumes "ep_inv e" "(rp, returns) \<in> ep_requests e" "returns \<longrightarrow> 0 < ep_reserved e"
    "m = (ep_mux e)\<lparr>mx_outstanding := mx_outstanding (ep_mux e) - {rp},
       mx_pool := (if returns then mx_pool (ep_mux e) + 1 else mx_pool (ep_mux e))\<rparr>"
    "give evt (e\<lparr>ep_mux := m\<rparr>) = e\<lparr>ep_mux := m, ep_requests := ep_requests e - {(rp, returns)},
       ep_reserved := (if returns then ep_reserved e - 1 else ep_reserved e)\<rparr>"
    "answered out = {}"
  shows "ep_inv (after_event evt e m out)"
proof (rule after_event_inv [OF _ _ _ _ assms(5)])
  note inv = ep_inv_parts [OF assms(1)] and rq = ep_inv_request [OF assms(1,2)]
  have "mux_ok (ep_held e) (if returns then ep_reserved e - 1 else ep_reserved e) m"
  proof (cases returns)
    case True
    then have "mux_ok (ep_held e) (Suc (ep_reserved e - 1)) (ep_mux e)"
      using inv(1) assms(3) by simp
    from returned_port_ok [OF this] True show ?thesis
      unfolding assms(4) by (simp add: mux_ok_def)
  qed (use inv(1) assms(4) in \<open>simp add: mux_ok_def\<close>)
  then show "mux_ok (ep_held (e\<lparr>ep_mux := m, ep_requests := ep_requests e - {(rp, returns)},
       ep_reserved := (if returns then ep_reserved e - 1 else ep_reserved e)\<rparr>))
     (ep_reserved (e\<lparr>ep_mux := m, ep_requests := ep_requests e - {(rp, returns)},
       ep_reserved := (if returns then ep_reserved e - 1 else ep_reserved e)\<rparr>)) m"
    by simp
  have "ends m = ends (ep_mux e)"
    unfolding assms(4) by (rule ends_cong) (simp_all add: fun_eq_iff conn_at_def)
  then show "ends m = add_ends (answered out) (ep_ends (e\<lparr>ep_mux := m, ep_requests := ep_requests e - {(rp, returns)},
       ep_reserved := (if returns then ep_reserved e - 1 else ep_reserved e)\<rparr>))"
    using inv(2) assms(6) by simp
qed (use ep_inv_request [OF assms(1,2)] assms(4) in simp_all)

lemma send_ports_ok:
  assumes "ep_inv e" "owns_evt (SendPorts rport f l ps) e"
  shows "holds (\<lambda>m out. ep_inv (after_event (PortEvent (SendPorts rport f l ps)) e m out))
    (handle_port_evt (SendPorts rport f l ps) (ep_mux e) :: 'v mux_result)"
proof -
  let ?ks = "set (map (Local \<circ> pr_port \<circ> fst) ps)" and ?m = "ep_mux e"
  let ?hs = "ep_held e - ?ks"
  note inv = ep_inv_parts [OF assms(1)]
  have "?hs \<union> ?ks = ep_held e"
    using assms(2) by force
  then have "mux_ok (?hs \<union> ?ks) (ep_reserved e) ?m"
    using inv(1) by simp
  moreover have "?hs \<inter> ?ks = {}"
    by blast
  moreover have "distinct (map (pr_port \<circ> fst) ps)"
    using assms(2) by simp
  ultimately have opens: "holds (\<lambda>m' out. mux_ok ?hs (ep_reserved e) m' \<and>
      ends m' = add_ends (answered out) (ends ?m) \<and> mx_outstanding m' = mx_outstanding ?m)
      (open_sent_ports ps ?m :: 'v mux_result)"
    by (intro open_sent_ports_ok)
  have after: "ep_inv (after_event (PortEvent (SendPorts rport f l ps)) e m out)"
    if "mux_ok ?hs (ep_reserved e) m" "ends m = add_ends (answered out) (ends ?m)"
      "mx_outstanding m = mx_outstanding ?m" for m and out :: "'v mux_out list"
    by (rule after_event_inv [where e' = "e\<lparr>ep_mux := m, ep_held := ?hs\<rparr>"])
      (use that inv in simp_all)
  show ?thesis
    unfolding handle_port_evt.simps Let_def
    by (rule holds_bind [OF opens]) (simp add: after)
qed

text \<open>The events that end a local end.\<close>

lemma ends_drop:
  assumes "conn_at m k = Some c" "pc_receiver_open c' = pc_receiver_open c"
    "pc_remote_receiver_dropped c' = pc_remote_receiver_dropped c"
  shows "pc_sender_dropped c' \<Longrightarrow> pc_receiver_dropped c' = pc_receiver_dropped c \<Longrightarrow>
      pc_receiver_closed c' = pc_receiver_closed c \<Longrightarrow>
      ends (set_conn k c' m) = (ends m)\<lparr>pe_senders := pe_senders (ends m) - {k}\<rparr>"
    "pc_receiver_closed c' \<Longrightarrow> pc_receiver_dropped c' = pc_receiver_dropped c \<Longrightarrow>
      pc_sender_dropped c' = pc_sender_dropped c \<Longrightarrow>
      ends (set_conn k c' m) = (ends m)\<lparr>pe_unclosed := pe_unclosed (ends m) - {k}\<rparr>"
    "pc_receiver_dropped c' \<Longrightarrow> pc_sender_dropped c' = pc_sender_dropped c \<Longrightarrow>
      ends (set_conn k c' m) =
        (ends m)\<lparr>pe_receivers := pe_receivers (ends m) - {k}, pe_unclosed := pe_unclosed (ends m) - {k}\<rparr>"
  using assms(2-) unfolding ends_def
  by (simp_all add: ports_where_same [OF assms(1)] ports_where_gone end_defs)

text \<open>The drop of one end of a port, which may free it.\<close>

lemma dropped_end_ok:
  assumes "ep_inv e" "conn_at (ep_mux e) k = Some c" "pc_port c' = k"
    "pc_closed_notify c' = None \<longleftrightarrow> pc_remote_receiver_closed c'"
    "ends (set_conn k c' (ep_mux e)) = (ep_ends e')"
    "ep_held e' = ep_held e" "ep_reserved e' = ep_reserved e" "ep_requests e' = ep_requests e"
    "\<And>m. give evt (e\<lparr>ep_mux := m\<rparr>) = e'\<lparr>ep_mux := m\<rparr>" "answered out = {}"
  shows "holds (\<lambda>m out. ep_inv (after_event evt e m out))
    (mux_bind (MuxOk (set_conn k c' (ep_mux e)) out) (maybe_free_port k) :: 'v mux_result)"
proof (rule holds_bind [where P = "\<lambda>m1 out1. m1 = set_conn k c' (ep_mux e) \<and> out1 = out"], goal_cases)
  case (2 m1 out1)
  note inv = ep_inv_parts [OF assms(1)]
  have after: "ep_inv (after_event evt e m out)"
    if "mux_ok (ep_held e) (ep_reserved e) m" "ends m = ends (set_conn k c' (ep_mux e))"
      "mx_outstanding m = mx_outstanding (ep_mux e)" for m
    by (rule after_event_inv [where e' = "e'\<lparr>ep_mux := m\<rparr>"]) (use that inv assms in simp_all)
  from 2 have m1: "m1 = set_conn k c' (ep_mux e)" "out1 = out"
    by simp_all
  show ?case
    unfolding m1 by (rule holds_mono [OF maybe_free_holds [OF inv(1) assms(2-4)]]) (simp add: after)
qed simp

lemma sender_dropped_ok:
  assumes "ep_inv e" "owns_evt (SenderDropped k) e"
  shows "holds (\<lambda>m out. ep_inv (after_event (PortEvent (SenderDropped k)) e m out))
    (handle_port_evt (SenderDropped k) (ep_mux e) :: 'v mux_result)"
proof -
  obtain c where c: "conn_at (ep_mux e) k = Some c"
    using ep_inv_handle [OF assms(1)] assms(2) by auto
  note conn = ep_inv_conn [OF assms(1) c] and inv = ep_inv_parts [OF assms(1)]
  note ok = mux_ok_conn [OF inv(1) c]
  let ?c = "c\<lparr>pc_sender_dropped := True\<rparr>"
  have "ends (set_conn k ?c (ep_mux e)) = (ep_ends e)\<lparr>pe_senders := ep_senders e - {k}\<rparr>"
    using ends_drop(1) [OF c, of ?c] inv(2) by simp
  then have "holds (\<lambda>m out. ep_inv (after_event (PortEvent (SenderDropped k)) e m out))
      (mux_bind (MuxOk (set_conn k ?c (ep_mux e)) [Feed (SendFinish (pc_remote_port c)) None])
        (maybe_free_port k) :: 'v mux_result)"
    using ok by (intro dropped_end_ok [OF assms(1) c, where e' = "e\<lparr>ep_ends := (ep_ends e)\<lparr>pe_senders := ep_senders e - {k}\<rparr>\<rparr>"])
      simp_all
  then show ?thesis
    using c conn assms(2) by (simp add: open_sender_def)
qed

lemma receiver_dropped_ok:
  assumes "ep_inv e" "owns_evt (ReceiverDropped k) e"
  shows "holds (\<lambda>m out. ep_inv (after_event (PortEvent (ReceiverDropped k)) e m out))
    (handle_port_evt (ReceiverDropped k) (ep_mux e) :: 'v mux_result)"
proof -
  obtain c where c: "conn_at (ep_mux e) k = Some c"
    using ep_inv_handle [OF assms(1)] assms(2) by auto
  note conn = ep_inv_conn [OF assms(1) c] and inv = ep_inv_parts [OF assms(1)]
  note ok = mux_ok_conn [OF inv(1) c]
  let ?c = "c\<lparr>pc_receiver_dropped := True\<rparr>"
  let ?es = "(ep_ends e)\<lparr>pe_receivers := ep_receivers e - {k}, pe_unclosed := ep_unclosed e - {k}\<rparr>"
  have "ends (set_conn k ?c (ep_mux e)) = ?es"
    using ends_drop(3) [OF c, of ?c] inv(2) by simp
  then have "holds (\<lambda>m out. ep_inv (after_event (PortEvent (ReceiverDropped k)) e m out))
      (mux_bind (MuxOk (set_conn k ?c (ep_mux e)) [Feed (ReceiveFinish (pc_remote_port c)) None])
        (maybe_free_port k) :: 'v mux_result)"
    using ok by (intro dropped_end_ok [OF assms(1) c, where e' = "e\<lparr>ep_ends := ?es\<rparr>"]) simp_all
  then show ?thesis
    using c conn assms(2) by (simp add: open_receiver_def)
qed

lemma receiver_closed_ok:
  assumes "ep_inv e" "owns_evt (ReceiverClosed k) e"
  shows "holds (\<lambda>m out. ep_inv (after_event (PortEvent (ReceiverClosed k)) e m out))
    (handle_port_evt (ReceiverClosed k) (ep_mux e) :: 'v mux_result)"
proof -
  obtain c where c: "conn_at (ep_mux e) k = Some c"
    using ep_inv_handle [OF assms(1)] assms(2) by auto
  note conn = ep_inv_conn [OF assms(1) c] and inv = ep_inv_parts [OF assms(1)]
  let ?c = "c\<lparr>pc_receiver_closed := True\<rparr>"
  have "mux_ok (ep_held e) (ep_reserved e) (set_conn k ?c (ep_mux e))"
    using mux_ok_conn [OF inv(1) c] by (intro mux_ok_set_conn [OF inv(1) c]) (auto simp: freeable_def)
  moreover have "ends (set_conn k ?c (ep_mux e)) = (ep_ends e)\<lparr>pe_unclosed := ep_unclosed e - {k}\<rparr>"
    using ends_drop(2) [OF c, of ?c] inv(2) by simp
  ultimately have "ep_inv (after_event (PortEvent (ReceiverClosed k)) e (set_conn k ?c (ep_mux e)) out)"
    if "answered out = {}" for out :: "'v mux_out list"
    using that inv
    by (intro after_event_inv [where e' = "e\<lparr>ep_mux := set_conn k ?c (ep_mux e),
        ep_ends := (ep_ends e)\<lparr>pe_unclosed := ep_unclosed e - {k}\<rparr>\<rparr>"])
      simp_all
  then show ?thesis
    using c conn assms(2) by (simp add: unclosed_def)
qed

text \<open>The one event that can find its port gone: a report request polled after the port was
  freed.\<close>

fun late_report :: "global_evt \<Rightarrow> mux \<Rightarrow> bool" where
  "late_report (PortEvent (RequestReceivedReportEvt p _)) m = (conn_at m p = None)"
| "late_report _ m = False"

lemma late_report_panic: "late_report evt m \<Longrightarrow> handle_event evt m = MuxPanic"
  by (cases "(evt, m)" rule: late_report.cases) simp_all

lemma report_request_ok:
  assumes "ep_inv e" "\<not> late_report (PortEvent (RequestReceivedReportEvt k tx)) (ep_mux e)"
  shows "holds (\<lambda>m out. ep_inv (after_event (PortEvent (RequestReceivedReportEvt k tx)) e m out))
    (handle_port_evt (RequestReceivedReportEvt k tx) (ep_mux e) :: 'v mux_result)"
proof -
  obtain c where c: "conn_at (ep_mux e) k = Some c"
    using assms(2) by auto
  let ?c = "c\<lparr>pc_report_processed := pc_report_processed c @ [tx]\<rparr>"
  from set_conn_same [OF ep_inv_parts(1) [OF assms(1)] c, of ?c]
  show ?thesis
    using c by (auto simp: same_ends_def intro!: quiet_event_inv [OF assms(1)])
qed

lemma handle_event_ok:
  assumes "ep_inv e" "owns evt e" "\<not> late_report evt (ep_mux e)"
  shows "holds (\<lambda>m out. ep_inv (after_event evt e m out)) (handle_event evt (ep_mux e) :: 'v mux_result)"
proof (cases evt)
  case (PortEvent pe)
  note inv = ep_inv_parts [OF assms(1)]
  show ?thesis
  proof (cases pe)
    case (AcceptedAfterPreConnect rp)
    then have "rp \<in> mx_outstanding (ep_mux e)" "(rp, True) \<in> ep_requests e" "0 < ep_reserved e"
      using assms(2) PortEvent ep_inv_request [OF assms(1)] by auto
    with AcceptedAfterPreConnect PortEvent show ?thesis
      by (auto intro!: answered_request_ok [OF assms(1), where returns = True])
  next
    case (RejectedEvt rp no_ports returns)
    then have "rp \<in> mx_outstanding (ep_mux e)" "(rp, returns) \<in> ep_requests e" "returns \<longrightarrow> 0 < ep_reserved e"
      using assms(2) PortEvent ep_inv_request [OF assms(1)] by auto
    then show ?thesis
      unfolding PortEvent RejectedEvt handle_event.simps handle_port_evt.simps
      by (cases returns) (simp_all add: answered_request_ok [OF assms(1), where returns = True]
        answered_request_ok [OF assms(1), where returns = False])
  next
    case (RequestReceivedReportEvt k tx)
    with assms(3) PortEvent report_request_ok [OF assms(1), of k tx] show ?thesis by simp
  qed (use PortEvent assms inv in \<open>auto simp del: handle_port_evt.simps(1,6,8,12,13,14)
    intro: accepted_ok send_ports_ok sender_dropped_ok receiver_dropped_ok
      receiver_closed_ok intro!: quiet_event_inv [OF assms(1)]\<close>)
next
  case (ConnectReq req sent_tx response_tx)
  with assms connect_req_ok show ?thesis by simp
qed (use assms ep_inv_parts [OF assms(1)] in \<open>simp_all add: quiet_event_inv\<close>)

section \<open>Reachable states\<close>

lemma after_msg_inv:
  assumes "ep_inv e" "well_framed msg data"
  shows "holds (\<lambda>m out. ep_inv (after_msg msg e m out))
    (handle_received_msg lq msg data (ep_mux e) :: 'v mux_result)"
proof (rule holds_mono [OF handle_received_msg_ok [OF ep_inv_parts(1) [OF assms(1)] assms(2),
      unfolded received_ok_def]])
  fix m and out :: "'v mux_out list"
  note inv = ep_inv_parts [OF assms(1)]
  assume m: "mux_ok (ep_held e) (ep_reserved e) m \<and>
      ends m = add_ends (answered out \<union> opened (offered msg)) (finish_end msg (ends (ep_mux e))) \<and>
      distinct (map fst (offered msg)) \<and> fst ` set (offered msg) \<inter> mx_outstanding (ep_mux e) = {} \<and>
      mx_outstanding m = mx_outstanding (ep_mux e) \<union> fst ` set (offered msg)"
  have "inj_on fst (set (offered msg))"
    using m by (simp add: distinct_map)
  then have "inj_on fst (ep_requests e \<union> set (offered msg))"
    using inv(3,4) m unfolding inj_on_Un by blast
  then show "ep_inv (after_msg msg e m out)"
    unfolding after_msg_def using m inv
    by (intro take_ports_inv) (simp_all add: image_Un)
qed

lemma pop_inhibit_ok:
  "mux_ok hs res m \<Longrightarrow>
     (let m' = snd (pop_inhibit ps m)
      in mux_ok hs res m' \<and> ends m' = ends m \<and> mx_outstanding m' = mx_outstanding m)"
proof (induction ps arbitrary: m)
  case (Cons port ps)
  let ?m = "m\<lparr>mx_inhibit_ports := mx_inhibit_ports m - {port}\<rparr>"
  have ok: "mux_ok hs res ?m"
    using Cons.prems by simp
  note rest = Cons.IH [OF ok]
  show ?case
  proof (cases "conn_at m port")
    case None
    with rest show ?thesis by (simp add: Let_def)
  next
    case (Some c)
    then have conn: "conn_at ?m port = Some c"
      by simp
    obtain b pm where pm: "inhibiting_global_credit_usage True (pc_monitor c) = (b, pm)"
      by fastforce
    have "same_ends c (c\<lparr>pc_monitor := pm\<rparr>)"
      by (simp add: same_ends_def)
    note same = set_conn_same [OF ok conn this]
    show ?thesis
      using same rest Some pm by (cases b) (simp_all add: Let_def)
  qed
qed simp

lemma next_high_priority_ok:
  assumes "mux_ok hs res m" "next_high_priority sizer b m = Ret (evt, b', m')"
  shows "mux_ok hs res m' \<and> ends m' = ends m \<and> mx_outstanding m' = mx_outstanding m"
proof -
  obtain r m1 where pop: "pop_inhibit (sorted_list_of_set (mx_inhibit_ports m)) m = (r, m1)"
    by fastforce
  from pop_inhibit_ok [OF assms(1), of "sorted_list_of_set (mx_inhibit_ports m)"]
  have m1: "mux_ok hs res m1" "ends m1 = ends m" "mx_outstanding m1 = mx_outstanding m"
    by (simp_all add: pop Let_def)
  show ?thesis
  proof (cases r)
    case (Some rp)
    with assms(2) pop m1 show ?thesis by (simp add: next_high_priority_def)
  next
    case None
    show ?thesis
    proof (cases "mx_send_report m1")
      case (Some report)
      with assms(2) pop m1 None show ?thesis
        unfolding next_high_priority_def by (simp, elim conjE, hypsubst) simp
    next
      case None2: None
      obtain credits b2 gm where "return_to_remote_sized sizer b (mx_remote_report m1) (mx_receive_monitor m1) =
          Ret (credits, b2, gm)"
        using assms(2) pop None None2 unfolding next_high_priority_def
        by (cases "return_to_remote_sized sizer b (mx_remote_report m1) (mx_receive_monitor m1)") auto
      with assms(2) pop None None2 have "m' = m1\<lparr>mx_receive_monitor := gm\<rparr>"
        unfolding next_high_priority_def by simp
      with m1 show ?thesis by simp
    qed
  qed
qed

lemma ends_alloc: "ends (m\<lparr>mx_alloc := p\<rparr>) = (ends m)\<lparr>pe_pre := local_pre_allocated p\<rparr>"
  by (simp add: ends_def ports_where_def)

lemma alloc_step_inv:
  assumes "ep_inv e" "accounted (dom (mx_ports (ep_mux e)) \<union> hs) (mx_pool (ep_mux e) + res) p"
    "hs \<inter> dom (mx_ports (ep_mux e)) = {}"
  shows "ep_inv ((with_pre (local_pre_allocated p) (with_alloc p e))\<lparr>ep_held := hs, ep_reserved := res\<rparr>)"
  using ep_inv_parts [OF assms(1)] assms(2,3)
  by (simp add: ep_inv_def with_alloc_def with_pre_def ends_alloc) (simp add: mux_ok_def)

lemma with_pre_same: "with_pre (ep_pre e) e = e"
  by (simp add: with_pre_def)

lemma alloc_step_inv_same:
  assumes "ep_inv e" "accounted (dom (mx_ports (ep_mux e)) \<union> hs) (mx_pool (ep_mux e) + res) p"
    "hs \<inter> dom (mx_ports (ep_mux e)) = {}" "local_pre_allocated p = local_pre_allocated (mx_alloc (ep_mux e))"
  shows "ep_inv ((with_alloc p e)\<lparr>ep_held := hs, ep_reserved := res\<rparr>)"
proof -
  have "with_pre (local_pre_allocated p) (with_alloc p e) = with_alloc p e"
    using with_pre_same [of "with_alloc p e"] ep_inv_ends(6) [OF assms(1)] assms(4)
    by (simp add: with_alloc_def)
  with alloc_step_inv [OF assms(1-3)] show ?thesis by simp
qed

lemma ep_inv_accounted:
  assumes "ep_inv e"
  shows "accounted (dom (mx_ports (ep_mux e)) \<union> ep_held e)
      (mx_pool (ep_mux e) + ep_reserved e) (mx_alloc (ep_mux e))"
    "ep_held e \<inter> dom (mx_ports (ep_mux e)) = {}"
  using ep_inv_parts(1) [OF assms] by (simp_all add: mux_ok_def)

lemma with_port_inv:
  assumes "ep_inv e" "conn_at (ep_mux e) k = Some c" "same_ends c c'"
  shows "ep_inv (with_port k c' e)"
  using set_conn_same [OF ep_inv_parts(1) [OF assms(1)] assms(2,3)] ep_inv_parts [OF assms(1)]
  by (simp add: ep_inv_def with_port_def)

lemma ep_step_inv:
  assumes "ep_step e e'" "ep_inv e"
  shows "ep_inv e'"
  using assms
proof (induction rule: ep_step.induct)
  case (event evt e m out)
  have "\<not> late_report evt (ep_mux e)"
    using late_report_panic [of evt "ep_mux e", where 'a = unit] event.hyps(2) by auto
  with handle_event_ok [OF event.prems event.hyps(1), where 'v = unit] event.hyps(2) show ?case by simp
next
  case (received msg data lq e m out)
  with after_msg_inv [OF received.prems received.hyps(1), where 'v = unit and lq = lq] show ?case by simp
next
  case (poll b e evt b' m)
  from next_high_priority_ok [OF ep_inv_parts(1) [OF poll.prems] poll.hyps] ep_inv_parts [OF poll.prems]
  show ?case by (simp add: ep_inv_def)
next
  case (all_received k e)
  then show ?case by (simp add: ep_inv_def)
next
  case (pre_allocate e n p)
  note acc = ep_inv_accounted [OF pre_allocate.prems]
  have p: "p = (mx_alloc (ep_mux e))\<lparr>next_number := n,
      local_pre_allocated := insert n (local_pre_allocated (mx_alloc (ep_mux e)))\<rparr>"
    using pre_allocate.hyps by (auto simp: try_pre_allocate_local_def split: if_splits option.splits)
  have "accounted (dom (mx_ports (ep_mux e)) \<union> ep_held e) (mx_pool (ep_mux e) + ep_reserved e) p"
    using acc(1) by (simp add: p)
  from alloc_step_inv [OF pre_allocate.prems this acc(2)] show ?case
    by (simp add: with_alloc_def with_pre_def p ep_inv_ends(6) [OF pre_allocate.prems])
next
  case (allocate n e p)
  note acc = ep_inv_accounted [OF allocate.prems]
  let ?q = "mx_alloc (ep_mux e)"
  have p: "is_available ?q" "n \<notin> local_used ?q" "p = ?q\<lparr>local_used := insert n (local_used ?q),
      local_pre_allocated := local_pre_allocated ?q - {n}\<rparr>"
    using allocate.hyps(2) by (auto simp: pre_try_allocate_def try_allocate_pre_allocated_def
        drop_pre_allocated_def split: if_splits)
  have "accounted (insert (Local n) (dom (mx_ports (ep_mux e)) \<union> ep_held e)) (mx_pool (ep_mux e) + ep_reserved e) p"
    by (rule accounted_allocate [OF acc(1) p(1,2)]) (simp_all add: p(3))
  moreover have "Local n \<notin> dom (mx_ports (ep_mux e))"
    using acc(1) p(2) by (auto simp: accounted_def)
  ultimately show ?case
    using alloc_step_inv [OF allocate.prems, of "insert (Local n) (ep_held e)" "ep_reserved e" p] acc(2)
    by (simp add: with_alloc_def with_pre_def p(3) ep_inv_ends(6) [OF allocate.prems])
next
  case (allocate_exhausted n e p)
  then have "p = mx_alloc (ep_mux e)"
    by (auto simp: pre_try_allocate_def try_allocate_pre_allocated_def split: if_splits)
  with allocate_exhausted.prems show ?case by (simp add: with_alloc_def)
next
  case (drop_pre n e)
  note acc = ep_inv_accounted [OF drop_pre.prems]
  let ?p = "drop_pre_allocated (mx_alloc (ep_mux e)) n"
  have "accounted (dom (mx_ports (ep_mux e)) \<union> ep_held e) (mx_pool (ep_mux e) + ep_reserved e) ?p"
    using acc(1) by (simp add: drop_pre_allocated_def)
  from alloc_step_inv [OF drop_pre.prems this acc(2)] show ?case
    by (simp add: with_alloc_def with_pre_def drop_pre_allocated_def ep_inv_ends(6) [OF drop_pre.prems])
next
  case (reserve e p)
  note acc = ep_inv_accounted [OF reserve.prems]
  have "accounted (dom (mx_ports (ep_mux e)) \<union> ep_held e) (mx_pool (ep_mux e) + Suc (ep_reserved e)) p"
    using acc(1) reserve.hyps by (auto simp: try_reserve_def accounted_def is_available_def split: if_splits)
  with alloc_step_inv_same [OF reserve.prems _ acc(2), of "Suc (ep_reserved e)" p] reserve.hyps
  show ?case by (auto simp: with_alloc_def try_reserve_def split: if_splits)
next
  case (into_local e n p)
  note acc = ep_inv_accounted [OF into_local.prems]
  define res where "res = mx_pool (ep_mux e) + (ep_reserved e - 1)"
  let ?p1 = "(mx_alloc (ep_mux e))\<lparr>reserved := reserved (mx_alloc (ep_mux e)) - 1\<rparr>"
  have "accounted (dom (mx_ports (ep_mux e)) \<union> ep_held e) (Suc res) (mx_alloc (ep_mux e))"
    using acc(1) into_local.hyps(1) by (simp add: res_def)
  from accounted_unreserve(1) [OF this] have
    p1: "accounted (dom (mx_ports (ep_mux e)) \<union> ep_held e) res ?p1" .
  have "try_allocate_local ?p1 = Some (Some n, p)"
    using into_local.hyps(2) by (auto simp: into_local_def split: if_splits option.splits)
  from accounted_allocate_local [OF p1 this] acc(2)
    alloc_step_inv_same [OF into_local.prems, of "insert (Local n) (ep_held e)" "ep_reserved e - 1" p] into_local_pre [OF into_local.hyps(2)]
  show ?case by (simp add: with_alloc_def res_def)
next
  case (into_remote e rp n p)
  note acc = ep_inv_accounted [OF into_remote.prems]
  define res where "res = mx_pool (ep_mux e) + (ep_reserved e - 1)"
  have "accounted (dom (mx_ports (ep_mux e)) \<union> ep_held e) (Suc res) (mx_alloc (ep_mux e))"
    using acc(1) into_remote.hyps(1) by (simp add: res_def)
  from accounted_into_remote [OF this, of rp] into_remote.hyps(2) acc(2)
    alloc_step_inv_same [OF into_remote.prems, of "insert (Remote n) (ep_held e)" "ep_reserved e - 1" p] into_remote_pre [OF into_remote.hyps(2)]
  show ?case by (auto simp: with_alloc_def res_def)
next
  case (into_remote_taken e rp n p)
  note acc = ep_inv_accounted [OF into_remote_taken.prems]
  define res where "res = mx_pool (ep_mux e) + (ep_reserved e - 1)"
  have "accounted (dom (mx_ports (ep_mux e)) \<union> ep_held e) (Suc res) (mx_alloc (ep_mux e))"
    using acc(1) into_remote_taken.hyps(1) by (simp add: res_def)
  from accounted_into_remote [OF this, of rp] into_remote_taken.hyps(2) acc(2)
    alloc_step_inv_same [OF into_remote_taken.prems _ acc(2), of "ep_reserved e - 1" p]
    into_remote_pre [OF into_remote_taken.hyps(2)]
  show ?case by (auto simp: with_alloc_def res_def)
next
  case (drop_port k e)
  note acc = ep_inv_accounted [OF drop_port.prems]
  have owned: "dom (mx_ports (ep_mux e)) \<union> (ep_held e - {k}) = dom (mx_ports (ep_mux e)) \<union> ep_held e - {k}"
    using acc(2) drop_port.hyps by auto
  have "accounted (dom (mx_ports (ep_mux e)) \<union> (ep_held e - {k})) (mx_pool (ep_mux e) + ep_reserved e)
      (release_port k (mx_alloc (ep_mux e)))"
    unfolding owned by (rule accounted_release [OF acc(1)])
  from alloc_step_inv_same [OF drop_port.prems this] acc(2)
  show ?case by (auto simp: with_alloc_def)
next
  case (drop_reservation e p)
  note acc = ep_inv_accounted [OF drop_reservation.prems]
  have "accounted (dom (mx_ports (ep_mux e)) \<union> ep_held e) (mx_pool (ep_mux e) + (ep_reserved e - 1)) p"
    using acc(1) drop_reservation.hyps by (auto simp: drop_reserved_def accounted_def split: if_splits)
  moreover have "local_pre_allocated p = local_pre_allocated (mx_alloc (ep_mux e))"
    using drop_reservation.hyps by (auto simp: drop_reserved_def split: if_splits)
  ultimately show ?case
    using alloc_step_inv_same [OF drop_reservation.prems _ acc(2)] by (simp add: with_alloc_def)
next
  case (credits e k c provider monitor)
  then show ?case by (intro with_port_inv) (auto simp: same_ends_def)
next
  case (await_hangup e k c notifies tx)
  have "pc_closed_notify c = None \<longleftrightarrow> pc_remote_receiver_closed c"
    using mux_ok_conn [OF ep_inv_parts(1) [OF await_hangup.prems] await_hangup.hyps(1)] by simp
  with await_hangup show ?case by (intro with_port_inv) (auto simp: same_ends_def)
qed

lemma reserve_pool_ok:
  "accounted owned k p \<Longrightarrow> reserve_pool n p = Ret p' \<Longrightarrow> accounted owned (k + n) p'"
proof (induction n arbitrary: k p)
  case (Suc n)
  then have "accounted owned (Suc k) (p\<lparr>reserved := reserved p + 1\<rparr>)"
    "reserve_pool n (p\<lparr>reserved := reserved p + 1\<rparr>) = Ret p'"
    by (auto simp: try_reserve_def accounted_def is_available_def split: if_splits)
  from Suc.IH [OF this] show ?case by simp
qed simp

lemma reserve_pool_pre: "reserve_pool n p = Ret p' \<Longrightarrow> local_pre_allocated p' = local_pre_allocated p"
proof (induction n arbitrary: p)
  case (Suc n)
  from Suc.IH [of "p\<lparr>reserved := reserved p + 1\<rparr>"] Suc.prems show ?case
    by (auto simp: try_reserve_def split: if_splits)
qed simp

lemma ep_start_inv:
  assumes "new_mux c maximum initial global_credits = Ret m"
  shows "ep_inv (ep_start m)"
proof -
  obtain p where p: "reserve_pool (unat (mc_connect_queue c))
      (new_port_alloc (maximum + ucast (mc_connect_queue c))) = Ret p"
    and m: "mx_ports m = Map.empty" "mx_alloc m = p" "mx_outstanding m = {}"
      "mx_pool m = unat (mc_connect_queue c)"
    using assms by (auto simp: new_mux_def exec_bind_Ret)
  have "accounted {} 0 (new_port_alloc (maximum + ucast (mc_connect_queue c)))"
    by (simp add: accounted_def new_port_alloc_def)
  from reserve_pool_ok [OF this p] reserve_pool_pre [OF p] m show ?thesis
    by (simp add: new_port_alloc_def ep_inv_def ep_start_def mux_ok_def table_ok_def ends_def
        ports_where_def conn_at_def)
qed

lemma ep_reachable_inv: "ep_reachable e \<Longrightarrow> ep_inv e"
  by (induction rule: ep_reachable.induct) (auto intro: ep_start_inv ep_step_inv)

section \<open>Properties\<close>


definition example_mux_cfg :: mux_cfg where
  "example_mux_cfg = \<lparr>mc_chunk_size = 64, mc_port_receive_buffer = 64, mc_port_receive_throttle = 32,
     mc_connect_queue = 1, mc_remote_port_receive_buffer = 64, mc_remote_port_id = True\<rparr>"

definition example_mux :: mux where
  "example_mux =
     \<lparr>mx_cfg = example_mux_cfg, mx_ports = Map.empty,
      mx_alloc = (new_port_alloc 5)\<lparr>reserved := 1\<rparr>, mx_outstanding = {}, mx_listening = True,
      mx_all_clients_dropped = False, mx_remote_client_dropped = False,
      mx_remote_listener_dropped = False, mx_goodbye_sent = False, mx_goodbye_received = False,
      mx_send_provider = None, mx_send_report = None,
      mx_receive_monitor = new_global_monitor (fixed_new 64),
      mx_remote_report = report_initial (gm_total (new_global_monitor (fixed_new 64))),
      mx_inhibit_ports = {}, mx_pool = 1\<rparr>"

lemma example_new_mux: "new_mux example_mux_cfg 4 (fixed_new 64) None = Ret example_mux"
  by (simp add: new_mux_def example_mux_cfg_def example_mux_def try_reserve_def is_available_def
      new_port_alloc_def)

definition example_endpoint :: endpoint where
  "example_endpoint = (with_alloc ((mx_alloc example_mux)\<lparr>next_number := 1, local_used := {1}\<rparr>)
     (ep_start example_mux))\<lparr>ep_held := {Local 1}\<rparr>"

lemma example_reachable: "ep_reachable example_endpoint"
proof -
  let ?e = "with_pre {1} (with_alloc ((mx_alloc example_mux)\<lparr>next_number := 1, local_pre_allocated := {1}\<rparr>)
    (ep_start example_mux))"
  have "next_free (\<lambda>n. \<not> (n \<notin> {} \<and> n \<notin> {} \<and> n \<notin> {})) 0 = Some 1"
    by (subst next_free.simps) simp
  then have "try_pre_allocate_local (mx_alloc (ep_mux (ep_start example_mux))) =
      Some (Some 1, (mx_alloc example_mux)\<lparr>next_number := 1, local_pre_allocated := {1}\<rparr>)"
    by (simp add: try_pre_allocate_local_def ep_start_def)
      (simp add: example_mux_def new_port_alloc_def PRE_ALLOCATED_LIMIT_def)
  from ep_step.pre_allocate [OF this] have "ep_step (ep_start example_mux) ?e"
    by (simp add: ep_start_def)
  then have pre: "ep_reachable ?e"
    by (rule ep_reachable.step [OF ep_reachable.start [OF example_new_mux]])
  have "pre_try_allocate (mx_alloc (ep_mux ?e)) 1 =
      Ret (True, (mx_alloc example_mux)\<lparr>next_number := 1, local_used := {1}, local_pre_allocated := {}\<rparr>)"
    by (simp add: with_pre_def with_alloc_def pre_try_allocate_def try_allocate_pre_allocated_def
        drop_pre_allocated_def) (simp add: example_mux_def new_port_alloc_def is_available_def)
  from ep_step.allocate [OF _ this] have "ep_step ?e example_endpoint"
    by (simp add: example_endpoint_def with_pre_def with_alloc_def ep_start_def)
      (simp add: example_mux_def new_port_alloc_def)
  then show ?thesis
    by (rule ep_reachable.step [OF pre])
qed

text \<open>Events and messages as functions, for concrete runs.\<close>

definition run_event :: "global_evt \<Rightarrow> endpoint \<Rightarrow> endpoint" where
  "run_event evt e =
     (case handle_event evt (ep_mux e) of
        MuxOk m out \<Rightarrow> after_event evt e m (out :: unit mux_out list)
      | _ \<Rightarrow> e)"

lemma run_event_reachable:
  "ep_reachable e \<Longrightarrow> owns evt e \<Longrightarrow> ep_reachable (run_event evt e)"
  unfolding run_event_def
  by (cases "handle_event evt (ep_mux e) :: unit mux_result")
    (simp_all add: ep_reachable.step [OF _ ep_step.event])

definition run_msg :: "unit multiplex_msg \<Rightarrow> endpoint \<Rightarrow> endpoint" where
  "run_msg msg e =
     (case handle_received_msg (\<lambda>_. SendOk) msg None (ep_mux e) of
        MuxOk m out \<Rightarrow> after_msg msg e m (out :: unit mux_out list)
      | _ \<Rightarrow> e)"

lemma run_msg_reachable:
  "ep_reachable e \<Longrightarrow> well_framed msg None \<Longrightarrow> ep_reachable (run_msg msg e)"
  unfolding run_msg_def
  by (cases "handle_received_msg (\<lambda>_. SendOk) msg None (ep_mux e) :: unit mux_result")
    (simp_all add: ep_reachable.step [OF _ ep_step.received])

text \<open>A pre-connected port whose sender and receiver have been dropped again, with a report
  request of its sender still to be polled.\<close>

definition example_connect :: global_evt where
  "example_connect = ConnectReq \<lparr>pr_port = 1, pr_id = 1, pr_wait = True, pr_pre_connect = True\<rparr> 0 1"

definition example_connected :: endpoint where
  "example_connected = run_event example_connect example_endpoint"

definition example_half_open :: endpoint where
  "example_half_open =
     run_event (PortEvent (ReceiverDropped (Local 1)))
       (run_event (PortEvent (SenderDropped (Local 1)))
         (example_connected\<lparr>ep_reports := {Local 1}\<rparr>))"

text \<open>The same endpoint when the remote endpoint has dropped its half as well: the port is freed.\<close>

definition example_freed :: endpoint where
  "example_freed = run_msg (ReceiveFinish (Remote 1)) (run_msg (SendFinish (Remote 1)) example_half_open)"

lemmas example_eval =
  example_freed_def example_half_open_def example_connected_def run_event_def run_msg_def
  example_connect_def example_endpoint_def example_mux_def ep_start_def with_alloc_def
  handle_connect_req_def create_port_def mux_bind.simps after_event_def after_msg_def take_ports_def
  add_ends_def conn_at_def set_conn_def new_conn_def maybe_free_port_def freeable_def
  recv_send_finish_def recv_receive_finish_def with_conn_def hang_up_def release_port_def
  drop_local_def

lemma example_runs_reachable: "ep_reachable example_half_open" "ep_reachable example_freed"
proof -
  have "owns example_connect example_endpoint"
    by (simp add: example_endpoint_def example_connect_def)
  then have "ep_reachable example_connected"
    unfolding example_connected_def by (rule run_event_reachable [OF example_reachable])
  moreover have "Local 1 \<in> ep_senders example_connected" "ep_reports example_connected = {}"
    by (simp_all add: example_eval)
  ultimately have reports: "ep_reachable (example_connected\<lparr>ep_reports := {Local 1}\<rparr>)" (is "ep_reachable ?e")
    using ep_reachable.step [OF _ ep_step.all_received, of example_connected "Local 1"] by simp
  have "ep_reachable (run_event (PortEvent (SenderDropped (Local 1))) ?e)" (is "ep_reachable ?e1")
    by (rule run_event_reachable [OF reports]) (simp add: example_eval)
  moreover have "owns (PortEvent (ReceiverDropped (Local 1))) ?e1"
    by (simp add: example_eval)
  ultimately show half: "ep_reachable example_half_open"
    unfolding example_half_open_def by (rule run_event_reachable)
  show "ep_reachable example_freed"
    unfolding example_freed_def by (intro run_msg_reachable half) simp_all
qed


text \<open>C4: No port number leaks. In every reachable state of an endpoint, the local and remote
  numbers the allocator has in use are exactly those of the ports in the table and of the port
  handles the application holds, never both, and its reservations are exactly those of the pool
  for pre-connected requests and of the application.\<close>

theorem ports_accounted:
  assumes "ep_reachable e"
  shows "local_used (mx_alloc (ep_mux e)) = {n. Local n \<in> dom (mx_ports (ep_mux e)) \<union> ep_held e} \<and>
    remote_used (mx_alloc (ep_mux e)) = {n. Remote n \<in> dom (mx_ports (ep_mux e)) \<union> ep_held e} \<and>
    ep_held e \<inter> dom (mx_ports (ep_mux e)) = {} \<and>
    reserved (mx_alloc (ep_mux e)) = mx_pool (ep_mux e) + ep_reserved e"
  using ep_inv_accounted [OF ep_reachable_inv [OF assms]] by (simp add: accounted_def)

theorem ports_accounted_witness: "local_used (mx_alloc (ep_mux example_half_open)) = {1}"
  using ports_accounted [OF example_runs_reachable(1)]
  by (simp add: example_eval)

text \<open>C3: Ports live exactly as long as one of their ends. In every reachable state, the table holds
  a connected port if and only if one of its four ends is still there: its sender or its receiver
  has not been dropped by the application, its remote sender has not been finished, or its remote
  receiver has not been dropped, according to the messages received.\<close>

theorem ports_freed:
  assumes "ep_reachable e"
  shows "{k. conn_at (ep_mux e) k \<noteq> None} =
    ep_senders e \<union> ep_receivers e \<union> ep_remote_senders e \<union> ep_remote_receivers e"
proof -
  note inv = ep_reachable_inv [OF assms]
  have "open_sender c \<or> open_receiver c \<or> pc_receiver_open c \<or> remote_receiver c"
    if "conn_at (ep_mux e) k = Some c" for k c
    using mux_ok_conn(2) [OF ep_inv_parts(1) [OF inv] that] unfolding freeable_def end_defs by blast
  then show ?thesis
    unfolding ep_inv_ends(1,2,4,5) [OF inv] ports_where_def by blast
qed

theorem ports_freed_witness:
  "ep_senders example_half_open = {} \<and> ep_receivers example_half_open = {} \<and>
   {k. conn_at (ep_mux example_half_open) k \<noteq> None} = {Local 1} \<and>
   {k. conn_at (ep_mux example_freed) k \<noteq> None} = {}"
  unfolding ports_freed [OF example_runs_reachable(1)] ports_freed [OF example_runs_reachable(2)]
  by (simp add: example_eval)

end
