(* ===== verification/Connection.thy ===== *)
theory Connection
  imports Endpoint Transmission
begin

text \<open>
  Two event loops over a transport that keeps messages in order: the way of the data of a
  message from the events of a sender through both loops to the receiver at the other end, and
  orders of events that end the connection.
\<close>

section \<open>Sequences of events and messages\<close>

fun mux_run :: "(mux \<Rightarrow> 'v mux_result) list \<Rightarrow> mux \<Rightarrow> 'v mux_result" where
  "mux_run [] m = MuxOk m []"
| "mux_run (h # hs) m = mux_bind (h m) (mux_run hs)"

definition port_events :: "port_evt list \<Rightarrow> mux \<Rightarrow> 'v mux_result" where
  "port_events evts = mux_run (map handle_port_evt evts)"

definition deliver :: "(bool \<Rightarrow> try_result) \<Rightarrow> ('v multiplex_msg \<times> bytes option) list \<Rightarrow> mux \<Rightarrow> 'v mux_result" where
  "deliver lq msgs = mux_run (map (\<lambda>(msg, data). handle_received_msg lq msg data) msgs)"

text \<open>The messages fed to the transport, and what reaches the receiver of a port.\<close>

fun fed :: "'v mux_out list \<Rightarrow> ('v multiplex_msg \<times> bytes option) list" where
  "fed [] = []"
| "fed (Feed msg data # out) = (msg, data) # fed out"
| "fed (_ # out) = fed out"

fun to_receiver :: "side_port \<Rightarrow> 'v mux_out list \<Rightarrow> port_msg list" where
  "to_receiver k [] = []"
| "to_receiver k (ToReceiver p msg # out) =
     (if p = k then msg # to_receiver k out else to_receiver k out)"
| "to_receiver k (_ # out) = to_receiver k out"

lemma mux_bind_Ok:
  "mux_bind r f = MuxOk m' out \<longleftrightarrow>
     (\<exists>m o1 o2. r = MuxOk m o1 \<and> f m = MuxOk m' o2 \<and> out = o1 @ o2)"
  by (cases r) (auto simp: mux_bind.simps split: mux_result.splits)

lemma port_events_Cons: "port_events (ev # evts) m = mux_bind (handle_port_evt ev m) (port_events evts)"
  by (simp add: port_events_def)

lemma deliver_Cons: "deliver lq ((msg, data) # msgs) m = mux_bind (handle_received_msg lq msg data m) (deliver lq msgs)"
  by (simp add: deliver_def)

lemma run_Nil [simp]: "port_events [] m = MuxOk m []" "deliver lq [] m = MuxOk m []"
  by (simp_all add: port_events_def deliver_def)

section \<open>The way of the data\<close>

fun is_data :: "side_port \<Rightarrow> port_evt \<Rightarrow> bool" where
  "is_data k (SendData p _ _ _ _) \<longleftrightarrow> p = k"
| "is_data k _ \<longleftrightarrow> False"

lemma send_loop_events:
  "send_loop sd finish data s = (AllSent, s') \<Longrightarrow> list_all (is_data (sd_remote_port sd)) (ss_acc s) \<Longrightarrow>
     list_all (is_data (sd_remote_port sd)) (ss_acc s')"
proof (induction sd finish data s rule: send_loop.induct)
  case (1 sd finish data s)
  show ?case
  proof (cases "data = []")
    case True
    with "1.prems" show ?thesis by (simp add: send_loop.simps)
  next
    case data: False
    show ?thesis
    proof (cases "send_chunk sd finish data s")
      case (Inl r)
      with "1.prems" send_chunk_end [of sd finish data s s'] data show ?thesis
        by (simp add: send_loop.simps [of sd finish data])
    next
      case (Inr rs)
      obtain rest s1 where rs: "rs = (rest, s1)" by fastforce
      from send_chunk_result [OF Inr [unfolded rs]] "1.prems"(2)
      have "list_all (is_data (sd_remote_port sd)) (ss_acc s1)"
        by auto
      moreover have "send_loop sd finish rest s1 = (AllSent, s')"
        using "1.prems" Inr rs data by (simp add: send_loop.simps [of sd finish data])
      ultimately show ?thesis
        using "1.IH" [OF data Inr rs [symmetric]] by blast
    qed
  qed
qed

lemma do_send_events:
  assumes "do_send sd data env = (AllSent, s)"
  shows "list_all (is_data (sd_remote_port sd)) (ss_acc s)"
proof (cases "data = []")
  case True
  with assms show ?thesis
    by (auto simp: do_send_def send_empty_def send_evt_def request_credits_def start_sending_def
        split: sum.splits list.splits exec.splits if_splits bool.splits)
next
  case False
  then have "send_loop sd True data (start_sending env) = (AllSent, s)"
    using assms by (simp add: do_send_def)
  then show ?thesis
    by (rule send_loop_events) (simp add: start_sending_def)
qed

lemma data_events:
  "list_all (is_data k) evts \<Longrightarrow> port_events evts m = MuxOk m' out \<Longrightarrow>
     m' = m \<and> (\<forall>lq n n' out'. deliver lq (fed out) n = MuxOk n' out' \<longrightarrow>
       to_receiver (flipped k) out' = map DataMsg (delivered evts))"
proof (induction evts arbitrary: m m' out)
  case (Cons ev evts)
  then obtain data f l c where ev: "ev = SendData k data f l c"
    by (cases ev) auto
  obtain out2 where out: "port_events evts m = MuxOk m' out2" "out = Feed (Data k f l c) (Some data) # out2"
    using Cons.prems(2) by (auto simp: ev port_events_Cons mux_bind_Ok)
  from Cons.IH [OF _ out(1)] Cons.prems(1) have
    IH: "m' = m" "\<And>lq n n' out'. deliver lq (fed out2) n = MuxOk n' out' \<Longrightarrow>
       to_receiver (flipped k) out' = map DataMsg (delivered evts)"
    by auto
  have "to_receiver (flipped k) out' = map DataMsg (delivered (ev # evts))"
    if del: "deliver lq (fed out) n = MuxOk n' out'" for lq n n' out'
  proof -
    from del obtain n1 o1 o2 where d: "recv_data k f l c (Some data) n = MuxOk n1 o1"
      "deliver lq (fed out2) n1 = MuxOk n' o2" "out' = o1 @ o2"
      by (auto simp: out(2) deliver_Cons mux_bind_Ok)
    have "o1 = [ToReceiver (flipped k) (DataMsg (deliver_data data f l c))]"
      using d(1)
      by (cases c) (auto simp: recv_data_def Let_def charge_data_def deliver_data_def
          port_use_credits_def global_use_credits_def protocol_err_def
          split: option.splits if_splits sum.splits prod.splits)
    with IH(2) [OF d(2)] d(3) show ?thesis
      by (simp add: ev)
  qed
  with IH(1) show ?case by blast
qed simp

text \<open>C2: A message arrives whole at the other end of the connection. When a send has completed,
  its events have been handled by the event loop, and the event loop of the remote endpoint has
  handled the messages fed to the transport without an error, then an idle receiver of the port
  whose limit admits the message returns exactly the bytes sent from what the loop put into its
  queue, leaving what follows.\<close>

theorem message_end_to_end:
  assumes "do_send sd data env = (AllSent, s)"
    "port_events (ss_acc s) m = MuxOk m' out"
    "deliver lq (fed out) n = MuxOk n' out'"
    "idle r" "rx_queue r = to_receiver (flipped (sd_remote_port sd)) out' @ rest"
    "length data \<le> min (rx_max_data_size r) usize_max"
  shows "\<exists>b r'. recv_any r = (Got (Some (ReceivedDataBuf b)), r') \<and> buf_bytes b = data \<and>
     rx_queue r' = rest \<and> idle r'"
proof -
  have "to_receiver (flipped (sd_remote_port sd)) out' = map DataMsg (delivered (ss_acc s))"
    using data_events [OF do_send_events [OF assms(1)] assms(2)] assms(3) by blast
  from message_received [OF assms(1,4) _ assms(6)] assms(5) this show ?thesis
    by force
qed

definition example_peer :: mux where
  "example_peer = example_mux\<lparr>mx_ports := [Local 2 \<mapsto> Connected (new_conn example_mux (Local 2) (Local 9) False)]\<rparr>"

definition example_fed :: "(unit multiplex_msg \<times> bytes option) list" where
  "example_fed = [(Data (Remote 2) True False PortOnly, Some [1, 2, 3]),
     (Data (Remote 2) False True GlobalOnly, Some [4, 5])]"

lemmas mux_evaluation =
  port_events_Cons deliver_Cons mux_bind.simps conn_at_def set_conn_def protocol_err_def
  example_mux_def example_mux_cfg_def new_conn_def

lemma example_events:
  "\<exists>out. port_events (ss_acc example_sent) example_mux = MuxOk example_mux out \<and> fed out = example_fed"
  by (simp add: example_sent_def port_events_Cons mux_bind.simps example_fed_def)

lemma example_charge:
  "\<exists>gm pm. charge_data PortOnly 3 (new_global_monitor (fixed_new 64)) (new_port_monitor 64 32) =
       Inr (0, \<lparr>upc_port = 3, upc_global = 0\<rparr>, gm, pm) \<and>
     (\<exists>gm' pm'. charge_data GlobalOnly 2 gm pm = Inr (2, \<lparr>upc_port = 0, upc_global = 2\<rparr>, gm', pm'))"
  by (simp add: charge_data_def new_global_monitor_def new_port_monitor_def port_use_credits_def
      global_use_credits_def checked_add_def saturating_add_def fixed_new_def new_buffer_size_def Let_def)

lemma recv_data_accepts:
  assumes "conn_at m (flipped port) = Some c" "pc_receiver_open c" "length data < 2 ^ 32"
    "word_of_nat (length data) \<le> mc_chunk_size (mx_cfg m)"
    "charge_data credits (max (word_of_nat (length data)) 1) (mx_receive_monitor m) (pc_monitor c) =
       Inr (used, credit, gm, pm)"
  shows "\<exists>m' out. recv_data port f l credits (Some data) m = (MuxOk m' out :: 'v mux_result) \<and>
    conn_at m' (flipped port) = Some (c\<lparr>pc_monitor := pm\<rparr>) \<and> mx_receive_monitor m' = gm \<and> mx_cfg m' = mx_cfg m"
proof -
  have "\<not> mc_chunk_size (mx_cfg m) < word_of_nat (length data)"
    using assms(4) by simp
  with assms(1-3,5) show ?thesis
    by (simp add: recv_data_def Let_def) (simp add: set_conn_def)
qed

lemma example_delivery:
  "\<exists>n' out'. deliver (\<lambda>_. SendOk) example_fed example_peer = MuxOk n' out'"
proof -
  obtain gm pm gm' pm' where
    c1: "charge_data PortOnly 3 (new_global_monitor (fixed_new 64)) (new_port_monitor 64 32) =
       Inr (0, \<lparr>upc_port = 3, upc_global = 0\<rparr>, gm, pm)" and
    c2: "charge_data GlobalOnly 2 gm pm = Inr (2, \<lparr>upc_port = 0, upc_global = 2\<rparr>, gm', pm')"
    using example_charge by blast
  have m: "max (word_of_nat (length [1 :: u8, 2, 3])) 1 = (3 :: u32)"
    "max (word_of_nat (length [4 :: u8, 5])) 1 = (2 :: u32)"
    by (simp_all add: max_def word_le_nat_alt)
  let ?c = "new_conn example_mux (Local 2) (Local 9) False"
  have peer: "conn_at example_peer (Local 2) = Some ?c" "mx_receive_monitor example_peer = new_global_monitor (fixed_new 64)"
    "mc_chunk_size (mx_cfg example_peer) = 64" "pc_monitor ?c = new_port_monitor 64 32" "pc_receiver_open ?c"
    by (simp_all add: example_peer_def conn_at_def example_mux_def example_mux_cfg_def new_conn_def)
  obtain n1 o1 where n1: "recv_data (Remote 2) True False PortOnly (Some [1, 2, 3]) example_peer = (MuxOk n1 o1 :: unit mux_result)"
    "conn_at n1 (Local 2) = Some (?c\<lparr>pc_monitor := pm\<rparr>)" "mx_receive_monitor n1 = gm" "mx_cfg n1 = mx_cfg example_peer"
    using recv_data_accepts [where 'v = unit, of example_peer "Remote 2" ?c "[1, 2, 3]" PortOnly 0 _ gm pm True False] peer c1 m(1)
    by (auto simp: word_le_nat_alt)
  obtain n2 o2 where n2: "recv_data (Remote 2) False True GlobalOnly (Some [4, 5]) n1 = (MuxOk n2 o2 :: unit mux_result)"
    using recv_data_accepts [where 'v = unit, of n1 "Remote 2" "?c\<lparr>pc_monitor := pm\<rparr>" "[4, 5]" GlobalOnly 2 _ gm' pm' False True] n1 peer c2 m(2)
    by (auto simp: word_le_nat_alt)
  show ?thesis
    by (simp add: example_fed_def deliver_Cons n1(1) n2 mux_bind.simps)
qed

definition example_port_receiver :: "port_msg list \<Rightarrow> request receiver" where
  "example_port_receiver queue =
     \<lparr>rx_max_data_size = 5, rx_max_ports = 2, rx_queue = queue, rx_disconnected = False,
      rx_receiving = RecvNothing, rx_finished = False, rx_pre_connected = None, rx_calls = []\<rparr>"

theorem message_end_to_end_witness:
  "\<exists>out' :: unit mux_out list. \<exists>b r'. recv_any (example_port_receiver (to_receiver (Local 2) out' @ [FinishedMsg])) =
       (Got (Some (ReceivedDataBuf b)), r') \<and> buf_bytes b = [1, 2, 3, 4, 5] \<and>
     rx_queue r' = [FinishedMsg] \<and> idle r'"
proof -
  obtain out where out: "port_events (ss_acc example_sent) example_mux = MuxOk example_mux out"
    "fed out = example_fed"
    using example_events by blast
  obtain n' out' where out': "deliver (\<lambda>_. SendOk) example_fed example_peer = MuxOk n' out'"
    using example_delivery by blast
  let ?r = "example_port_receiver (to_receiver (Local 2) out' @ [FinishedMsg])"
  have "idle ?r" "rx_queue ?r = to_receiver (flipped (sd_remote_port example_sender)) out' @ [FinishedMsg]"
    "rx_max_data_size ?r = 5"
    by (simp_all add: example_port_receiver_def idle_def wait_pre_connect_done_def example_sender_def)
  from message_end_to_end [OF example_do_send out(1) out' [folded out(2)] this(1,2)] this(3)
  show ?thesis by (intro exI [of _ out']) (auto simp: usize_max_def)
qed

section \<open>Orders that end the connection\<close>

text \<open>C19: A late request for a received report panics. The future of \<^verbatim>\<open>all_received\<close> keeps the
  number of the port but not its sender. When the other three ends of the port are done, the drop
  of the sender frees the port, and the event loop panics if the future is polled for the first
  time after that.\<close>

theorem late_report_panics:
  assumes "conn_at m k = Some c" "\<not> pc_sender_dropped c" "pc_receiver_dropped c"
    "\<not> pc_receiver_open c" "pc_remote_receiver_dropped c"
  shows "\<exists>m'. port_events [SenderDropped k] m = MuxOk m' [Feed (SendFinish (pc_remote_port c)) None] \<and>
    port_events [SenderDropped k, RequestReceivedReportEvt k tx] m = (MuxPanic :: 'v mux_result)"
  using assms
  by (auto simp: port_events_Cons mux_bind.simps maybe_free_port_def set_conn_def conn_at_def freeable_def)

theorem late_report_panics_witness:
  "\<exists>m'. port_events [SenderDropped (Local 1)]
      (set_conn (Local 1) ((new_conn example_mux (Local 1) (Remote 3) False)
        \<lparr>pc_receiver_dropped := True, pc_receiver_open := False, pc_remote_receiver_dropped := True\<rparr>) example_mux) =
      MuxOk m' [Feed (SendFinish (Remote 3)) (None :: bytes option) :: unit mux_out]"
  using late_report_panics [of "set_conn (Local 1) ((new_conn example_mux (Local 1) (Remote 3) False)
        \<lparr>pc_receiver_dropped := True, pc_receiver_open := False, pc_remote_receiver_dropped := True\<rparr>) example_mux"
      "Local 1" "(new_conn example_mux (Local 1) (Remote 3) False)
        \<lparr>pc_receiver_dropped := True, pc_receiver_open := False, pc_remote_receiver_dropped := True\<rparr>"]
  by (simp add: new_conn_def) blast

text \<open>A late request for a received report ends the connection. While the port is still in the
  table, the same order makes the event loop send the request after the end of the data, and the
  event loop of the remote endpoint answers it with a protocol error, for whatever other ports.\<close>

theorem late_report_fatal:
  assumes "conn_at m k = Some c" "\<not> pc_sender_dropped c" "\<not> freeable (c\<lparr>pc_sender_dropped := True\<rparr>)"
    "conn_at n (flipped (pc_remote_port c)) = Some c'" "pc_receiver_open c'"
  shows "\<exists>m' out. port_events [SenderDropped k, RequestReceivedReportEvt k tx] m = MuxOk m' out \<and>
    deliver lq (fed out) n =
      protocol_err ''received processed report request for non-connected or finished local port''"
  using assms
  by (auto simp: port_events_Cons deliver_Cons mux_bind.simps maybe_free_port_def set_conn_def conn_at_def
      recv_send_finish_def with_conn_def protocol_err_def split: option.splits port_state.splits if_splits)

definition example_conn :: port_conn where
  "example_conn = new_conn example_mux (Local 1) (Remote 1) False"

definition example_connected :: "side_port \<Rightarrow> mux" where
  "example_connected k = set_conn k (example_conn\<lparr>pc_port := k\<rparr>) example_mux"

lemma example_connected_conn: "conn_at (example_connected k) k = Some (example_conn\<lparr>pc_port := k\<rparr>)"
  by (simp add: example_connected_def)

theorem late_report_fatal_witness:
  "\<exists>m' out. port_events [SenderDropped (Local 1), RequestReceivedReportEvt (Local 1) 0]
      (example_connected (Local 1)) = MuxOk m' out \<and>
    deliver (\<lambda>_. SendOk) (fed out) (example_connected (Local 1)) =
      (protocol_err ''received processed report request for non-connected or finished local port'' :: unit mux_result)"
  by (rule late_report_fatal [OF example_connected_conn, where c' = "example_conn\<lparr>pc_port := Local 1\<rparr>"])
    (simp_all add: example_connected_def example_conn_def new_conn_def freeable_def)

text \<open>Ports sent over a channel that are not pre-connected only become outstanding.\<close>

lemma recv_port_requests_plain:
  "\<forall>item \<in> set items. \<not> pdi_pre_connect item \<Longrightarrow> distinct (map pdi_port items) \<Longrightarrow>
     pdi_port ` set items \<inter> mx_outstanding m = {} \<Longrightarrow>
     recv_port_requests wait items m =
       MuxOk (m\<lparr>mx_outstanding := mx_outstanding m \<union> pdi_port ` set items\<rparr>) []"
proof (induction items arbitrary: m)
  case (Cons item items)
  then show ?case
    by (auto simp: Let_def mux_bind.simps)
qed simp

text \<open>Ports sent over a channel block connection requests. They need no credit for connection
  requests but count as outstanding requests: after as many ports as the queue for connection
  requests holds have been received and not yet answered, the first connection request of the
  remote endpoint, for which it holds a credit, is refused with a protocol error.\<close>

theorem port_data_blocks_open_port:
  assumes "conn_at m (flipped k) = Some c" "pc_receiver_open c" "mx_outstanding m = {}"
    "\<forall>item \<in> set items. \<not> pdi_pre_connect item" "distinct (map pdi_port items)"
    "length items = unat (mc_connect_queue (mx_cfg m))" "length items * 4 < 2 ^ 32"
    "word_of_nat (length items * 4) \<le> mc_chunk_size (mx_cfg m)"
    "port_use_credits (word_of_nat (length items * 4)) 0 (pc_monitor c) =
       (Inr credit :: (unit, unit) chmux_error + used_port_credit, pm)"
    "rp \<notin> pdi_port ` set items"
  shows "\<exists>m' out. handle_received_msg lq (PortData k f l wait items :: 'w multiplex_msg) None m = (MuxOk m' out :: 'v mux_result) \<and>
    card (mx_outstanding m') = unat (mc_connect_queue (mx_cfg m')) \<and>
    handle_received_msg lq (OpenPort rp wait' i pre :: 'w multiplex_msg) None m' =
      (protocol_err ''remote endpoint sent too many OpenPort requests'' :: 'v mux_result)"
proof -
  define m1 where "m1 = set_conn (flipped k) (c\<lparr>pc_monitor := pm\<rparr>) m"
  define m' where "m' = m1\<lparr>mx_outstanding := pdi_port ` set items\<rparr>"
  have "recv_port_requests wait items m1 = (MuxOk m' [] :: 'v mux_result)"
    using recv_port_requests_plain [OF assms(4,5), of m1] assms(3) by (simp add: m1_def m'_def)
  moreover have "\<not> (2 ^ 32 \<le> length items * 4 \<or> mc_chunk_size (mx_cfg m) < word_of_nat (length items * 4))"
    using assms(7,8) by (simp only: not_le not_less de_Morgan_disj conj_absorb)
  ultimately have "\<exists>out. handle_received_msg lq (PortData k f l wait items :: 'w multiplex_msg) None m = (MuxOk m' out :: 'v mux_result)"
    unfolding handle_received_msg.simps recv_port_data_def Let_def assms(1) option.case
    by (simp only: assms(2,9) simp_thms if_False prod.case mux_of_chmux.simps m1_def [symmetric]
        mux_bind.simps mux_result.case mux_result.inject append_Nil)
  moreover have "card (mx_outstanding m') = unat (mc_connect_queue (mx_cfg m))"
    using assms(5,6) distinct_card [OF assms(5)] by (simp add: m'_def)
  moreover have "mx_cfg m' = mx_cfg m" "finite (mx_outstanding m')" "rp \<notin> mx_outstanding m'"
    using assms(10) by (simp_all add: m'_def m1_def set_conn_def)
  ultimately have "handle_received_msg lq (OpenPort rp wait' i pre :: 'w multiplex_msg) None m' =
      (protocol_err ''remote endpoint sent too many OpenPort requests'' :: 'v mux_result)"
    "\<exists>out. handle_received_msg lq (PortData k f l wait items :: 'w multiplex_msg) None m = (MuxOk m' out :: 'v mux_result)"
    "card (mx_outstanding m') = unat (mc_connect_queue (mx_cfg m'))"
    by (simp_all add: recv_open_port_def Let_def)
  then show ?thesis
    by blast
qed

theorem port_data_blocks_open_port_witness:
  "\<exists>m' out. handle_received_msg (\<lambda>_. SendOk)
      (PortData (Remote 1) True True True [\<lparr>pdi_port = 4, pdi_id = 4, pdi_pre_connect = False\<rparr>] :: unit multiplex_msg)
      None (example_connected (Local 1)) = (MuxOk m' out :: unit mux_result) \<and>
    card (mx_outstanding m') = unat (mc_connect_queue (mx_cfg m')) \<and>
    handle_received_msg (\<lambda>_. SendOk) (OpenPort 5 True None False :: unit multiplex_msg) None m' =
      (protocol_err ''remote endpoint sent too many OpenPort requests'' :: unit mux_result)"
  by (rule port_data_blocks_open_port [where c = "example_conn\<lparr>pc_port := Local 1\<rparr>"])
    (simp_all add: example_connected_def example_conn_def new_conn_def example_mux_def
      example_mux_cfg_def set_conn_def conn_at_def port_use_credits_def new_port_monitor_def
      checked_add_def saturating_add_def Let_def word_le_nat_alt)

end
