(* ===== verification/Listener.thy ===== *)
theory Listener
  imports Connection
begin

text \<open>
  The listener, \<^verbatim>\<open>remoc/src/chmux/listener.rs\<close>: requests of the remote endpoint and how they are
  accepted, rejected or dropped, and the two queues a listener takes them from. What a waiting
  operation finds is an argument: whether the configured wait for a port is given up, whether
  the event loop is alive, and which of two ready queues is taken. An operation that waits has
  the result \<open>Waiting\<close> and is run again when the allocator has changed. The steps of a listener
  and its requests account for every request: it is accepted or rejected exactly once, or some
  operation or task still holds it.
\<close>

section \<open>Requests\<close>

datatype tentative_error = NotPreConnected | TentativeListener listener_error

text \<open>The end of an operation that waits: its result, or that it is still waiting.\<close>

datatype ('e, 'a) awaited = Done "'e + 'a" | Waiting

text \<open>\<open>le_others\<close> is what other tasks do to the allocator between two looks of one operation.\<close>

record listen_env =
  le_give_up :: bool
  le_alive :: bool
  le_port_sides :: bool
  le_others :: "port_alloc \<Rightarrow> port_alloc"

text \<open>The drop of the sender and the receiver of a pre-connected request, each of which starts a
  task for its event.\<close>

definition dropped_ends :: "request \<Rightarrow> port_evt list" where
  "dropped_ends r =
     (if rqs_pre_connected r
      then [SenderDropped (Remote (rqs_remote_port r)), ReceiverDropped (Remote (rqs_remote_port r))]
      else [])"

text \<open>A rejection of a pre-connected request carries a reserved port, and waits until one can be
  reserved; other requests are rejected at once. The result tells whether the rejection has been
  sent.\<close>

definition send_rejection :: "bool \<Rightarrow> request \<Rightarrow> port_alloc \<Rightarrow> bool \<times> port_evt list \<times> port_alloc" where
  "send_rejection no_ports r p =
     (if rqs_pre_connected r
      then (case try_reserve p of
              (True, p) \<Rightarrow> (True, [RejectedEvt (rqs_remote_port r) no_ports True], p)
            | (False, p) \<Rightarrow> (False, [], p))
      else (True, [RejectedEvt (rqs_remote_port r) no_ports False], p))"

text \<open>\<^verbatim>\<open>reject\<close> sends the rejection itself before the ends are dropped.\<close>

definition reject :: "bool \<Rightarrow> request \<Rightarrow> port_alloc \<Rightarrow> bool \<times> port_evt list \<times> port_alloc" where
  "reject no_ports r p =
     (case send_rejection no_ports r p of
        (True, evts, p) \<Rightarrow> (True, evts @ dropped_ends r, p)
      | (False, evts, p) \<Rightarrow> (False, evts, p))"

text \<open>Dropping a request that has not been answered drops its ends at once, and leaves the
  rejection to a task it starts.\<close>

definition request_drop :: "request \<Rightarrow> port_evt list \<times> request list" where
  "request_drop r = (dropped_ends r, [r])"

definition drop_task :: "request \<Rightarrow> port_alloc \<Rightarrow> bool \<times> port_evt list \<times> port_alloc" where
  "drop_task r p = send_rejection False r p"

text \<open>The result of accepting a request: the result of the call, the events sent, the requests
  dropped whose tasks are still to run, and the allocator.\<close>

type_synonym 'a accept_result = "(listener_error, 'a) awaited \<times> port_evt list \<times> request list \<times> port_alloc"

definition drop_with :: "listener_error \<Rightarrow> request \<Rightarrow> port_alloc \<Rightarrow> 'a accept_result" where
  "drop_with err r p = (case request_drop r of (evts, tasks) \<Rightarrow> (Done (Inl err), evts, tasks, p))"

text \<open>A pre-connected request is accepted once a port has been reserved for the pool.\<close>

definition accept_pre_connected :: "listen_env \<Rightarrow> request \<Rightarrow> port_alloc \<Rightarrow> side_port accept_result" where
  "accept_pre_connected env r p =
     (case try_reserve p of
        (False, p) \<Rightarrow>
          if le_give_up env then drop_with ListenerPortsExhausted r p else (Waiting, [], [], p)
      | (True, p1) \<Rightarrow>
          if \<not> le_alive env then drop_with ListenerChMux r p
          else (Done (Inr (Remote (rqs_remote_port r))), [AcceptedAfterPreConnect (rqs_remote_port r)], [], p1))"

text \<open>Accepting with a port reserved before. For a pre-connected request the reservation is dropped
  only when the acceptance, which reserves a port of its own, has ended. \<open>None\<close> is the search
  for a local port that never ends.\<close>

definition accept_reserved ::
  "listen_env \<Rightarrow> reply_id \<Rightarrow> request \<Rightarrow> port_alloc \<Rightarrow> side_port accept_result exec option" where
  "accept_reserved env port_tx r p =
     (if rqs_pre_connected r
      then case accept_pre_connected env r p of
             (Waiting, evts, tasks, p) \<Rightarrow> Some (Ret (Waiting, evts, tasks, p))
           | (Done res, evts, tasks, p) \<Rightarrow>
               Some (exec_bind (drop_reserved p) (\<lambda>p. Ret (Done res, evts, tasks, p)))
      else if le_port_sides env
      then Some (exec_bind (into_remote p (rqs_remote_port r)) (\<lambda>(ra, p).
             case ra of
               AllocatedRemote n \<Rightarrow>
                 Ret (if le_alive env then Done (Inr (Remote n)) else Done (Inl ListenerChMux),
                      [Accepted (Remote n) (rqs_remote_port r) port_tx], [], p)
             | _ \<Rightarrow> Ret (drop_with (ListenerPortAllocated (rqs_remote_port r)) r p)))
      else map_option (\<lambda>e. exec_bind e (\<lambda>(n, p).
             Ret (if le_alive env then Done (Inr (Local n)) else Done (Inl ListenerChMux),
                  [Accepted (Local n) (rqs_remote_port r) port_tx], [], p))) (into_local p))"

definition accept_request ::
  "listen_env \<Rightarrow> reply_id \<Rightarrow> request \<Rightarrow> port_alloc \<Rightarrow> side_port accept_result exec option" where
  "accept_request env port_tx r p =
     (if rqs_pre_connected r then Some (Ret (accept_pre_connected env r p))
      else case try_reserve p of
        (True, p) \<Rightarrow> accept_reserved env port_tx r p
      | (False, p) \<Rightarrow>
          if \<not> rqs_wait r
          then (case reject True r p of
                  (True, evts, p) \<Rightarrow> Some (Ret (Done (Inl ListenerPortsExhausted), evts, [], p))
                | (False, evts, p) \<Rightarrow> Some (Ret (Waiting, evts, [], p)))
          else if le_give_up env then Some (Ret (drop_with ListenerPortsExhausted r p))
          else Some (Ret (Waiting, [], [], p)))"

definition accept_tentatively ::
  "listen_env \<Rightarrow> request \<Rightarrow> port_alloc \<Rightarrow>
     (tentative_error, side_port \<times> u32) awaited \<times> port_evt list \<times> request list \<times> port_alloc" where
  "accept_tentatively env r p =
     (if \<not> rqs_pre_connected r
      then (case request_drop r of (evts, tasks) \<Rightarrow> (Done (Inl NotPreConnected), evts, tasks, p))
      else case accept_pre_connected env r p of
        (Waiting, out) \<Rightarrow> (Waiting, out)
      | (Done (Inl err), out) \<Rightarrow> (Done (Inl (TentativeListener err)), out)
      | (Done (Inr port), out) \<Rightarrow> (Done (Inr (port, rqs_remote_port r)), out))"

definition guard_reject :: "bool \<Rightarrow> u32 \<Rightarrow> port_evt list" where
  "guard_reject no_ports remote_port = [RejectedAfterAccept remote_port no_ports]"

section \<open>The listener\<close>

datatype remote_connect_msg = ConnectRequest request | RemoteClientDropped

record listener =
  ls_wait :: "remote_connect_msg list"
  ls_no_wait :: "remote_connect_msg list"
  ls_wait_closed :: bool
  ls_no_wait_closed :: bool
  ls_disconnected :: bool

text \<open>A branch of \<^verbatim>\<open>select!\<close> is ready when it is enabled and its queue has a message or has been
  disconnected; \<open>pick\<close> tells which of two ready ones is taken.\<close>

definition wait_ready :: "listener \<Rightarrow> bool" where
  "wait_ready l \<longleftrightarrow> \<not> ls_wait_closed l \<and> (ls_wait l \<noteq> [] \<or> ls_disconnected l)"

definition no_wait_ready :: "listener \<Rightarrow> bool" where
  "no_wait_ready l \<longleftrightarrow> \<not> ls_no_wait_closed l \<and> (ls_no_wait l \<noteq> [] \<or> ls_disconnected l)"

definition use_wait :: "(listener \<Rightarrow> bool) \<Rightarrow> listener \<Rightarrow> bool" where
  "use_wait pick l \<longleftrightarrow> wait_ready l \<and> (no_wait_ready l \<longrightarrow> pick l)"

function inspect ::
  "(listener \<Rightarrow> bool) \<Rightarrow> listener \<Rightarrow> (listener_error, request option) awaited \<times> listener" where
  "inspect pick l =
     (if ls_wait_closed l \<and> ls_no_wait_closed l then (Done (Inr None), l)
      else if use_wait pick l
      then case ls_wait l of
             [] \<Rightarrow> (Done (Inl ListenerChMux), l)
           | ConnectRequest req # q \<Rightarrow> (Done (Inr (Some req)), l\<lparr>ls_wait := q\<rparr>)
           | RemoteClientDropped # q \<Rightarrow> inspect pick (l\<lparr>ls_wait := q, ls_wait_closed := True\<rparr>)
      else if no_wait_ready l
      then case ls_no_wait l of
             [] \<Rightarrow> (Done (Inl ListenerChMux), l)
           | ConnectRequest req # q \<Rightarrow> (Done (Inr (Some req)), l\<lparr>ls_no_wait := q\<rparr>)
           | RemoteClientDropped # q \<Rightarrow> inspect pick (l\<lparr>ls_no_wait := q, ls_no_wait_closed := True\<rparr>)
      else (Waiting, l))"
  by auto
termination
  by (relation "measure (\<lambda>(pick, l). length (ls_wait l) + length (ls_no_wait l))") auto

declare inspect.simps [simp del]

text \<open>\<^verbatim>\<open>accept\<close> first waits for a port; while there is none, requests that do not wait for one are
  taken and rejected, unless a port has been given back in the meantime. The rejection of a
  pre-connected one waits for a port too, and blocks the listener. The result tells the port, or
  \<open>None\<close> at the end of the requests; a request the waiting call holds is given as well.\<close>

definition map_awaited :: "('a \<Rightarrow> 'b) \<Rightarrow> ('e, 'a) awaited \<Rightarrow> ('e, 'b) awaited" where
  "map_awaited f w = (case w of Waiting \<Rightarrow> Waiting | Done (Inl e) \<Rightarrow> Done (Inl e) | Done (Inr x) \<Rightarrow> Done (Inr (f x)))"

type_synonym listen_result =
  "(listener_error, side_port option) awaited \<times> port_evt list \<times> request list \<times> request option \<times>
     port_alloc \<times> listener"

fun still_held :: "request \<Rightarrow> ('e, 'a) awaited \<Rightarrow> request option" where
  "still_held r Waiting = Some r"
| "still_held r (Done _) = None"

definition accept_taken ::
  "listen_env \<Rightarrow> reply_id \<Rightarrow> request \<Rightarrow> port_alloc \<Rightarrow> listener \<Rightarrow> listen_result exec option" where
  "accept_taken env port_tx req p l =
     map_option (\<lambda>e. exec_bind e (\<lambda>(res, evts, tasks, p).
         Ret (map_awaited Some res, evts, tasks, still_held req res, p, l)))
       (accept_reserved env port_tx req p)"

definition accept_inspected ::
  "listen_env \<Rightarrow> (listener \<Rightarrow> bool) \<Rightarrow> reply_id \<Rightarrow> port_alloc \<Rightarrow> listener \<Rightarrow> listen_result exec option" where
  "accept_inspected env pick port_tx p l =
     (case inspect pick l of
        (Done (Inr (Some req)), l) \<Rightarrow> accept_taken env port_tx req p l
      | (Done (Inr None), l) \<Rightarrow>
          Some (exec_bind (drop_reserved p) (\<lambda>p. Ret (Done (Inr None), [], [], None, p, l)))
      | (Done (Inl err), l) \<Rightarrow>
          Some (exec_bind (drop_reserved p) (\<lambda>p. Ret (Done (Inl err), [], [], None, p, l)))
      | (Waiting, l) \<Rightarrow> Some (Ret (Waiting, [], [], None, p, l)))"

fun prepend_evts :: "port_evt list \<Rightarrow> listen_result exec option \<Rightarrow> listen_result exec option" where
  "prepend_evts evts None = None"
| "prepend_evts evts (Some Panic) = Some Panic"
| "prepend_evts evts (Some (Ret (res, evts', tasks, kept, p, l))) =
     Some (Ret (res, evts @ evts', tasks, kept, p, l))"

function listener_accept ::
  "listen_env \<Rightarrow> (listener \<Rightarrow> bool) \<Rightarrow> reply_id \<Rightarrow> port_alloc \<Rightarrow> listener \<Rightarrow> listen_result exec option" where
  "listener_accept env pick port_tx p l =
     (if ls_wait_closed l \<and> ls_no_wait_closed l then Some (Ret (Done (Inr None), [], [], None, p, l))
      else case try_reserve p of
        (True, p) \<Rightarrow> accept_inspected env pick port_tx p l
      | (False, p) \<Rightarrow>
          if \<not> no_wait_ready l then Some (Ret (Waiting, [], [], None, p, l))
          else case ls_no_wait l of
            [] \<Rightarrow> Some (Ret (Done (Inl ListenerChMux), [], [], None, p, l))
          | ConnectRequest req # q \<Rightarrow>
              (case try_reserve (le_others env p) of
                 (True, p) \<Rightarrow> accept_taken env port_tx req p (l\<lparr>ls_no_wait := q\<rparr>)
               | (False, p) \<Rightarrow>
                   (case reject True req p of
                      (True, evts, p) \<Rightarrow>
                        prepend_evts evts (listener_accept env pick port_tx p (l\<lparr>ls_no_wait := q\<rparr>))
                    | (False, evts, p) \<Rightarrow> Some (Ret (Waiting, evts, [], Some req, p, l\<lparr>ls_no_wait := q\<rparr>))))
          | RemoteClientDropped # q \<Rightarrow>
              listener_accept env pick port_tx p (l\<lparr>ls_no_wait := q, ls_no_wait_closed := True\<rparr>))"
  by pat_completeness auto
termination
  by (relation "measure (\<lambda>(env, pick, port_tx, p, l). length (ls_no_wait l))") auto

declare listener_accept.simps [simp del]

section \<open>Requests are answered\<close>

text \<open>A request by its remote port and whether it is pre-connected, and the requests that events
  accept and reject.\<close>

type_synonym request_key = "u32 \<times> bool"

definition request_key :: "request \<Rightarrow> request_key" where
  "request_key r = (rqs_remote_port r, rqs_pre_connected r)"

fun accepts :: "port_evt \<Rightarrow> request_key list" where
  "accepts (Accepted _ rp _) = [(rp, False)]"
| "accepts (AcceptedAfterPreConnect rp) = [(rp, True)]"
| "accepts _ = []"

fun rejects :: "port_evt \<Rightarrow> request_key list" where
  "rejects (RejectedEvt rp _ returns_port) = [(rp, returns_port)]"
| "rejects _ = []"

definition accepted_in :: "port_evt list \<Rightarrow> request_key multiset" where
  "accepted_in evts = mset (concat (map accepts evts))"

definition rejected_in :: "port_evt list \<Rightarrow> request_key multiset" where
  "rejected_in evts = mset (concat (map rejects evts))"

text \<open>The rejections of a tentative acceptance through its guard.\<close>

fun withdraws :: "port_evt \<Rightarrow> u32 list" where
  "withdraws (RejectedAfterAccept rp _) = [rp]"
| "withdraws _ = []"

definition withdrawn_in :: "port_evt list \<Rightarrow> u32 multiset" where
  "withdrawn_in evts = mset (concat (map withdraws evts))"

definition keys_of :: "request list \<Rightarrow> request_key multiset" where
  "keys_of rs = mset (map request_key rs)"

lemma accepted_in_simps [simp]:
  "accepted_in [] = {#}" "accepted_in (ev # evts) = mset (accepts ev) + accepted_in evts"
  "accepted_in (evts @ evts') = accepted_in evts + accepted_in evts'"
  by (simp_all add: accepted_in_def)

lemma rejected_in_simps [simp]:
  "rejected_in [] = {#}" "rejected_in (ev # evts) = mset (rejects ev) + rejected_in evts"
  "rejected_in (evts @ evts') = rejected_in evts + rejected_in evts'"
  by (simp_all add: rejected_in_def)

lemma withdrawn_in_simps [simp]:
  "withdrawn_in [] = {#}" "withdrawn_in (ev # evts) = mset (withdraws ev) + withdrawn_in evts"
  "withdrawn_in (evts @ evts') = withdrawn_in evts + withdrawn_in evts'"
  by (simp_all add: withdrawn_in_def)

lemma keys_of_simps [simp]:
  "keys_of [] = {#}" "keys_of (r # rs) = add_mset (request_key r) (keys_of rs)"
  "keys_of (rs @ rs') = keys_of rs + keys_of rs'"
  by (simp_all add: keys_of_def)

lemma dropped_ends_keys [simp]:
  "accepted_in (dropped_ends r) = {#}" "rejected_in (dropped_ends r) = {#}" "withdrawn_in (dropped_ends r) = {#}"
  by (simp_all add: dropped_ends_def)

text \<open>What an operation does with the requests it is given: each is accepted or rejected by exactly
  one of its events, or left to a task or a later call. It hands out as many ports as it accepts
  requests, fewer only when the event loop has ended.\<close>

definition settles :: "bool \<Rightarrow> request_key multiset \<Rightarrow> nat \<Rightarrow> port_evt list \<Rightarrow> request_key multiset \<Rightarrow> bool" where
  "settles alive given ports evts later \<longleftrightarrow>
     given = accepted_in evts + rejected_in evts + later \<and> ports \<le> size (accepted_in evts) \<and>
     (alive \<longrightarrow> ports = size (accepted_in evts)) \<and> withdrawn_in evts = {#}"

fun handed :: "('e, 'a) awaited \<Rightarrow> nat" where
  "handed (Done (Inr _)) = 1"
| "handed _ = 0"

fun handed_opt :: "('e, 'a option) awaited \<Rightarrow> nat" where
  "handed_opt (Done (Inr (Some _))) = 1"
| "handed_opt _ = 0"

definition kept_keys :: "request option \<Rightarrow> request_key multiset" where
  "kept_keys kept = (case kept of None \<Rightarrow> {#} | Some r \<Rightarrow> {#request_key r#})"

lemma kept_keys_simps [simp]: "kept_keys None = {#}" "kept_keys (Some r) = {#request_key r#}"
  by (simp_all add: kept_keys_def)

lemma settles_append:
  "settles alive given ports evts later \<Longrightarrow> settles alive given' ports' evts' later' \<Longrightarrow>
     settles alive (given + given') (ports + ports') (evts @ evts') (later + later')"
  by (auto simp: settles_def ac_simps)

lemma send_rejection_settles:
  assumes "send_rejection no_ports r p = (sent, evts, p')"
  shows "settles alive {#request_key r#} 0 evts (if sent then {#} else {#request_key r#})"
    "sent \<longleftrightarrow> \<not> rqs_pre_connected r \<or> is_available p"
  using assms
  by (auto simp: send_rejection_def settles_def request_key_def try_reserve_def split: if_splits)

lemma reject_settles:
  assumes "reject no_ports r p = (sent, evts, p')"
  shows "settles alive {#request_key r#} 0 evts (if sent then {#} else {#request_key r#})"
proof -
  obtain b evts1 p1 where r: "send_rejection no_ports r p = (b, evts1, p1)"
    by (cases "send_rejection no_ports r p")
  with assms send_rejection_settles(1) [OF r, of alive] show ?thesis
    by (cases b) (auto simp: reject_def settles_def)
qed

lemmas drop_defs = drop_with_def request_drop_def

lemma accept_pre_connected_settles:
  assumes "accept_pre_connected env r p = (res, evts, tasks, p')" "rqs_pre_connected r"
  shows "settles (le_alive env) {#request_key r#} (handed res) evts (keys_of tasks + kept_keys (still_held r res))"
proof -
  obtain b q where q: "try_reserve p = (b, q)" by fastforce
  with assms show ?thesis
    by (cases b) (auto simp: accept_pre_connected_def settles_def request_key_def drop_defs split: if_splits)
qed

lemma accept_reserved_settles:
  assumes "accept_reserved env tx r p = Some (Ret (res, evts, tasks, p'))"
  shows "settles (le_alive env) {#request_key r#} (handed res) evts (keys_of tasks + kept_keys (still_held r res))"
proof (cases "rqs_pre_connected r")
  case True
  obtain res1 evts1 tasks1 p1 where pre: "accept_pre_connected env r p = (res1, evts1, tasks1, p1)"
    by (cases "accept_pre_connected env r p")
  have "res = res1 \<and> evts = evts1 \<and> tasks = tasks1"
    using assms True pre by (cases res1) (auto simp: accept_reserved_def exec_bind_Ret)
  with accept_pre_connected_settles [OF pre True] show ?thesis by simp
next
  case False
  show ?thesis
  proof (cases "le_port_sides env")
    case True
    with assms False obtain ra p2 where ra: "into_remote p (rqs_remote_port r) = Ret (ra, p2)"
      by (auto simp: accept_reserved_def exec_bind_Ret)
    with True assms False show ?thesis
      by (cases ra; cases "le_alive env")
        (auto simp: accept_reserved_def settles_def request_key_def drop_defs)
  next
    case no_sides: False
    with assms False show ?thesis
      by (auto simp: accept_reserved_def exec_bind_Ret settles_def request_key_def split: if_splits)
  qed
qed

lemma accept_request_settles:
  assumes "accept_request env tx r p = Some (Ret (res, evts, tasks, p'))"
  shows "settles (le_alive env) {#request_key r#} (handed res) evts (keys_of tasks + kept_keys (still_held r res))"
proof (cases "rqs_pre_connected r")
  case True
  with assms show ?thesis by (auto simp: accept_request_def intro: accept_pre_connected_settles)
next
  case False
  obtain ok q where q: "try_reserve p = (ok, q)" by fastforce
  obtain sent evts1 q1 where rej: "reject True r q = (sent, evts1, q1)"
    by (cases "reject True r q")
  show ?thesis
  proof (cases ok)
    case True
    with False q assms accept_reserved_settles show ?thesis by (simp add: accept_request_def)
  next
    case exhausted: False
    show ?thesis
    proof (cases "rqs_wait r")
      case True
      with False exhausted q assms show ?thesis
        by (auto simp: accept_request_def settles_def drop_defs split: if_splits)
    next
      case no_wait: False
      with False exhausted q rej assms reject_settles [OF rej, of "le_alive env"] show ?thesis
        by (cases sent) (auto simp: accept_request_def)
    qed
  qed
qed

lemma accept_tentatively_settles:
  assumes "accept_tentatively env r p = (res, evts, tasks, p')"
  shows "settles (le_alive env) {#request_key r#} (handed res) evts (keys_of tasks + kept_keys (still_held r res))"
proof (cases "rqs_pre_connected r")
  case True
  obtain res1 evts1 tasks1 p1 where pre: "accept_pre_connected env r p = (res1, evts1, tasks1, p1)"
    by (cases "accept_pre_connected env r p")
  have "handed res = handed res1 \<and> still_held r res = still_held r res1 \<and> evts = evts1 \<and> tasks = tasks1"
    using assms True pre by (auto simp: accept_tentatively_def split: awaited.splits sum.splits)
  with accept_pre_connected_settles [OF pre True] show ?thesis by simp
qed (use assms in \<open>auto simp: accept_tentatively_def request_drop_def settles_def\<close>)

text \<open>The requests in the queues of the listener.\<close>

fun requests_in :: "remote_connect_msg list \<Rightarrow> request list" where
  "requests_in [] = []"
| "requests_in (ConnectRequest r # q) = r # requests_in q"
| "requests_in (RemoteClientDropped # q) = requests_in q"

lemma requests_in_append [simp]: "requests_in (q @ q') = requests_in q @ requests_in q'"
  by (induction q rule: requests_in.induct) auto

definition queued :: "listener \<Rightarrow> request list" where
  "queued l = requests_in (ls_wait l) @ requests_in (ls_no_wait l)"

fun inspected :: "(listener_error, request option) awaited \<Rightarrow> request list" where
  "inspected (Done (Inr (Some r))) = [r]"
| "inspected _ = []"

lemma inspect_queued:
  "inspect pick l = (res, l') \<Longrightarrow> keys_of (queued l) = keys_of (inspected res) + keys_of (queued l')"
proof (induction pick l rule: inspect.induct)
  case (1 pick l)
  show ?case
  proof (cases "ls_wait_closed l \<and> ls_no_wait_closed l")
    case True
    with "1.prems" show ?thesis by (auto simp: inspect.simps [of pick l])
  next
    case open_queue: False
    show ?thesis
    proof (cases "use_wait pick l")
      case True
      show ?thesis
      proof (cases "ls_wait l" rule: requests_in.cases)
        case (3 q)
        with "1.IH"(1) [OF open_queue True 3] "1.prems" open_queue True show ?thesis
          by (simp add: inspect.simps [of pick l] queued_def)
      qed (use "1.prems" open_queue True in \<open>auto simp: inspect.simps [of pick l] queued_def\<close>)
    next
      case False
      show ?thesis
      proof (cases "no_wait_ready l")
        case True
        show ?thesis
        proof (cases "ls_no_wait l" rule: requests_in.cases)
          case (3 q)
          with "1.IH"(2) [OF open_queue False True 3] "1.prems" open_queue False True show ?thesis
            by (simp add: inspect.simps [of pick l] queued_def)
        qed (use "1.prems" open_queue False True in \<open>auto simp: inspect.simps [of pick l] queued_def\<close>)
      qed (use "1.prems" open_queue False in \<open>auto simp: inspect.simps [of pick l]\<close>)
    qed
  qed
qed

lemma handed_opt_map [simp]: "handed_opt (map_awaited Some res) = handed res"
  by (cases res rule: handed.cases) (simp_all add: map_awaited_def)

lemma accept_taken_settles:
  assumes "accept_taken env tx r p l = Some (Ret (res, evts, tasks, kept, p', l'))"
  shows "settles (le_alive env) {#request_key r#} (handed_opt res) evts (keys_of tasks + kept_keys kept)"
    "l' = l"
proof -
  obtain res1 p1 where "accept_reserved env tx r p = Some (Ret (res1, evts, tasks, p1))"
    "res = map_awaited Some res1" "kept = still_held r res1" "l' = l"
    using assms by (auto simp: accept_taken_def exec_bind_Ret)
  with accept_reserved_settles show "l' = l"
    "settles (le_alive env) {#request_key r#} (handed_opt res) evts (keys_of tasks + kept_keys kept)"
    by auto
qed

lemma settles_nothing [simp]: "settles alive later 0 [] later"
  by (simp add: settles_def)

lemma settles_later:
  "settles alive given ports evts later \<Longrightarrow> settles alive (given + extra) ports evts (later + extra)"
  by (simp add: settles_def)

lemma accept_inspected_settles:
  assumes "accept_inspected env pick tx p l = Some (Ret (res, evts, tasks, kept, p', l'))"
  shows "settles (le_alive env) (keys_of (queued l)) (handed_opt res) evts
    (keys_of tasks + kept_keys kept + keys_of (queued l'))"
proof -
  obtain ires l1 where i: "inspect pick l = (ires, l1)" by fastforce
  note keys = inspect_queued [OF i]
  show ?thesis
  proof (cases ires rule: inspected.cases)
    case (1 r)
    then have "accept_taken env tx r p l1 = Some (Ret (res, evts, tasks, kept, p', l'))"
      using assms i by (simp add: accept_inspected_def)
    from accept_taken_settles [OF this] 1 keys show ?thesis
      by (auto dest: settles_later [of _ _ _ _ _ "keys_of (queued l1)"])
  qed (use assms i keys in \<open>auto simp: accept_inspected_def exec_bind_Ret\<close>)
qed

lemma listener_accept_settles:
  "listener_accept env pick tx p l = Some (Ret (res, evts, tasks, kept, p', l')) \<Longrightarrow>
     settles (le_alive env) (keys_of (queued l)) (handed_opt res) evts
       (keys_of tasks + kept_keys kept + keys_of (queued l'))"
proof (induction env pick tx p l arbitrary: res evts tasks kept p' l' rule: listener_accept.induct)
  case (1 env pick tx p l)
  note call = listener_accept.simps [of env pick tx p l]
  obtain b p1 where p1: "try_reserve p = (b, p1)" by fastforce
  show ?case
  proof (cases "(ls_wait_closed l \<and> ls_no_wait_closed l) \<or> b \<or> \<not> no_wait_ready l")
    case True
    with "1.prems" p1 accept_inspected_settles show ?thesis
      by (cases "ls_wait_closed l \<and> ls_no_wait_closed l"; cases b) (auto simp: call)
  next
    case False
    then have f: "\<not> (ls_wait_closed l \<and> ls_no_wait_closed l)" "try_reserve p = (False, p1)" "\<not> \<not> no_wait_ready l"
      using p1 by auto
    show ?thesis
    proof (cases "ls_no_wait l" rule: requests_in.cases)
      case 1
      with "1.prems" f show ?thesis by (auto simp: call)
    next
      case (2 r q)
      let ?l = "l\<lparr>ls_no_wait := q\<rparr>"
      have keys: "keys_of (queued l) = {#request_key r#} + keys_of (queued ?l)"
        by (simp add: queued_def 2)
      obtain b2 p2 where p2: "try_reserve (le_others env p1) = (b2, p2)" by fastforce
      show ?thesis
      proof (cases b2)
        case True
        with "1.prems" f 2 p2 have "accept_taken env tx r p2 ?l = Some (Ret (res, evts, tasks, kept, p', l'))"
          by (simp add: call)
        from accept_taken_settles [OF this] show ?thesis
          unfolding keys by (auto dest: settles_later)
      next
        case none: False
        obtain sent evts1 p3 where rej: "reject True r p2 = (sent, evts1, p3)"
          by (cases "reject True r p2")
        note rej_settles = reject_settles [OF rej, of "le_alive env"]
        show ?thesis
        proof (cases sent)
          case True
          then obtain evts2 where rest: "listener_accept env pick tx p3 ?l = Some (Ret (res, evts2, tasks, kept, p', l'))"
            "evts = evts1 @ evts2"
            using "1.prems" f 2 p2 none rej
            by (cases "(evts1, listener_accept env pick tx p3 ?l)" rule: prepend_evts.cases) (auto simp: call)
          have p2': "(False, p2) = try_reserve (le_others env p1)" and rej': "(True, evts1, p3) = reject True r p2"
            using p2 none rej True by simp_all
          note IH = "1.IH"(1) [OF f(1) f(2) [symmetric] refl f(3) 2 refl p2' refl rej' refl refl rest(1)]
          from settles_append [OF rej_settles IH] True show ?thesis
            unfolding keys rest(2) by simp
        next
          case False
          then have "res = Waiting" "evts = evts1" "tasks = []" "kept = Some r" "l' = ?l"
            using "1.prems" f 2 p2 none rej by (auto simp: call)
          with rej_settles False show ?thesis
            unfolding keys by (auto dest: settles_later)
        qed
      qed
    next
      case (3 q)
      let ?l = "l\<lparr>ls_no_wait := q, ls_no_wait_closed := True\<rparr>"
      have "keys_of (queued l) = keys_of (queued ?l)"
        by (simp add: queued_def 3)
      moreover have "listener_accept env pick tx p1 ?l = Some (Ret (res, evts, tasks, kept, p', l'))"
        using "1.prems" f 3 by (simp add: call)
      ultimately show ?thesis
        using "1.IH"(2) [OF f(1) f(2) [symmetric] refl f(3) 3 refl] by simp
    qed
  qed
qed

section \<open>A listener and its requests\<close>

text \<open>The requests the event loop has handed to the listener, those the application or an operation
  that waits holds, those left to tasks, the guards of tentative acceptances, the events sent and
  the number of ports handed out.\<close>

record requests_world =
  rw_listener :: listener
  rw_arrived :: "request multiset"
  rw_held :: "request multiset"
  rw_tasks :: "request multiset"
  rw_guards :: "u32 multiset"
  rw_sent :: "port_evt list"
  rw_ports :: nat
  rw_alloc :: port_alloc
  rw_ended :: bool

text \<open>The effect of an operation: the ports, the events, the requests left to tasks and to the
  operation itself, and the allocator.\<close>

definition after_op ::
  "bool \<Rightarrow> nat \<Rightarrow> port_evt list \<Rightarrow> request list \<Rightarrow> request option \<Rightarrow> port_alloc \<Rightarrow> requests_world \<Rightarrow> requests_world" where
  "after_op alive ports evts tasks kept p w =
     w\<lparr>rw_held := rw_held w + (case kept of None \<Rightarrow> {#} | Some r \<Rightarrow> {#r#}), rw_tasks := rw_tasks w + mset tasks,
       rw_sent := rw_sent w @ evts, rw_ports := rw_ports w + ports, rw_alloc := p,
       rw_ended := rw_ended w \<or> \<not> alive\<rparr>"

definition without :: "request \<Rightarrow> requests_world \<Rightarrow> requests_world" where
  "without r w = w\<lparr>rw_held := rw_held w - {#r#}\<rparr>"

definition queue_for :: "request \<Rightarrow> listener \<Rightarrow> listener" where
  "queue_for r l =
     (if rqs_wait r then l\<lparr>ls_wait := ls_wait l @ [ConnectRequest r]\<rparr>
      else l\<lparr>ls_no_wait := ls_no_wait l @ [ConnectRequest r]\<rparr>)"

definition client_dropped :: "listener \<Rightarrow> listener" where
  "client_dropped l =
     l\<lparr>ls_wait := ls_wait l @ [RemoteClientDropped], ls_no_wait := ls_no_wait l @ [RemoteClientDropped]\<rparr>"

inductive rw_step :: "requests_world \<Rightarrow> requests_world \<Rightarrow> bool" where
  arrive: "rw_step w (w\<lparr>rw_listener := queue_for r (rw_listener w), rw_arrived := add_mset r (rw_arrived w)\<rparr>)"
| client_gone: "rw_step w (w\<lparr>rw_listener := client_dropped (rw_listener w)\<rparr>)"
| loop_gone: "rw_step w (w\<lparr>rw_listener := (rw_listener w)\<lparr>ls_disconnected := True\<rparr>\<rparr>)"
| inspect: "inspect pick (rw_listener w) = (res, l) \<Longrightarrow>
    rw_step w (w\<lparr>rw_listener := l, rw_held := rw_held w + mset (inspected res)\<rparr>)"
| listen: "listener_accept env pick tx (rw_alloc w) (rw_listener w) = Some (Ret (lres, evts, tasks, kept, p, l)) \<Longrightarrow>
    rw_step w (after_op (le_alive env) (handed_opt lres) evts tasks kept p (w\<lparr>rw_listener := l\<rparr>))"
| accept: "r \<in># rw_held w \<Longrightarrow> accept_request env tx r (rw_alloc w) = Some (Ret (ares, evts, tasks, p)) \<Longrightarrow>
    rw_step w (after_op (le_alive env) (handed ares) evts tasks (still_held r ares) p (without r w))"
| tentatively: "r \<in># rw_held w \<Longrightarrow> accept_tentatively env r (rw_alloc w) = (tres, evts, tasks, p) \<Longrightarrow>
    rw_step w (after_op (le_alive env) (handed tres) evts tasks (still_held r tres) p
      (without r (w\<lparr>rw_guards := rw_guards w + (if handed tres = 1 then {#rqs_remote_port r#} else {#})\<rparr>)))"
| guard_reject: "rp \<in># rw_guards w \<Longrightarrow>
    rw_step w (w\<lparr>rw_guards := rw_guards w - {#rp#}, rw_sent := rw_sent w @ guard_reject no_ports rp\<rparr>)"
| guard_accept: "rp \<in># rw_guards w \<Longrightarrow> rw_step w (w\<lparr>rw_guards := rw_guards w - {#rp#}\<rparr>)"
| reject: "r \<in># rw_held w \<Longrightarrow> reject no_ports r (rw_alloc w) = (done, evts, p) \<Longrightarrow>
    rw_step w (after_op True 0 evts [] (if done then None else Some r) p (without r w))"
| drop: "r \<in># rw_held w \<Longrightarrow> request_drop r = (evts, tasks) \<Longrightarrow>
    rw_step w (after_op True 0 evts tasks None (rw_alloc w) (without r w))"
| task: "r \<in># rw_tasks w \<Longrightarrow> drop_task r (rw_alloc w) = (True, evts, p) \<Longrightarrow>
    rw_step w (after_op True 0 evts [] None p (w\<lparr>rw_tasks := rw_tasks w - {#r#}\<rparr>))"
| drop_listener: "rw_step w (after_op True 0 (concat (map dropped_ends (queued (rw_listener w))))
    (queued (rw_listener w)) None (rw_alloc w)
    (w\<lparr>rw_listener := (rw_listener w)\<lparr>ls_wait := [], ls_no_wait := []\<rparr>\<rparr>))"
| others: "rw_step w (w\<lparr>rw_alloc := p\<rparr>)"

definition new_listener :: listener where
  "new_listener = \<lparr>ls_wait = [], ls_no_wait = [], ls_wait_closed = False, ls_no_wait_closed = False,
     ls_disconnected = False\<rparr>"

definition rw_start :: "port_alloc \<Rightarrow> requests_world" where
  "rw_start p = \<lparr>rw_listener = new_listener, rw_arrived = {#}, rw_held = {#}, rw_tasks = {#}, rw_guards = {#},
     rw_sent = [], rw_ports = 0, rw_alloc = p, rw_ended = False\<rparr>"

inductive rw_reachable :: "requests_world \<Rightarrow> bool" where
  start: "rw_reachable (rw_start p)"
| step: "rw_reachable w \<Longrightarrow> rw_step w w' \<Longrightarrow> rw_reachable w'"

definition pending :: "requests_world \<Rightarrow> request multiset" where
  "pending w = mset (queued (rw_listener w)) + rw_held w + rw_tasks w"

definition rw_inv :: "requests_world \<Rightarrow> bool" where
  "rw_inv w \<longleftrightarrow>
     image_mset request_key (rw_arrived w) =
       accepted_in (rw_sent w) + rejected_in (rw_sent w) + image_mset request_key (pending w) \<and>
     rw_ports w \<le> size (accepted_in (rw_sent w)) \<and>
     (\<not> rw_ended w \<longrightarrow> rw_ports w = size (accepted_in (rw_sent w))) \<and>
     image_mset (\<lambda>rp. (rp, True)) (rw_guards w + withdrawn_in (rw_sent w)) \<subseteq># accepted_in (rw_sent w)"

lemma keys_of_image: "keys_of rs = image_mset request_key (mset rs)"
  by (simp add: keys_of_def)

lemma after_op_inv:
  assumes "settles alive given ports evts (keys_of tasks + kept_keys kept + extra)"
    "image_mset request_key (rw_arrived w) + extra =
       accepted_in (rw_sent w) + rejected_in (rw_sent w) + image_mset request_key (pending w) + given"
    "rw_ports w \<le> size (accepted_in (rw_sent w))"
    "\<not> rw_ended w \<longrightarrow> rw_ports w = size (accepted_in (rw_sent w))"
    "image_mset (\<lambda>rp. (rp, True)) (rw_guards w + withdrawn_in (rw_sent w)) \<subseteq>#
       accepted_in (rw_sent w) + accepted_in evts"
  shows "rw_inv (after_op alive ports evts tasks kept p w)"
proof -
  have "image_mset request_key (rw_arrived w) + extra =
      accepted_in (rw_sent w @ evts) + rejected_in (rw_sent w @ evts) +
      (image_mset request_key (pending w) + keys_of tasks + kept_keys kept) + extra"
    using assms(1) unfolding assms(2) settles_def by (simp add: ac_simps)
  then have "image_mset request_key (rw_arrived w) =
      accepted_in (rw_sent w @ evts) + rejected_in (rw_sent w @ evts) +
      image_mset request_key (pending (after_op alive ports evts tasks kept p w))"
    by (cases kept) (simp_all add: pending_def after_op_def keys_of_image ac_simps)
  then show ?thesis
    using assms unfolding rw_inv_def settles_def by (simp add: after_op_def ac_simps)
qed

lemma accept_tentatively_handed:
  assumes "accept_tentatively env r p = (res, evts, tasks, p')" "handed res = 1"
  shows "accepted_in evts = {#(rqs_remote_port r, True)#}"
proof -
  obtain b q where q: "try_reserve p = (b, q)" by fastforce
  with assms show ?thesis
    by (cases "rqs_pre_connected r"; cases b; cases "le_alive env"; cases "le_give_up env")
      (auto simp: accept_tentatively_def accept_pre_connected_def drop_defs)
qed

lemma rw_inv_parts:
  assumes "rw_inv w"
  shows "image_mset request_key (rw_arrived w) =
       accepted_in (rw_sent w) + rejected_in (rw_sent w) + image_mset request_key (pending w)"
    "rw_ports w \<le> size (accepted_in (rw_sent w))"
    "\<not> rw_ended w \<longrightarrow> rw_ports w = size (accepted_in (rw_sent w))"
    "image_mset (\<lambda>rp. (rp, True)) (rw_guards w + withdrawn_in (rw_sent w)) \<subseteq># accepted_in (rw_sent w)"
  using assms unfolding rw_inv_def by blast+

text \<open>An operation on a request that is held, or on one left to a task.\<close>

lemma pending_without:
  "r \<in># rw_held w \<Longrightarrow>
     image_mset request_key (pending w) = image_mset request_key (pending (without r w)) + {#request_key r#}"
  "r \<in># rw_tasks w \<Longrightarrow>
     image_mset request_key (pending w) =
       image_mset request_key (pending (w\<lparr>rw_tasks := rw_tasks w - {#r#}\<rparr>)) + {#request_key r#}"
  by (auto simp: pending_def without_def dest!: multi_member_split)

lemma held_op_inv:
  assumes "rw_inv w" "r \<in># rw_held w"
    "settles alive {#request_key r#} ports evts (keys_of tasks + kept_keys kept)"
  shows "rw_inv (after_op alive ports evts tasks kept p (without r w))"
proof (rule after_op_inv [where extra = "{#}" and given = "{#request_key r#}"])
  note inv = rw_inv_parts [OF assms(1)]
  have same: "rw_sent (without r w) = rw_sent w" "rw_arrived (without r w) = rw_arrived w"
    "rw_ports (without r w) = rw_ports w" "rw_ended (without r w) = rw_ended w"
    "rw_guards (without r w) = rw_guards w"
    by (simp_all add: without_def)
  show "image_mset request_key (rw_arrived (without r w)) + {#} =
      accepted_in (rw_sent (without r w)) + rejected_in (rw_sent (without r w)) +
      image_mset request_key (pending (without r w)) + {#request_key r#}"
    using inv(1) pending_without(1) [OF assms(2)] by (simp add: same)
  show "image_mset (\<lambda>rp. (rp, True)) (rw_guards (without r w) + withdrawn_in (rw_sent (without r w))) \<subseteq>#
      accepted_in (rw_sent (without r w)) + accepted_in evts"
    unfolding same using inv(4) by (rule subset_mset.order_trans) simp
qed (use assms(3) rw_inv_parts [OF assms(1)] in \<open>simp_all add: without_def\<close>)

lemma concat_dropped_ends:
  "accepted_in (concat (map dropped_ends rs)) = {#}" "rejected_in (concat (map dropped_ends rs)) = {#}"
  "withdrawn_in (concat (map dropped_ends rs)) = {#}"
  by (induction rs) auto

lemma rw_step_inv:
  assumes "rw_step w w'" "rw_inv w"
  shows "rw_inv w'"
  using assms
proof (induction rule: rw_step.induct)
  case (arrive w r)
  then show ?case
    by (auto simp: rw_inv_def pending_def queue_for_def queued_def)
next
  case (client_gone w)
  then show ?case
    by (simp add: rw_inv_def pending_def client_dropped_def queued_def)
next
  case (loop_gone w)
  then show ?case
    by (simp add: rw_inv_def pending_def queued_def)
next
  case (inspect pick w res l)
  then show ?case
    using inspect_queued [OF inspect.hyps] by (simp add: rw_inv_def pending_def keys_of_image ac_simps)
next
  case (listen env tx pick w lres evts tasks kept p l)
  note inv = rw_inv_parts [OF listen.prems]
  show ?case
  proof (rule after_op_inv [OF listener_accept_settles [OF listen.hyps]])
    show "image_mset (\<lambda>rp. (rp, True)) (rw_guards (w\<lparr>rw_listener := l\<rparr>) + withdrawn_in (rw_sent (w\<lparr>rw_listener := l\<rparr>)))
        \<subseteq># accepted_in (rw_sent (w\<lparr>rw_listener := l\<rparr>)) + accepted_in evts"
      using subset_mset.order_trans [OF inv(4)] by simp
  qed (use inv in \<open>simp_all add: pending_def keys_of_image ac_simps\<close>)
next
  case (accept r w env tx ares evts tasks p)
  then show ?case
    by (intro held_op_inv accept_request_settles)
next
  case (tentatively r w env tres evts tasks p)
  note inv = rw_inv_parts [OF tentatively.prems]
  let ?new = "if handed tres = 1 then {#rqs_remote_port r#} else {#}"
  let ?w = "without r (w\<lparr>rw_guards := rw_guards w + ?new\<rparr>)"
  have new: "image_mset (\<lambda>rp. (rp, True)) ?new \<subseteq># accepted_in evts"
    using accept_tentatively_handed [OF tentatively.hyps(2)] by simp
  have settled: "settles (le_alive env) {#request_key r#} (handed tres) evts
      (keys_of tasks + kept_keys (still_held r tres) + {#})"
    using accept_tentatively_settles [OF tentatively.hyps(2)] by simp
  show ?case
  proof (rule after_op_inv [OF settled])
    have "image_mset (\<lambda>rp. (rp, True)) (rw_guards ?w + withdrawn_in (rw_sent ?w)) =
        image_mset (\<lambda>rp. (rp, True)) (rw_guards w + withdrawn_in (rw_sent w)) + image_mset (\<lambda>rp. (rp, True)) ?new"
      by (simp add: without_def)
    also have "\<dots> \<subseteq># accepted_in (rw_sent w) + accepted_in evts"
      using inv(4) new by (rule subset_mset.add_mono)
    finally show "image_mset (\<lambda>rp. (rp, True)) (rw_guards ?w + withdrawn_in (rw_sent ?w)) \<subseteq>#
        accepted_in (rw_sent ?w) + accepted_in evts"
      by (simp add: without_def)
  qed (use inv pending_without(1) [OF tentatively.hyps(1)] in \<open>simp_all add: without_def pending_def ac_simps\<close>)
next
  case (guard_reject rp w no_ports)
  then show ?case
    by (auto simp: rw_inv_def pending_def guard_reject_def dest!: multi_member_split)
next
  case (guard_accept rp w)
  note inv = rw_inv_parts [OF guard_accept.prems]
  have "image_mset (\<lambda>rp. (rp, True)) (rw_guards w - {#rp#} + withdrawn_in (rw_sent w)) \<subseteq>#
      image_mset (\<lambda>rp. (rp, True)) (rw_guards w + withdrawn_in (rw_sent w))"
    by (intro image_mset_subseteq_mono) simp
  from subset_mset.order_trans [OF this inv(4)] inv show ?case
    by (simp add: rw_inv_def pending_def)
next
  case (reject r w no_ports "done" evts p)
  from reject_settles [OF reject.hyps(2)] reject show ?case
    by (intro held_op_inv) (auto split: if_splits)
next
  case (drop r w evts tasks)
  then show ?case
    by (intro held_op_inv) (auto simp: request_drop_def settles_def)
next
  case (task r w evts p)
  note inv = rw_inv_parts [OF task.prems]
  have "settles True {#request_key r#} 0 evts (keys_of [] + kept_keys None + {#})"
    using send_rejection_settles(1) [of False r "rw_alloc w" True evts p] task.hyps(2) by (simp add: drop_task_def)
  then show ?case
  proof (rule after_op_inv)
    show "image_mset (\<lambda>rp. (rp, True)) (rw_guards (w\<lparr>rw_tasks := rw_tasks w - {#r#}\<rparr>) +
        withdrawn_in (rw_sent (w\<lparr>rw_tasks := rw_tasks w - {#r#}\<rparr>))) \<subseteq>#
        accepted_in (rw_sent (w\<lparr>rw_tasks := rw_tasks w - {#r#}\<rparr>)) + accepted_in evts"
      using subset_mset.order_trans [OF inv(4)] by simp
  qed (use inv pending_without(2) [OF task.hyps(1)] in simp_all)
next
  case (drop_listener w)
  note inv = rw_inv_parts [OF drop_listener.prems]
  let ?l = "rw_listener w"
  let ?evts = "concat (map dropped_ends (queued ?l))"
  have "settles True (keys_of (queued ?l)) 0 ?evts (keys_of (queued ?l) + kept_keys None + {#})"
    by (simp add: settles_def concat_dropped_ends)
  then show ?case
    by (rule after_op_inv)
      (use inv in \<open>simp_all add: concat_dropped_ends pending_def keys_of_image queued_def ac_simps\<close>)
next
  case (others w p)
  then show ?case
    by (simp add: rw_inv_def pending_def)
qed

lemma rw_reachable_inv: "rw_reachable w \<Longrightarrow> rw_inv w"
proof (induction rule: rw_reachable.induct)
  case (start p)
  show ?case
    by (simp add: rw_inv_def rw_start_def pending_def queued_def new_listener_def)
qed (rule rw_step_inv)

text \<open>C17: Every request is answered exactly once, or still waits. After any sequence of calls of a
  listener and of the requests it has handed out (inspecting, accepting through the listener or
  through the request, accepting tentatively and rejecting or confirming afterwards, rejecting,
  dropping requests or the listener), of the tasks they start and of changes of the allocator by
  others: the requests that have arrived are, one for one and with their pre-connection, those of
  an acceptance sent, those of a rejection sent, and those still queued, held by the application
  or a waiting call, or left to the task of a drop. While the event loop is alive as many ports
  have been handed out as acceptances sent. A rejection after the acceptance is sent at most once
  for each tentative acceptance, through its guard. The task of a drop and a rejection get through
  exactly when the request is not pre-connected or a port can be reserved: a pre-connected request
  may stay unanswered for as long as none can.\<close>

theorem request_answered_once:
  assumes "rw_reachable w"
  shows "image_mset request_key (rw_arrived w) =
      accepted_in (rw_sent w) + rejected_in (rw_sent w) + image_mset request_key (pending w) \<and>
    rw_ports w \<le> size (accepted_in (rw_sent w)) \<and>
    (\<not> rw_ended w \<longrightarrow> rw_ports w = size (accepted_in (rw_sent w))) \<and>
    image_mset (\<lambda>rp. (rp, True)) (rw_guards w + withdrawn_in (rw_sent w)) \<subseteq># accepted_in (rw_sent w) \<and>
    (fst (drop_task r (rw_alloc w)) \<longleftrightarrow> \<not> rqs_pre_connected r \<or> is_available (rw_alloc w)) \<and>
    (fst (reject no_ports r (rw_alloc w)) \<longleftrightarrow> \<not> rqs_pre_connected r \<or> is_available (rw_alloc w))"
proof -
  have sent: "fst (send_rejection b r p) \<longleftrightarrow> \<not> rqs_pre_connected r \<or> is_available p" for b p
    using send_rejection_settles(2) [of b r p] by (cases "send_rejection b r p") simp
  moreover have "fst (reject no_ports r p) = fst (send_rejection no_ports r p)" for p
    by (simp add: reject_def split: prod.splits bool.splits)
  ultimately show ?thesis
    using rw_reachable_inv [OF assms] by (simp add: rw_inv_def drop_task_def)
qed

definition example_request :: "bool \<Rightarrow> request" where
  "example_request pre = \<lparr>rqs_remote_port = 7, rqs_id = 7, rqs_wait = False, rqs_pre_connected = pre\<rparr>"

definition example_env :: listen_env where
  "example_env = \<lparr>le_give_up = True, le_alive = True, le_port_sides = True, le_others = \<lambda>p. p\<rparr>"

text \<open>Two pre-connected requests arrive with two ports to spare: the first is accepted tentatively
  and rejected through its guard, the second is dropped and its task has not run.\<close>

definition example_dropped :: request where
  "example_dropped = (example_request True)\<lparr>rqs_remote_port := 8\<rparr>"

definition example_requests :: requests_world where
  "example_requests =
     \<lparr>rw_listener = new_listener, rw_arrived = {#example_dropped, example_request True#}, rw_held = {#},
      rw_tasks = {#example_dropped#}, rw_guards = {#},
      rw_sent = [AcceptedAfterPreConnect 7, RejectedAfterAccept 7 False, SenderDropped (Remote 8),
        ReceiverDropped (Remote 8)],
      rw_ports = 1, rw_alloc = (new_port_alloc 2)\<lparr>reserved := 1\<rparr>, rw_ended = False\<rparr>"

lemmas example_listen_eval =
  rw_start_def new_listener_def queue_for_def after_op_def without_def guard_reject_def
  example_request_def example_env_def

lemma example_requests_reachable: "rw_reachable example_requests"
proof -
  let ?r = "example_request True" and ?d = example_dropped
  let ?l1 = "queue_for ?d (queue_for ?r new_listener)"
  let ?w1 = "(rw_start (new_port_alloc 2))\<lparr>rw_listener := ?l1, rw_arrived := {#?d, ?r#}\<rparr>"
  have 1: "rw_reachable ?w1"
    using rw_reachable.step [OF rw_reachable.step [OF rw_reachable.start [of "new_port_alloc 2"]
      rw_step.arrive [of _ ?r]] rw_step.arrive [of _ ?d]] by (simp add: rw_start_def)
  let ?l2 = "queue_for ?d new_listener"
  let ?w2 = "?w1\<lparr>rw_listener := ?l2, rw_held := {#?r#}\<rparr>"
  have "inspect (\<lambda>_. False) ?l1 = (Done (Inr (Some ?r)), ?l2)"
    by (subst inspect.simps)
      (simp add: queue_for_def new_listener_def use_wait_def wait_ready_def no_wait_ready_def example_dropped_def
        example_request_def)
  with rw_reachable.step [OF 1 rw_step.inspect [of "\<lambda>_. False"]] have 2: "rw_reachable ?w2"
    by (simp add: rw_start_def)
  let ?w3 = "?w2\<lparr>rw_listener := new_listener, rw_held := {#?d, ?r#}\<rparr>"
  have "inspect (\<lambda>_. False) ?l2 = (Done (Inr (Some ?d)), new_listener)"
    by (subst inspect.simps)
      (simp add: queue_for_def new_listener_def use_wait_def wait_ready_def no_wait_ready_def example_dropped_def
        example_request_def)
  with rw_reachable.step [OF 2 rw_step.inspect [of "\<lambda>_. False"]] have 3: "rw_reachable ?w3"
    by (simp add: rw_start_def add_mset_commute)
  let ?p = "(new_port_alloc 2)\<lparr>reserved := 1\<rparr>"
  let ?w4 = "?w3\<lparr>rw_held := {#?d#}, rw_guards := {#7#}, rw_sent := [AcceptedAfterPreConnect 7], rw_ports := 1,
    rw_alloc := ?p\<rparr>"
  have "accept_tentatively example_env ?r (new_port_alloc 2) =
      (Done (Inr (Remote 7, 7)), [AcceptedAfterPreConnect 7], [], ?p)"
    by (simp add: accept_tentatively_def accept_pre_connected_def example_request_def example_env_def
        try_reserve_def is_available_def new_port_alloc_def)
  with rw_reachable.step [OF 3 rw_step.tentatively [of ?r _ example_env]] have 4: "rw_reachable ?w4"
    by (simp add: rw_start_def after_op_def without_def example_env_def) (simp add: example_request_def)
  let ?w5 = "?w4\<lparr>rw_guards := {#}, rw_sent := [AcceptedAfterPreConnect 7, RejectedAfterAccept 7 False]\<rparr>"
  from rw_reachable.step [OF 4 rw_step.guard_reject [of 7 _ False]] have 5: "rw_reachable ?w5"
    by (simp add: guard_reject_def)
  have "request_drop ?d = ([SenderDropped (Remote 8), ReceiverDropped (Remote 8)], [?d])"
    by (simp add: request_drop_def dropped_ends_def example_dropped_def example_request_def)
  with rw_reachable.step [OF 5 rw_step.drop [of ?d]] show ?thesis
    by (simp add: rw_start_def after_op_def without_def example_requests_def)
qed

theorem request_answered_once_witness:
  "image_mset request_key (rw_arrived example_requests) =
      accepted_in (rw_sent example_requests) + rejected_in (rw_sent example_requests) +
      image_mset request_key (pending example_requests) \<and>
    fst (drop_task example_dropped (rw_alloc example_requests)) \<and>
    pending example_requests = {#example_dropped#}"
  using request_answered_once [OF example_requests_reachable, of example_dropped]
  by (auto simp: example_requests_def is_available_def new_port_alloc_def pending_def queued_def new_listener_def)

text \<open>Accepting a pre-connected request through the listener takes two ports. With exactly one
  port available, \<^verbatim>\<open>Request::accept\<close> succeeds; \<^verbatim>\<open>Listener::accept\<close> reserves that port before it
  takes the request, and then finds none for the request itself: it waits, or rejects the
  request when the configuration says so.\<close>

theorem listener_accept_needs_two_ports:
  assumes "card (local_used p) + card (remote_used p) + reserved p + 1 = limit p"
    "rqs_pre_connected r" "le_alive env"
  shows "\<exists>q. accept_request env tx r p = Some (Ret (Done (Inr (Remote (rqs_remote_port r))),
        [AcceptedAfterPreConnect (rqs_remote_port r)], [], q)) \<and>
    try_reserve p = (True, q) \<and>
    accept_reserved env tx r q =
      Some (Ret (if le_give_up env then drop_with ListenerPortsExhausted r p else (Waiting, [], [], q)))"
proof -
  let ?q = "p\<lparr>reserved := reserved p + 1\<rparr>"
  have res: "try_reserve p = (True, ?q)" "try_reserve ?q = (False, ?q)"
    using assms(1) by (auto simp: try_reserve_def is_available_def)
  moreover have "drop_reserved ?q = Ret p"
    by (simp add: drop_reserved_def)
  ultimately show ?thesis
    using assms(2,3)
    by (auto simp: accept_request_def accept_pre_connected_def accept_reserved_def drop_with_def request_drop_def)
qed

theorem listener_accept_needs_two_ports_witness:
  "\<exists>q. accept_request example_env 0 (example_request True) (new_port_alloc 1) =
      Some (Ret (Done (Inr (Remote 7)), [AcceptedAfterPreConnect 7], [], q)) \<and>
    try_reserve (new_port_alloc 1) = (True, q) \<and>
    accept_reserved example_env 0 (example_request True) q =
      Some (Ret (drop_with ListenerPortsExhausted (example_request True) (new_port_alloc 1)))"
  using listener_accept_needs_two_ports [of "new_port_alloc 1" "example_request True" example_env 0]
  by (simp add: new_port_alloc_def example_request_def example_env_def)

section \<open>All requests are listened to\<close>

text \<open>Calling \<^verbatim>\<open>inspect\<close> until it returns nothing, at most \<open>n\<close> times.\<close>

fun inspect_all :: "nat \<Rightarrow> (listener \<Rightarrow> bool) \<Rightarrow> listener \<Rightarrow> request list option" where
  "inspect_all 0 pick l = None"
| "inspect_all (Suc n) pick l =
     (case inspect pick l of
        (Done (Inr None), l) \<Rightarrow> Some []
      | (Done (Inr (Some r)), l) \<Rightarrow> map_option ((#) r) (inspect_all n pick l)
      | _ \<Rightarrow> None)"

text \<open>The requests left in a queue that ends with the drop of the remote client.\<close>

definition holds_requests :: "request list \<Rightarrow> remote_connect_msg list \<Rightarrow> bool \<Rightarrow> bool" where
  "holds_requests rs q closed \<longleftrightarrow>
     (if closed then rs = [] else q = map ConnectRequest rs @ [RemoteClientDropped])"

lemma inspect_next:
  "holds_requests ws (ls_wait l) (ls_wait_closed l) \<Longrightarrow>
   holds_requests ns (ls_no_wait l) (ls_no_wait_closed l) \<Longrightarrow>
     (\<exists>l'. inspect pick l = (Done (Inr None), l') \<and> ws = [] \<and> ns = []) \<or>
     (\<exists>r ws' l'. inspect pick l = (Done (Inr (Some r)), l') \<and> ws = r # ws' \<and>
        holds_requests ws' (ls_wait l') (ls_wait_closed l') \<and>
        holds_requests ns (ls_no_wait l') (ls_no_wait_closed l')) \<or>
     (\<exists>r ns' l'. inspect pick l = (Done (Inr (Some r)), l') \<and> ns = r # ns' \<and>
        holds_requests ws (ls_wait l') (ls_wait_closed l') \<and>
        holds_requests ns' (ls_no_wait l') (ls_no_wait_closed l'))"
proof (induction pick l rule: inspect.induct)
  case (1 pick l)
  show ?case
  proof (cases "ls_wait_closed l \<and> ls_no_wait_closed l")
    case True
    with "1.prems" show ?thesis
      by (simp add: inspect.simps [of pick l] holds_requests_def)
  next
    case open_queue: False
    show ?thesis
    proof (cases "use_wait pick l")
      case True
      then have w: "\<not> ls_wait_closed l" "ls_wait l = map ConnectRequest ws @ [RemoteClientDropped]"
        using "1.prems"(1) by (auto simp: use_wait_def wait_ready_def holds_requests_def)
      show ?thesis
      proof (cases ws)
        case Nil
        then have q: "ls_wait l = RemoteClientDropped # []"
          using w by simp
        have "holds_requests ws [] True"
          using Nil by (simp add: holds_requests_def)
        with "1.IH"(1) [OF open_queue True q] "1.prems"(2) show ?thesis
          by (simp add: inspect.simps [of pick l] True q w(1))
      next
        case (Cons r ws')
        with w True "1.prems" show ?thesis
          by (simp add: inspect.simps [of pick l] holds_requests_def)
      qed
    next
      case False
      have n: "no_wait_ready l" "\<not> ls_no_wait_closed l" "ls_no_wait l = map ConnectRequest ns @ [RemoteClientDropped]"
      proof -
        show nc: "\<not> ls_no_wait_closed l"
          using open_queue False "1.prems"(1)
          by (auto simp: use_wait_def wait_ready_def no_wait_ready_def holds_requests_def)
        then show "ls_no_wait l = map ConnectRequest ns @ [RemoteClientDropped]"
          using "1.prems"(2) by (simp add: holds_requests_def)
        with nc show "no_wait_ready l"
          by (simp add: no_wait_ready_def)
      qed
      show ?thesis
      proof (cases ns)
        case Nil
        then have q: "ls_no_wait l = RemoteClientDropped # []"
          using n by simp
        have "holds_requests ns [] True"
          using Nil by (simp add: holds_requests_def)
        with "1.IH"(2) [OF open_queue False n(1) q] "1.prems"(1) show ?thesis
          by (simp add: inspect.simps [of pick l] False q n)
      next
        case (Cons r ns')
        with n False "1.prems" show ?thesis
          by (simp add: inspect.simps [of pick l] holds_requests_def)
      qed
    qed
  qed
qed

lemma inspect_all_shuffles:
  "holds_requests ws (ls_wait l) (ls_wait_closed l) \<Longrightarrow>
   holds_requests ns (ls_no_wait l) (ls_no_wait_closed l) \<Longrightarrow>
     \<exists>rs \<in> shuffles ws ns. inspect_all (Suc (length ws + length ns)) pick l = Some rs"
proof (induction "length ws + length ns" arbitrary: ws ns l)
  case 0
  with inspect_next [OF 0(2,3), of pick] show ?case by auto
next
  case (Suc n)
  from inspect_next [OF Suc.prems, of pick] Suc.hyps(2) consider
    r ws' l' where "inspect pick l = (Done (Inr (Some r)), l')" "ws = r # ws'"
      "holds_requests ws' (ls_wait l') (ls_wait_closed l')"
      "holds_requests ns (ls_no_wait l') (ls_no_wait_closed l')"
  | r ns' l' where "inspect pick l = (Done (Inr (Some r)), l')" "ns = r # ns'"
      "holds_requests ws (ls_wait l') (ls_wait_closed l')"
      "holds_requests ns' (ls_no_wait l') (ls_no_wait_closed l')"
    by auto
  then show ?case
  proof cases
    case 1
    from Suc.hyps(1) [OF _ 1(3,4)] Suc.hyps(2) 1(2) obtain rs where
      "rs \<in> shuffles ws' ns" "inspect_all (Suc n) pick l' = Some rs"
      by auto
    moreover have "r # rs \<in> shuffles ws ns"
      using calculation(1) 1(2) by (simp add: Cons_in_shuffles_leftI)
    ultimately show ?thesis
      unfolding Suc.hyps(2) [symmetric] using 1(1) by (intro bexI [of _ "r # rs"]) simp_all
  next
    case 2
    from Suc.hyps(1) [OF _ 2(3,4)] Suc.hyps(2) 2(2) obtain rs where
      "rs \<in> shuffles ws ns'" "inspect_all (Suc n) pick l' = Some rs"
      by auto
    moreover have "r # rs \<in> shuffles ws ns"
      using calculation(1) 2(2) by (simp add: Cons_in_shuffles_rightI)
    ultimately show ?thesis
      unfolding Suc.hyps(2) [symmetric] using 2(1) by (intro bexI [of _ "r # rs"]) simp_all
  qed
qed

text \<open>C18: The listener yields all requests. Once the remote client is gone, and whichever ready
  queue is taken each time, calling \<^verbatim>\<open>inspect\<close> gives every request that waits for a port and
  every one that does not exactly once, each kind in the order received, and then the end.\<close>

theorem listener_yields_all:
  assumes "ls_wait l = map ConnectRequest ws @ [RemoteClientDropped]"
    "ls_no_wait l = map ConnectRequest ns @ [RemoteClientDropped]"
    "\<not> ls_wait_closed l" "\<not> ls_no_wait_closed l"
  shows "\<exists>rs \<in> shuffles ws ns. inspect_all (Suc (length ws + length ns)) pick l = Some rs"
  by (rule inspect_all_shuffles) (simp_all add: holds_requests_def assms)

theorem listener_yields_all_witness:
  "\<exists>rs \<in> shuffles [example_request False] [example_request True].
     inspect_all 3 (\<lambda>_. False) \<lparr>ls_wait = [ConnectRequest (example_request False), RemoteClientDropped],
       ls_no_wait = [ConnectRequest (example_request True), RemoteClientDropped],
       ls_wait_closed = False, ls_no_wait_closed = False, ls_disconnected = False\<rparr> = Some rs"
  using listener_yields_all [of "\<lparr>ls_wait = [ConnectRequest (example_request False), RemoteClientDropped],
       ls_no_wait = [ConnectRequest (example_request True), RemoteClientDropped],
       ls_wait_closed = False, ls_no_wait_closed = False, ls_disconnected = False\<rparr>"
       "[example_request False]" "[example_request True]" "\<lambda>_. False"]
  by (simp add: numeral_3_eq_3)

section \<open>The order of a rejection\<close>

text \<open>A late rejection ends the connection. The drop of a pre-connected request sends its three
  events from tasks of their own, and the one with the rejection waits for a reserved port first.
  When the ends of the port go first, the rejection comes once a port can be reserved, and the
  requester has already dropped its own ends, the port is freed there when the rejection arrives,
  which is answered with a protocol error.\<close>

theorem rejection_overtaken:
  assumes "rqs_pre_connected r" "n = rqs_remote_port r" "is_available p"
    "conn_at m (Remote n) = Some c" "pc_remote_port c = Remote n" "\<not> pc_sender_dropped c"
    "\<not> pc_receiver_dropped c" "n \<in> mx_outstanding m"
    "conn_at m' (Local n) = Some c'" "pc_sender_dropped c'" "pc_receiver_dropped c'" "pc_receiver_open c'"
    "\<not> pc_remote_receiver_dropped c'" "\<not> pc_remote_receiver_closed c'" "pc_closed_notify c' = Some txs"
  shows "\<exists>evts rejection p' m1 out. request_drop r = (evts, [r]) \<and> drop_task r p = (True, rejection, p') \<and>
    port_events (evts @ rejection) m = MuxOk m1 out \<and>
    deliver lq (fed out) m' = protocol_err ''received Rejected message for unknown port''"
proof -
  let ?evts = "[SenderDropped (Remote n), ReceiverDropped (Remote n)]"
  have "request_drop r = (?evts, [r])"
    using assms(1,2) by (simp add: request_drop_def dropped_ends_def)
  moreover have "\<exists>p'. drop_task r p = (True, [RejectedEvt n False True], p')"
    using assms(1-3) by (simp add: drop_task_def send_rejection_def try_reserve_def)
  moreover have "\<exists>m1 out. port_events (?evts @ [RejectedEvt n False True]) m = MuxOk m1 out \<and>
      fed out = [(SendFinish (Remote n), None), (ReceiveFinish (Remote n), None), (Rejected n False, None)]"
    using assms(4-8)
    by (auto simp: port_events_Cons mux_bind.simps maybe_free_port_def set_conn_def conn_at_def freeable_def
        split: option.splits port_state.splits)
  moreover have "deliver lq [(SendFinish (Remote n), None), (ReceiveFinish (Remote n), None),
      (Rejected n False, None)] m' = protocol_err ''received Rejected message for unknown port''"
    using assms(9-)
    by (auto simp: deliver_Cons mux_bind.simps recv_send_finish_def recv_receive_finish_def with_conn_def
        hang_up_def maybe_free_port_def set_conn_def conn_at_def freeable_def recv_rejected_def
        protocol_err_def split: option.splits port_state.splits)
  ultimately show ?thesis by metis
qed

theorem rejection_overtaken_witness:
  "\<exists>evts rejection p' m1 out. request_drop (example_request True) = (evts, [example_request True]) \<and>
    drop_task (example_request True) (new_port_alloc 1) = (True, rejection, p') \<and>
    port_events (evts @ rejection) ((set_conn (Remote 7) (example_conn\<lparr>pc_port := Remote 7, pc_remote_port := Remote 7\<rparr>)
      example_mux)\<lparr>mx_outstanding := {7}\<rparr>) = MuxOk m1 out \<and>
    deliver (\<lambda>_. SendOk) (fed out) (set_conn (Local 7) (example_conn\<lparr>pc_port := Local 7,
        pc_remote_port := Local 7, pc_sender_dropped := True, pc_receiver_dropped := True\<rparr>) example_mux) =
      (protocol_err ''received Rejected message for unknown port'' :: unit mux_result)"
  by (rule rejection_overtaken [where n = 7 and
        c = "example_conn\<lparr>pc_port := Remote 7, pc_remote_port := Remote 7\<rparr>" and
        c' = "example_conn\<lparr>pc_port := Local 7, pc_remote_port := Local 7, pc_sender_dropped := True,
          pc_receiver_dropped := True\<rparr>"])
    (simp_all add: example_request_def example_conn_def new_conn_def is_available_def new_port_alloc_def)

end
