(* ===== verification/Frame.thy ===== *)
theory Frame
  imports Varint
begin

text \<open>
  Frames over a byte stream, \<^verbatim>\<open>remoc/src/connect/io_transport.rs\<close>: the codec of length headers,
  the sink that collects small frames and writes large ones from their own buffers, and the
  stream that reads frames from whatever portions the reader gives. The answers of the reader
  and the writer of the operating system are lists: how many bytes a read or write takes, or an
  error; when they run out the operation is pending.
\<close>

section \<open>Length headers\<close>

record length_codec =
  lc_max_frame_len :: u32
  lc_varint :: bool
  lc_decoder :: varint_decoder

definition new_codec :: "u32 \<Rightarrow> bool \<Rightarrow> length_codec" where
  "new_codec max_frame_len varint =
     \<lparr>lc_max_frame_len = max_frame_len, lc_varint = varint, lc_decoder = new_decoder\<rparr>"

text \<open>The loop of \<^verbatim>\<open>decode_header\<close> over the bytes of the header: the decoder and the bytes left.\<close>

fun decode_bytes :: "varint_decoder \<Rightarrow> bytes \<Rightarrow> varint_decoder \<times> bytes \<times> (io_error + u32 option)" where
  "decode_bytes d [] = (d, [], Inr None)"
| "decode_bytes d (b # bs) =
     (case decode d b of
        (d', Inl e) \<Rightarrow> (d', bs, Inl e)
      | (d', Inr (Some n)) \<Rightarrow> (d', bs, Inr (Some n))
      | (d', Inr None) \<Rightarrow> decode_bytes d' bs)"

definition decode_length :: "byteorder \<Rightarrow> length_codec \<Rightarrow> bytes \<Rightarrow>
    length_codec \<times> bytes \<times> (io_error + u32 option)" where
  "decode_length bo c src =
     (if \<not> lc_varint c
      then if length src < 4 then (c, src, Inr None)
           else (c, drop 4 src, Inr (Some (get32 bo (take 4 src))))
      else case decode_bytes (lc_decoder c) src of (d, rest, r) \<Rightarrow> (c\<lparr>lc_decoder := d\<rparr>, rest, r))"

definition decode_header :: "byteorder \<Rightarrow> length_codec \<Rightarrow> bytes \<Rightarrow>
    length_codec \<times> bytes \<times> (io_error + nat option)" where
  "decode_header bo c src =
     (case decode_length bo c src of
        (c, rest, Inl e) \<Rightarrow> (c, rest, Inl e)
      | (c, rest, Inr None) \<Rightarrow> (c, rest, Inr None)
      | (c, rest, Inr (Some n)) \<Rightarrow>
          if n > lc_max_frame_len c then (c, rest, Inl (InvalidData ''frame exceeds maximum size''))
          else (c, rest, Inr (Some (unat n))))"

definition has_partial_header :: "length_codec \<Rightarrow> bool" where
  "has_partial_header c \<longleftrightarrow> \<not> decoder_is_empty (lc_decoder c)"

definition encode_header :: "byteorder \<Rightarrow> length_codec \<Rightarrow> nat \<Rightarrow> bytes" where
  "encode_header bo c len =
     (let n = word_of_nat len in if \<not> lc_varint c then put32 bo n else varint_u32 n)"

section \<open>Writing frames\<close>

definition MAX_SLICES :: nat where
  "MAX_SLICES = 64"

definition DIRECT_MIN :: nat where
  "DIRECT_MIN = 4096"

datatype write_answer = WroteBytes nat | WriteFailed io_error

record frame_sink =
  sk_written :: bytes
  sk_codec :: length_codec
  sk_queue :: "bytes list"
  sk_queued :: nat
  sk_buf :: bytes
  sk_backpressure :: nat
  sk_vectored :: bool

definition new_sink :: "length_codec \<Rightarrow> nat \<Rightarrow> bool \<Rightarrow> frame_sink" where
  "new_sink c capacity vectored =
     \<lparr>sk_written = [], sk_codec = c, sk_queue = [], sk_queued = 0, sk_buf = [],
      sk_backpressure = capacity, sk_vectored = vectored\<rparr>"

definition sink_pending :: "frame_sink \<Rightarrow> nat" where
  "sink_pending s = sk_queued s + length (sk_buf s)"

text \<open>Taking what has been written off the queue; an empty queue panics.\<close>

fun advance_queue :: "nat \<Rightarrow> bytes list \<Rightarrow> bytes list exec" where
  "advance_queue 0 q = Ret q"
| "advance_queue (Suc n) [] = Panic"
| "advance_queue (Suc n) (d # q) =
     (if Suc n < length d then Ret (drop (Suc n) d # q) else advance_queue (Suc n - length d) q)"

datatype write_poll = WritePending | WriteReady | WriteError io_error | WriteZero

definition enqueue_buf :: "frame_sink \<Rightarrow> frame_sink" where
  "enqueue_buf s =
     (if sk_buf s = [] then s
      else s\<lparr>sk_queued := sk_queued s + length (sk_buf s), sk_queue := sk_queue s @ [sk_buf s],
             sk_buf := []\<rparr>)"

text \<open>A vectored write takes at most what the first \<^verbatim>\<open>MAX_SLICES\<close> buffers hold.\<close>

fun write_queued :: "write_answer list \<Rightarrow> frame_sink \<Rightarrow> (write_poll \<times> write_answer list \<times> frame_sink) exec" where
  "write_queued ws s =
     (if sk_queued s = 0 then Ret (WriteReady, ws, s)
      else case ws of
        [] \<Rightarrow> Ret (WritePending, [], s)
      | WriteFailed e # ws \<Rightarrow> Ret (WriteError e, ws, s)
      | WroteBytes k # ws \<Rightarrow>
          (let offered = concat (take MAX_SLICES (sk_queue s)); n = min k (length offered)
           in if n = 0 then Ret (WriteZero, ws, s)
              else exec_bind (advance_queue n (sk_queue s))
                (\<lambda>q. write_queued ws (s\<lparr>sk_written := sk_written s @ take n offered,
                       sk_queued := sk_queued s - n, sk_queue := q\<rparr>))))"

declare write_queued.simps [simp del]

definition poll_write_pending :: "write_answer list \<Rightarrow> frame_sink \<Rightarrow> (write_poll \<times> write_answer list \<times> frame_sink) exec" where
  "poll_write_pending ws s = write_queued ws (enqueue_buf s)"

definition sink_poll_ready :: "write_answer list \<Rightarrow> frame_sink \<Rightarrow> (write_poll \<times> write_answer list \<times> frame_sink) exec" where
  "sink_poll_ready ws s =
     (if sink_pending s \<ge> sk_backpressure s then poll_write_pending ws s else Ret (WriteReady, ws, s))"

definition sink_start_send :: "byteorder \<Rightarrow> bytes \<Rightarrow> frame_sink \<Rightarrow> frame_sink" where
  "sink_start_send bo item s =
     (let buf = sk_buf s @ encode_header bo (sk_codec s) (length item)
      in if length item \<ge> DIRECT_MIN \<and> sk_vectored s
         then s\<lparr>sk_queued := sk_queued s + length buf + length item,
                sk_queue := sk_queue s @ [buf, item], sk_buf := []\<rparr>
         else s\<lparr>sk_buf := buf @ item\<rparr>)"

section \<open>Reading frames\<close>

datatype read_answer = ReadBytes nat | ReadFailed io_error

record frame_stream =
  fs_input :: bytes
  fs_reads :: "read_answer list"
  fs_codec :: length_codec
  fs_buf :: bytes
  fs_frame :: "(bytes \<times> nat) option"

definition new_stream :: "length_codec \<Rightarrow> bytes \<Rightarrow> read_answer list \<Rightarrow> frame_stream" where
  "new_stream c input reads =
     \<lparr>fs_input = input, fs_reads = reads, fs_codec = c, fs_buf = [], fs_frame = None\<rparr>"

datatype frame_poll = FramePending | FrameEnd | FrameError io_error | FrameGot bytes

text \<open>A read gives at least one byte unless the input has ended, and at most the space left.\<close>

datatype read_poll = ReadPending | ReadError io_error frame_stream | ReadOk bytes frame_stream

definition poll_read :: "nat option \<Rightarrow> frame_stream \<Rightarrow> read_poll" where
  "poll_read space s =
     (case fs_reads s of
        [] \<Rightarrow> ReadPending
      | ReadFailed e # rs \<Rightarrow> ReadError e (s\<lparr>fs_reads := rs\<rparr>)
      | ReadBytes k # rs \<Rightarrow>
          (let n = (case space of None \<Rightarrow> max k 1 | Some m \<Rightarrow> min (max k 1) m)
           in ReadOk (take n (fs_input s)) (s\<lparr>fs_input := drop n (fs_input s), fs_reads := rs\<rparr>)))"

lemma poll_read_shorter:
  "poll_read space s = ReadOk bs s' \<Longrightarrow> length (fs_reads s') < length (fs_reads s)"
  by (auto simp: poll_read_def Let_def split: list.splits read_answer.splits)

function poll_next :: "byteorder \<Rightarrow> frame_stream \<Rightarrow> frame_poll \<times> frame_stream" where
  "poll_next bo s =
     (case fs_frame s of
        Some (frame, remaining) \<Rightarrow>
          if remaining > 0
          then (case poll_read (Some remaining) s of
                  ReadPending \<Rightarrow> (FramePending, s)
                | ReadError e s' \<Rightarrow> (FrameError e, s')
                | ReadOk bs s' \<Rightarrow>
                    if bs = [] then (FrameError UnexpectedEof, s')
                    else poll_next bo (s'\<lparr>fs_frame := Some (frame @ bs, remaining - length bs)\<rparr>))
          else (FrameGot frame, s\<lparr>fs_frame := None\<rparr>)
      | None \<Rightarrow>
          (case decode_header bo (fs_codec s) (fs_buf s) of
             (c, buf, Inl e) \<Rightarrow> (FrameError e, s\<lparr>fs_codec := c, fs_buf := buf\<rparr>)
           | (c, buf, Inr (Some len)) \<Rightarrow>
               if length buf \<ge> len
               then (FrameGot (take len buf), s\<lparr>fs_codec := c, fs_buf := drop len buf\<rparr>)
               else poll_next bo (s\<lparr>fs_codec := c, fs_buf := [], fs_frame := Some (buf, len - length buf)\<rparr>)
           | (c, buf, Inr None) \<Rightarrow>
               (case poll_read None (s\<lparr>fs_codec := c, fs_buf := buf\<rparr>) of
                  ReadPending \<Rightarrow> (FramePending, s\<lparr>fs_codec := c, fs_buf := buf\<rparr>)
                | ReadError e s' \<Rightarrow> (FrameError e, s')
                | ReadOk bs s' \<Rightarrow>
                    if bs = []
                    then if buf = [] \<and> \<not> has_partial_header c then (FrameEnd, s')
                         else (FrameError UnexpectedEof, s')
                    else poll_next bo (s'\<lparr>fs_buf := buf @ bs\<rparr>))))"
  by auto
termination
  by (relation "measure (\<lambda>(bo, s). 2 * length (fs_reads s) + (if fs_frame s = None then 1 else 0))")
    (auto dest: poll_read_shorter)

declare poll_next.simps [simp del]

section \<open>The bytes of frames\<close>

definition frame_bytes :: "byteorder \<Rightarrow> length_codec \<Rightarrow> bytes \<Rightarrow> bytes" where
  "frame_bytes bo c f = encode_header bo c (length f) @ f"

definition frames_bytes :: "byteorder \<Rightarrow> length_codec \<Rightarrow> bytes list \<Rightarrow> bytes" where
  "frames_bytes bo c fs = concat (map (frame_bytes bo c) fs)"

lemma frames_bytes_simps [simp]:
  "frames_bytes bo c [] = []" "frames_bytes bo c (f # fs) = frame_bytes bo c f @ frames_bytes bo c fs"
  "frames_bytes bo c (fs @ gs) = frames_bytes bo c fs @ frames_bytes bo c gs"
  by (simp_all add: frames_bytes_def)

lemma encode_header_cong: "lc_varint c = lc_varint c' \<Longrightarrow> encode_header bo c n = encode_header bo c' n"
  by (simp add: encode_header_def)

lemma frames_bytes_cong: "lc_varint c = lc_varint c' \<Longrightarrow> frames_bytes bo c fs = frames_bytes bo c' fs"
  by (induction fs) (simp_all add: frame_bytes_def encode_header_cong [of c c'])

text \<open>What reading the header from the bytes still to be decoded gives.\<close>

definition read_header :: "byteorder \<Rightarrow> length_codec \<Rightarrow> u32 reader" where
  "read_header bo c = (if \<not> lc_varint c then read_u32 bo else read_varint (lc_decoder c))"

definition fresh_codec :: "length_codec \<Rightarrow> bool" where
  "fresh_codec c \<longleftrightarrow> lc_decoder c = new_decoder"

lemma read_encoded_header:
  assumes "byteorder_ok bo" "fresh_codec c"
  shows "read_header bo c (encode_header bo c n @ rest) = Inr (word_of_nat n, rest)"
  using read_write_v32 [OF assms(1), of "lc_varint c" "word_of_nat n" rest] assms(2)
  by (auto simp: read_header_def encode_header_def Let_def write_v32_def read_v32_def fresh_codec_def
      split: if_splits)

lemma decode_bytes_read:
  "read_varint d (bs @ inp) = Inr (n, rest) \<Longrightarrow>
     (\<exists>d'. decode_bytes d bs = (d', [], Inr None) \<and> read_varint d' inp = Inr (n, rest) \<and>
        (bs \<noteq> [] \<longrightarrow> pos d' > 0)) \<or>
     (\<exists>bs'. decode_bytes d bs = (new_decoder, bs', Inr (Some n)) \<and> rest = bs' @ inp)"
proof (induction d bs rule: decode_bytes.induct)
  case (2 d b bs)
  obtain d' r where dec: "decode d b = (d', r)" by fastforce
  show ?case
  proof (cases r)
    case (Inr out)
    show ?thesis
    proof (cases out)
      case None
      have "pos d' > 0"
        using decode_None_pos dec Inr None by simp
      with "2.IH" [OF dec [symmetric] Inr None] "2.prems" dec Inr None show ?thesis
        by (cases bs) auto
    next
      case (Some m)
      with decode_Some_reset dec Inr "2.prems" show ?thesis by simp
    qed
  qed (use "2.prems" dec in simp)
qed simp

text \<open>Either the header is not complete, and reading can go on with the new state, or it is.\<close>

lemma decode_header_read:
  assumes "byteorder_ok bo" "read_header bo c (buf @ inp) = Inr (word_of_nat n, rest)"
    "n \<le> unat (lc_max_frame_len c)" "lc_varint c \<or> fresh_codec c"
  shows "\<exists>c' buf'. lc_varint c' = lc_varint c \<and> lc_max_frame_len c' = lc_max_frame_len c \<and>
    ((decode_header bo c buf = (c', buf', Inr None) \<and> read_header bo c' (buf' @ inp) = Inr (word_of_nat n, rest) \<and>
        (lc_varint c' \<or> fresh_codec c') \<and> (buf \<noteq> [] \<longrightarrow> buf' \<noteq> [] \<or> has_partial_header c') \<and>
        (buf = [] \<longrightarrow> c' = c) \<and> length buf' < (if lc_varint c then 1 else 4)) \<or>
     (decode_header bo c buf = (c', buf', Inr (Some n)) \<and> rest = buf' @ inp \<and> fresh_codec c'))"
proof -
  have n: "unat (word_of_nat n :: u32) = n" "\<not> lc_max_frame_len c < word_of_nat n"
  proof -
    have "n < 4294967296"
      by (rule le_less_trans [OF assms(3) u32_unat_less])
    then show "unat (word_of_nat n :: u32) = n"
      by (simp add: unat_of_nat)
    with assms(3) show "\<not> lc_max_frame_len c < word_of_nat n"
      by (simp add: word_less_nat_alt)
  qed
  show ?thesis
  proof (cases "lc_varint c")
    case True
    then have "read_varint (lc_decoder c) (buf @ inp) = Inr (word_of_nat n, rest)"
      using assms(2) by (simp add: read_header_def)
    from decode_bytes_read [OF this] show ?thesis
    proof (elim disjE exE conjE)
      fix d'
      assume d: "decode_bytes (lc_decoder c) buf = (d', [], Inr None)" "read_varint d' inp = Inr (word_of_nat n, rest)"
        "buf \<noteq> [] \<longrightarrow> pos d' > 0"
      then show ?thesis
        using True by (intro exI [of _ "c\<lparr>lc_decoder := d'\<rparr>"] exI [of _ "[]"])
          (auto simp: decode_header_def decode_length_def read_header_def has_partial_header_def decoder_is_empty_def)
    next
      fix bs'
      assume "decode_bytes (lc_decoder c) buf = (new_decoder, bs', Inr (Some (word_of_nat n)))" "rest = bs' @ inp"
      then show ?thesis
        using True n by (intro exI [of _ "c\<lparr>lc_decoder := new_decoder\<rparr>"] exI [of _ bs'])
          (simp add: decode_header_def decode_length_def fresh_codec_def)
    qed
  next
    case False
    then have r: "read_u32 bo (buf @ inp) = Inr (word_of_nat n, rest)"
      using assms(2) by (simp add: read_header_def)
    show ?thesis
    proof (cases "length buf < 4")
      case True
      then show ?thesis
        using False assms(2,4) by (intro exI [of _ c] exI [of _ buf])
          (simp add: decode_header_def decode_length_def)
    next
      case four: False
      then have "get32 bo (take 4 buf) = word_of_nat n" "rest = drop 4 buf @ inp"
        using r by (auto simp: read_u32_def rmap_def rbind_def rret_def read_exact_def split: if_splits)
      then show ?thesis
        using False four n assms(4) by (intro exI [of _ c] exI [of _ "drop 4 buf"])
          (simp add: decode_header_def decode_length_def)
    qed
  qed
qed

section \<open>The state of a stream\<close>

text \<open>The frames still to come, and the bytes \<open>u\<close> at the end of the last one that never arrive.\<close>

definition awaits :: "byteorder \<Rightarrow> frame_stream \<Rightarrow> bytes list \<Rightarrow> bytes \<Rightarrow> bool" where
  "awaits bo s fs u \<longleftrightarrow>
     (lc_varint (fs_codec s) \<or> fresh_codec (fs_codec s)) \<and>
     (\<forall>f \<in> set fs. length f \<le> unat (lc_max_frame_len (fs_codec s))) \<and>
     (case fs_frame s of
        Some (got, remaining) \<Rightarrow>
          fresh_codec (fs_codec s) \<and> fs_buf s = [] \<and>
          (\<exists>f fs'. fs = f # fs' \<and> length got + remaining = length f \<and>
             got @ fs_input s @ u = f @ frames_bytes bo (fs_codec s) fs')
      | None \<Rightarrow>
          (case fs of
             [] \<Rightarrow> fs_buf s = [] \<and> fs_input s = [] \<and> fresh_codec (fs_codec s)
           | f # fs' \<Rightarrow>
               read_header bo (fs_codec s) (fs_buf s @ fs_input s @ u) =
                 Inr (word_of_nat (length f), f @ frames_bytes bo (fs_codec s) fs') \<and>
               (fs_buf s \<noteq> [] \<or> fs_input s \<noteq> [] \<or> has_partial_header (fs_codec s))))"

definition cut_short :: "byteorder \<Rightarrow> length_codec \<Rightarrow> bytes list \<Rightarrow> bytes \<Rightarrow> bool" where
  "cut_short bo c fs u \<longleftrightarrow> (u \<noteq> [] \<longrightarrow> fs \<noteq> [] \<and> length u < length (frame_bytes bo c (last fs)))"

definition enough_reads :: "frame_stream \<Rightarrow> bool" where
  "enough_reads s \<longleftrightarrow> list_all (\<lambda>r. \<exists>k. r = ReadBytes k) (fs_reads s) \<and>
     length (fs_input s) < length (fs_reads s)"

lemma poll_read_enough:
  assumes "enough_reads s" "space \<noteq> Some 0"
  shows "\<exists>bs s'. poll_read space s = ReadOk bs s' \<and> fs_input s = bs @ fs_input s' \<and>
    (bs = [] \<longleftrightarrow> fs_input s = []) \<and> (bs \<noteq> [] \<longrightarrow> enough_reads s') \<and>
    (case space of None \<Rightarrow> True | Some m \<Rightarrow> length bs \<le> m) \<and>
    fs_codec s' = fs_codec s \<and> fs_buf s' = fs_buf s \<and> fs_frame s' = fs_frame s"
proof -
  obtain k rs where rs: "fs_reads s = ReadBytes k # rs"
    using assms(1) by (cases "fs_reads s") (auto simp: enough_reads_def)
  define n where "n = (case space of None \<Rightarrow> max k 1 | Some m \<Rightarrow> min (max k 1) m)"
  have n: "0 < n" "case space of None \<Rightarrow> True | Some m \<Rightarrow> n \<le> m"
    using assms(2) by (auto simp: n_def split: option.splits)
  have "poll_read space s = ReadOk (take n (fs_input s)) (s\<lparr>fs_input := drop n (fs_input s), fs_reads := rs\<rparr>)"
    by (simp add: poll_read_def rs n_def Let_def)
  moreover have "enough_reads (s\<lparr>fs_input := drop n (fs_input s), fs_reads := rs\<rparr>)" if "fs_input s \<noteq> []"
  proof -
    have "length (drop n (fs_input s)) < length (fs_input s)"
      using n(1) that by simp
    then show ?thesis
      using assms(1) rs by (simp add: enough_reads_def)
  qed
  ultimately show ?thesis
    using n by (auto split: option.splits)
qed

lemma frames_bytes_last:
  "fs \<noteq> [] \<Longrightarrow> length (frame_bytes bo c (last fs)) \<le> length (frames_bytes bo c fs)"
  by (induction fs) (auto simp: frame_bytes_def)

lemma cut_short_tail:
  assumes "cut_short bo c (f # fs) u" "fs \<noteq> []"
  shows "cut_short bo c fs u" "length u \<le> length (frames_bytes bo c fs)"
  using assms frames_bytes_last [OF assms(2), of bo c] by (auto simp: cut_short_def)

text \<open>After a frame has been taken: the bytes left begin with the next header.\<close>

lemma awaits_next:
  assumes "byteorder_ok bo" "fresh_codec c" "\<forall>f \<in> set fs. length f \<le> unat (lc_max_frame_len c)"
    "buf @ inp @ u = frames_bytes bo c fs" "cut_short bo c fs u"
    "fs_codec s = c" "fs_buf s = buf" "fs_input s = inp" "fs_frame s = None"
  shows "awaits bo s fs u"
proof (cases fs)
  case Nil
  with assms show ?thesis by (simp add: awaits_def cut_short_def)
next
  case (Cons f fs')
  have "buf \<noteq> [] \<or> inp \<noteq> []"
  proof (rule ccontr)
    assume "\<not> ?thesis"
    then have u: "u = frames_bytes bo c fs"
      using assms(4) by simp
    then have "u \<noteq> []"
      using Cons length_write_v32 [OF assms(1), of "lc_varint c" "word_of_nat (length f)"]
      by (auto simp: frame_bytes_def encode_header_def Let_def write_v32_def split: if_splits)
    then show False
      using assms(5) frames_bytes_last [of fs bo c] u Cons by (simp add: cut_short_def)
  qed
  moreover have "read_header bo c (buf @ inp @ u) =
      Inr (word_of_nat (length f), f @ frames_bytes bo c fs')"
    unfolding assms(4) by (simp add: Cons frame_bytes_def read_encoded_header [OF assms(1,2)])
  ultimately show ?thesis
    using assms Cons by (auto simp: awaits_def)
qed

lemma read_varint_shorter: "read_varint d bs = Inr (n, rest) \<Longrightarrow> length rest < length bs"
proof (induction d bs rule: read_varint.induct)
  case (2 d b bs)
  obtain d' r where dec: "decode d b = (d', r)" by fastforce
  show ?case
  proof (cases r)
    case (Inr out)
    with "2.IH" [OF dec [symmetric] Inr] "2.prems" dec show ?thesis
      by (cases out) auto
  qed (use "2.prems" dec in simp)
qed simp

lemma read_header_length:
  assumes "read_header bo c bs = Inr (n, rest)"
  shows "length rest + (if lc_varint c then 1 else 4) \<le> length bs"
  using assms read_varint_shorter [of "lc_decoder c" bs n rest]
  by (auto simp: read_header_def read_u32_def rmap_def rbind_def rret_def read_exact_def split: if_splits)

section \<open>Receiving one frame\<close>

lemma awaits_Some:
  "fs_frame s = Some (got, remaining) \<Longrightarrow> awaits bo s (f # fs) u \<longleftrightarrow>
     (\<forall>g \<in> set (f # fs). length g \<le> unat (lc_max_frame_len (fs_codec s))) \<and>
     fresh_codec (fs_codec s) \<and> fs_buf s = [] \<and> length got + remaining = length f \<and>
     got @ fs_input s @ u = f @ frames_bytes bo (fs_codec s) fs"
  by (auto simp: awaits_def)

lemma awaits_None:
  "fs_frame s = None \<Longrightarrow> awaits bo s (f # fs) u \<longleftrightarrow>
     (lc_varint (fs_codec s) \<or> fresh_codec (fs_codec s)) \<and>
     (\<forall>g \<in> set (f # fs). length g \<le> unat (lc_max_frame_len (fs_codec s))) \<and>
     read_header bo (fs_codec s) (fs_buf s @ fs_input s @ u) =
       Inr (word_of_nat (length f), f @ frames_bytes bo (fs_codec s) fs) \<and>
     (fs_buf s \<noteq> [] \<or> fs_input s \<noteq> [] \<or> has_partial_header (fs_codec s))"
  by (auto simp: awaits_def)

text \<open>What can happen at the first step of a poll.\<close>

definition smaller :: "frame_stream \<Rightarrow> frame_stream \<Rightarrow> bool" where
  "smaller s' s \<longleftrightarrow>
     2 * length (fs_reads s') + (if fs_frame s' = None then 1 else 0) <
       2 * length (fs_reads s) + (if fs_frame s = None then 1 else 0)"

definition same_limits :: "frame_stream \<Rightarrow> frame_stream \<Rightarrow> bool" where
  "same_limits s' s \<longleftrightarrow> lc_varint (fs_codec s') = lc_varint (fs_codec s) \<and>
     lc_max_frame_len (fs_codec s') = lc_max_frame_len (fs_codec s)"

definition step_done :: "byteorder \<Rightarrow> frame_stream \<Rightarrow> bytes \<Rightarrow> bytes list \<Rightarrow> bytes \<Rightarrow> bool" where
  "step_done bo s f fs u \<longleftrightarrow>
     (\<exists>s'. poll_next bo s = (FrameGot f, s') \<and> fresh_codec (fs_codec s') \<and> fs_frame s' = None \<and>
        fs_buf s' @ fs_input s' @ u = frames_bytes bo (fs_codec s) fs \<and> enough_reads s' \<and> same_limits s' s)"

definition step_on :: "byteorder \<Rightarrow> frame_stream \<Rightarrow> bytes \<Rightarrow> bytes list \<Rightarrow> bytes \<Rightarrow> bool" where
  "step_on bo s f fs u \<longleftrightarrow>
     (\<exists>s'. poll_next bo s = poll_next bo s' \<and> awaits bo s' (f # fs) u \<and> enough_reads s' \<and>
        smaller s' s \<and> same_limits s' s)"

definition step_cut :: "byteorder \<Rightarrow> frame_stream \<Rightarrow> bytes list \<Rightarrow> bytes \<Rightarrow> bool" where
  "step_cut bo s fs u \<longleftrightarrow>
     (\<exists>s'. poll_next bo s = (FrameError UnexpectedEof, s')) \<and>
     length (frames_bytes bo (fs_codec s) fs) < length u"

lemma poll_step_frame:
  assumes "awaits bo s (f # fs) u" "enough_reads s" "fs_frame s = Some (got, remaining)"
  shows "step_done bo s f fs u \<or> step_on bo s f fs u \<or> step_cut bo s fs u"
proof -
  note a = assms(1) [unfolded awaits_Some [OF assms(3)]]
  show ?thesis
  proof (cases "remaining = 0")
    case True
    then have "got = f" "fs_input s @ u = frames_bytes bo (fs_codec s) fs"
      using a by auto
    then show ?thesis
      using True a assms(2,3)
      by (simp add: step_done_def poll_next.simps [of bo s] enough_reads_def same_limits_def)
  next
    case False
    then obtain bs s' where r: "poll_read (Some remaining) s = ReadOk bs s'" "fs_input s = bs @ fs_input s'"
      "bs = [] \<longleftrightarrow> fs_input s = []" "bs \<noteq> [] \<longrightarrow> enough_reads s'" "length bs \<le> remaining"
      "fs_codec s' = fs_codec s" "fs_buf s' = fs_buf s" "fs_frame s' = fs_frame s"
      using poll_read_enough [OF assms(2), of "Some remaining"] by auto
    show ?thesis
    proof (cases "bs = []")
      case True
      then have "fs_input s = []"
        using r(3) by blast
      then have "got @ u = f @ frames_bytes bo (fs_codec s) fs"
        using a by simp
      then have "length got + length u = length f + length (frames_bytes bo (fs_codec s) fs)"
        by (metis length_append)
      then have "length (frames_bytes bo (fs_codec s) fs) < length u"
        using a False by linarith
      moreover have "poll_next bo s = (FrameError UnexpectedEof, s')"
        by (subst poll_next.simps) (simp add: assms(3) r(1) True False)
      ultimately show ?thesis
        by (simp add: step_cut_def)
    next
      case more: False
      let ?s = "s'\<lparr>fs_frame := Some (got @ bs, remaining - length bs)\<rparr>"
      have "poll_next bo s = poll_next bo ?s"
        by (subst poll_next.simps) (simp add: assms(3) r(1) more False)
      moreover have "awaits bo ?s (f # fs) u"
        using a r by (simp add: awaits_Some)
      moreover have "smaller ?s s" "enough_reads ?s" "same_limits ?s s"
        using poll_read_shorter [OF r(1)] r more assms(3)
        by (auto simp: smaller_def same_limits_def enough_reads_def)
      ultimately show ?thesis
        unfolding step_on_def by blast
    qed
  qed
qed

lemma poll_step_header:
  assumes "byteorder_ok bo" "awaits bo s (f # fs) u" "enough_reads s" "fs_frame s = None"
  shows "step_done bo s f fs u \<or> step_on bo s f fs u \<or> step_cut bo s fs u"
proof -
  note a = assms(2) [unfolded awaits_None [OF assms(4)]]
  let ?rest = "f @ frames_bytes bo (fs_codec s) fs"
  have len: "length f \<le> unat (lc_max_frame_len (fs_codec s))"
    using a by simp
  from decode_header_read [OF assms(1) _ len, of "fs_buf s" "fs_input s @ u" ?rest] a obtain c buf where
    c: "lc_varint c = lc_varint (fs_codec s)" "lc_max_frame_len c = lc_max_frame_len (fs_codec s)" and
    "(decode_header bo (fs_codec s) (fs_buf s) = (c, buf, Inr None) \<and>
        read_header bo c (buf @ fs_input s @ u) = Inr (word_of_nat (length f), ?rest) \<and>
        (\<not> lc_varint c \<longrightarrow> fresh_codec c) \<and> (fs_buf s \<noteq> [] \<longrightarrow> buf \<noteq> [] \<or> has_partial_header c) \<and>
        (fs_buf s = [] \<longrightarrow> c = fs_codec s) \<and> length buf < (if lc_varint c then 1 else 4)) \<or>
     (decode_header bo (fs_codec s) (fs_buf s) = (c, buf, Inr (Some (length f))) \<and>
        ?rest = buf @ fs_input s @ u \<and> fresh_codec c)"
    by auto
  then show ?thesis
  proof (elim disjE conjE)
    assume d: "decode_header bo (fs_codec s) (fs_buf s) = (c, buf, Inr (Some (length f)))"
      "?rest = buf @ fs_input s @ u" "fresh_codec c"
    have cong: "frames_bytes bo c fs = frames_bytes bo (fs_codec s) fs"
      by (rule frames_bytes_cong [OF c(1)])
    show ?thesis
    proof (cases "length f \<le> length buf")
      case True
      then have f: "take (length f) buf = f" "drop (length f) buf @ fs_input s @ u = frames_bytes bo (fs_codec s) fs"
        using d(2) by (metis append_eq_append_conv_if append_eq_conv_conj)+
      then show ?thesis
        using True d c assms(3,4)
        by (simp add: step_done_def poll_next.simps [of bo s] enough_reads_def same_limits_def)
    next
      case False
      let ?s = "s\<lparr>fs_codec := c, fs_buf := [], fs_frame := Some (buf, length f - length buf)\<rparr>"
      have "poll_next bo s = poll_next bo ?s"
        using False d assms(4) by (simp add: poll_next.simps [of bo s])
      moreover have "awaits bo ?s (f # fs) u"
        using a False d c cong by (simp add: awaits_Some)
      moreover have "smaller ?s s" "enough_reads ?s" "same_limits ?s s"
        using assms(3,4) c by (auto simp: smaller_def same_limits_def enough_reads_def)
      ultimately show ?thesis
        unfolding step_on_def by blast
    qed
  next
    assume d: "decode_header bo (fs_codec s) (fs_buf s) = (c, buf, Inr None)"
      "read_header bo c (buf @ fs_input s @ u) = Inr (word_of_nat (length f), ?rest)"
      "\<not> lc_varint c \<longrightarrow> fresh_codec c" "fs_buf s \<noteq> [] \<longrightarrow> buf \<noteq> [] \<or> has_partial_header c"
      "fs_buf s = [] \<longrightarrow> c = fs_codec s" "length buf < (if lc_varint c then 1 else 4)"
    let ?s0 = "s\<lparr>fs_codec := c, fs_buf := buf\<rparr>"
    have "enough_reads ?s0"
      using assms(3) by (simp add: enough_reads_def)
    then obtain bs s' where r: "poll_read None ?s0 = ReadOk bs s'" "fs_input s = bs @ fs_input s'"
      "bs = [] \<longleftrightarrow> fs_input s = []" "bs \<noteq> [] \<longrightarrow> enough_reads s'"
      "fs_codec s' = c" "fs_buf s' = buf" "fs_frame s' = None"
      using poll_read_enough [of ?s0 None] assms(4) by auto
    show ?thesis
    proof (cases "bs = []")
      case True
      then have inp: "fs_input s = []"
        using r(3) by blast
      then have "length (frames_bytes bo (fs_codec s) fs) < length u"
        using read_header_length [OF d(2)] d(6) by (auto split: if_splits)
      moreover have "buf \<noteq> [] \<or> has_partial_header c"
        using a d(4,5) inp by auto
      then have "poll_next bo s = (FrameError UnexpectedEof, s')"
        by (subst poll_next.simps) (auto simp: assms(4) r(1) d(1) True)
      ultimately show ?thesis
        by (simp add: step_cut_def)
    next
      case False
      let ?s = "s'\<lparr>fs_buf := buf @ bs\<rparr>"
      have "poll_next bo s = poll_next bo ?s"
        by (subst poll_next.simps) (simp add: assms(4) r(1) d(1) False)
      moreover have "awaits bo ?s (f # fs) u"
        using a d(2,3) c False frames_bytes_cong [OF c(1), of bo fs] r(2,5,7)
        by (auto simp: awaits_None)
      moreover have "smaller ?s s" "enough_reads ?s" "same_limits ?s s"
        using poll_read_shorter [OF r(1)] r(4,5,7) False assms(4) c
        by (auto simp: smaller_def same_limits_def enough_reads_def)
      ultimately show ?thesis
        unfolding step_on_def by blast
    qed
  qed
qed

section \<open>Receiving frames\<close>

lemma poll_step:
  assumes "byteorder_ok bo" "awaits bo s (f # fs) u" "enough_reads s"
  shows "step_done bo s f fs u \<or> step_on bo s f fs u \<or> step_cut bo s fs u"
proof (cases "fs_frame s")
  case None
  then show ?thesis by (rule poll_step_header [OF assms])
next
  case (Some g)
  then show ?thesis
    using poll_step_frame [OF assms(2,3)] by (cases g) auto
qed

lemma cut_short_cong:
  "lc_varint c = lc_varint c' \<Longrightarrow> cut_short bo c fs u = cut_short bo c' fs u"
  by (simp add: cut_short_def frame_bytes_def encode_header_cong [of c c'])

text \<open>A poll that has all the bytes of the next frame returns it; one that does not fails.\<close>

lemma poll_next_frame:
  assumes "byteorder_ok bo" "awaits bo s (f # fs) u" "enough_reads s" "cut_short bo (fs_codec s) (f # fs) u"
  shows "if u = [] \<or> fs \<noteq> []
     then \<exists>s'. poll_next bo s = (FrameGot f, s') \<and> awaits bo s' fs u \<and> enough_reads s' \<and>
       cut_short bo (fs_codec s') fs u \<and> same_limits s' s
     else \<exists>s'. poll_next bo s = (FrameError UnexpectedEof, s')"
  using assms(2-)
proof (induction "2 * length (fs_reads s) + (if fs_frame s = None then 1 else 0)" arbitrary: s
    rule: less_induct)
  case (less s)
  have short: "length u \<le> length (frames_bytes bo (fs_codec s) fs)" if "u = [] \<or> fs \<noteq> []"
    using that cut_short_tail [OF less.prems(3)] by auto
  from poll_step [OF assms(1) less.prems(1,2)] consider
    (finished) "step_done bo s f fs u" | (on) "step_on bo s f fs u" | (cut) "step_cut bo s fs u"
    by blast
  then show ?case
  proof cases
    case on
    then obtain s' where s': "poll_next bo s = poll_next bo s'" "awaits bo s' (f # fs) u" "enough_reads s'"
      "smaller s' s" "same_limits s' s"
      by (auto simp: step_on_def)
    have "cut_short bo (fs_codec s') (f # fs) u"
      using less.prems(3) s'(5) by (subst cut_short_cong [of _ "fs_codec s"]) (simp_all add: same_limits_def)
    from less.hyps [OF s'(4) [unfolded smaller_def] s'(2,3) this] s'(1,5) show ?thesis
      by (auto simp: same_limits_def split: if_splits)
  next
    case cut
    then show ?thesis
      using short by (force simp: step_cut_def)
  next
    case finished
    then obtain s' where s': "poll_next bo s = (FrameGot f, s')" "fresh_codec (fs_codec s')" "fs_frame s' = None"
      "fs_buf s' @ fs_input s' @ u = frames_bytes bo (fs_codec s) fs" "enough_reads s'" "same_limits s' s"
      by (auto simp: step_done_def)
    show ?thesis
    proof (cases "u = [] \<or> fs \<noteq> []")
      case True
      have cong: "frames_bytes bo (fs_codec s') fs = frames_bytes bo (fs_codec s) fs"
        using s'(6) by (intro frames_bytes_cong) (simp add: same_limits_def)
      have "cut_short bo (fs_codec s) fs u"
        using True cut_short_tail(1) [OF less.prems(3)] by (cases "fs = []") (auto simp: cut_short_def)
      then have cut: "cut_short bo (fs_codec s') fs u"
        using s'(6) by (subst cut_short_cong [of _ "fs_codec s"]) (simp_all add: same_limits_def)
      have "\<forall>g \<in> set fs. length g \<le> unat (lc_max_frame_len (fs_codec s'))"
        using less.prems(1) s'(6) by (simp add: awaits_def same_limits_def)
      from awaits_next [OF assms(1) s'(2) this s'(4) [folded cong] cut refl refl refl s'(3)] True s' cut
      show ?thesis by auto
    next
      case False
      with s'(4) show ?thesis by simp
    qed
  qed
qed

lemma poll_next_end:
  assumes "awaits bo s [] []" "enough_reads s"
  shows "\<exists>s'. poll_next bo s = (FrameEnd, s')"
proof -
  have a: "fs_frame s = None" "fs_buf s = []" "fs_input s = []" "fresh_codec (fs_codec s)"
    using assms(1) by (auto simp: awaits_def split: option.splits)
  obtain bs s' where r: "poll_read None (s\<lparr>fs_buf := []\<rparr>) = ReadOk bs s'" "bs = []"
    using poll_read_enough [of "s\<lparr>fs_buf := []\<rparr>" None] assms(2) a(3) by (auto simp: enough_reads_def)
  have "decode_header bo (fs_codec s) [] = (fs_codec s, [], Inr None)"
    by (simp add: decode_header_def decode_length_def)
  moreover have "s\<lparr>fs_buf := []\<rparr> = s\<lparr>fs_codec := fs_codec s, fs_buf := []\<rparr>"
    by simp
  moreover have "\<not> has_partial_header (fs_codec s)"
    using a(4) by (simp add: has_partial_header_def decoder_is_empty_def fresh_codec_def new_decoder_def)
  ultimately show ?thesis
    using r by (subst poll_next.simps) (simp add: a(1,2))
qed

text \<open>Polling until the end, an error or a pending read, at most \<open>n\<close> times.\<close>

fun poll_frames :: "nat \<Rightarrow> byteorder \<Rightarrow> frame_stream \<Rightarrow> bytes list \<times> frame_poll" where
  "poll_frames 0 bo s = ([], FramePending)"
| "poll_frames (Suc n) bo s =
     (case poll_next bo s of
        (FrameGot f, s') \<Rightarrow> (case poll_frames n bo s' of (fs, r) \<Rightarrow> (f # fs, r))
      | (r, s') \<Rightarrow> ([], r))"

lemma poll_frames_all:
  assumes "byteorder_ok bo"
  shows "awaits bo s fs u \<Longrightarrow> enough_reads s \<Longrightarrow> cut_short bo (fs_codec s) fs u \<Longrightarrow>
     poll_frames (Suc (length fs)) bo s =
       (if u = [] then (fs, FrameEnd) else (butlast fs, FrameError UnexpectedEof))"
proof (induction fs arbitrary: s)
  case Nil
  then have "u = []"
    by (simp add: cut_short_def)
  with Nil poll_next_end [of bo s] show ?case by auto
next
  case (Cons f fs)
  show ?case
  proof (cases "u = [] \<or> fs \<noteq> []")
    case True
    with poll_next_frame [OF assms Cons.prems] obtain s' where s': "poll_next bo s = (FrameGot f, s')"
      "awaits bo s' fs u" "enough_reads s'" "cut_short bo (fs_codec s') fs u"
      by auto
    from Cons.IH [OF s'(2-4)] s'(1) True show ?thesis
      by (cases "u = []") simp_all
  next
    case False
    with poll_next_frame [OF assms Cons.prems] show ?thesis by auto
  qed
qed

section \<open>The state of a sink\<close>

definition sink_ok :: "frame_sink \<Rightarrow> bytes \<Rightarrow> bool" where
  "sink_ok s sent \<longleftrightarrow>
     sk_written s @ concat (sk_queue s) @ sk_buf s = sent \<and>
     sk_queued s = length (concat (sk_queue s)) \<and> [] \<notin> set (sk_queue s)"

lemma advance_queue_ok:
  "n \<le> length (concat q) \<Longrightarrow> [] \<notin> set q \<Longrightarrow>
     \<exists>q'. advance_queue n q = Ret q' \<and> concat q' = drop n (concat q) \<and> [] \<notin> set q'"
proof (induction n q rule: advance_queue.induct)
  case (3 n d q)
  show ?case
  proof (cases "Suc n < length d")
    case True
    with "3.prems" show ?thesis by simp
  next
    case False
    with "3.IH" [OF False] "3.prems" show ?thesis by simp
  qed
qed auto

lemma write_queued_ok:
  "sink_ok s sent \<Longrightarrow> \<exists>r ws' s'. write_queued ws s = Ret (r, ws', s') \<and> sink_ok s' sent \<and>
     sk_buf s' = sk_buf s \<and> sk_codec s' = sk_codec s \<and> (r = WriteReady \<longrightarrow> concat (sk_queue s') = [])"
proof (induction ws s rule: write_queued.induct)
  case (1 ws s)
  show ?case
  proof (cases "sk_queued s = 0")
    case True
    with "1.prems" show ?thesis by (simp add: write_queued.simps [of ws s] sink_ok_def)
  next
    case False
    note pos = False
    show ?thesis
    proof (cases ws)
      case Nil
      with False "1.prems" show ?thesis by (simp add: write_queued.simps [of "[]" s])
    next
      case (Cons w rest)
      show ?thesis
      proof (cases w)
        case (WriteFailed e)
        with Cons False "1.prems" show ?thesis by (simp add: write_queued.simps [of "WriteFailed e # rest" s])
      next
        case (WroteBytes k)
        define offered where "offered = concat (take MAX_SLICES (sk_queue s))"
        define n where "n = min k (length offered)"
        show ?thesis
        proof (cases "n = 0")
          case True
          with Cons WroteBytes False "1.prems" show ?thesis
            by (simp add: write_queued.simps [of "WroteBytes k # rest" s] Let_def n_def offered_def)
        next
          case False
          have all: "concat (sk_queue s) = offered @ concat (drop MAX_SLICES (sk_queue s))"
            unfolding offered_def by (metis append_take_drop_id concat_append)
          then have n: "n \<le> length (concat (sk_queue s))" "take n offered = take n (concat (sk_queue s))"
            by (simp_all add: n_def)
          from advance_queue_ok [OF n(1)] "1.prems" obtain q where
            q: "advance_queue n (sk_queue s) = Ret q" "concat q = drop n (concat (sk_queue s))" "[] \<notin> set q"
            by (auto simp: sink_ok_def)
          let ?s = "s\<lparr>sk_written := sk_written s @ take n offered, sk_queued := sk_queued s - n, sk_queue := q\<rparr>"
          have "sk_written s @ take n offered @ drop n (concat (sk_queue s)) @ sk_buf s = sent"
            using "1.prems" unfolding n(2) sink_ok_def by (metis append.assoc append_take_drop_id)
          then have ok: "sink_ok ?s sent"
            using "1.prems" q by (simp add: sink_ok_def)
          have "write_queued ws s = write_queued rest ?s"
            unfolding Cons WroteBytes
            by (subst write_queued.simps) (use pos False q(1) in
              \<open>simp add: Let_def offered_def [symmetric] n_def [symmetric]\<close>)
          with "1.IH" [OF pos Cons WroteBytes offered_def n_def False ok] show ?thesis by simp
        qed
      qed
    qed
  qed
qed

lemma poll_write_pending_ok:
  assumes "sink_ok s sent"
  shows "\<exists>r ws' s'. poll_write_pending ws s = Ret (r, ws', s') \<and> sink_ok s' sent \<and>
    sk_codec s' = sk_codec s \<and> (r = WriteReady \<longrightarrow> sk_written s' = sent)"
proof -
  have "sink_ok (enqueue_buf s) sent" "sk_buf (enqueue_buf s) = []" "sk_codec (enqueue_buf s) = sk_codec s"
    using assms by (auto simp: sink_ok_def enqueue_buf_def)
  with write_queued_ok [OF this(1), of ws] show ?thesis
    by (auto simp: poll_write_pending_def sink_ok_def simp del: concat_eq_Nil_conv)
qed

lemma encode_header_nonempty: "byteorder_ok bo \<Longrightarrow> encode_header bo c n \<noteq> []"
  using length_write_v32 [of bo "lc_varint c" "word_of_nat n"]
  by (auto simp: encode_header_def Let_def write_v32_def split: if_splits)

lemma start_send_ok:
  assumes "byteorder_ok bo" "sink_ok s sent"
  shows "sink_ok (sink_start_send bo item s) (sent @ frame_bytes bo (sk_codec s) item)"
  using assms encode_header_nonempty [OF assms(1), of "sk_codec s" "length item"]
  by (auto simp: sink_start_send_def Let_def sink_ok_def frame_bytes_def DIRECT_MIN_def)

text \<open>The calls of a sink, each with the answers of the writer while it runs.\<close>

datatype sink_op = SinkReady | SinkSend bytes | SinkFlush

definition sink_step :: "byteorder \<Rightarrow> sink_op \<times> write_answer list \<Rightarrow> frame_sink \<Rightarrow> frame_sink exec" where
  "sink_step bo step s =
     (case step of
        (SinkReady, ws) \<Rightarrow> exec_bind (sink_poll_ready ws s) (\<lambda>(r, ws', s'). Ret s')
      | (SinkSend item, ws) \<Rightarrow> Ret (sink_start_send bo item s)
      | (SinkFlush, ws) \<Rightarrow> exec_bind (poll_write_pending ws s) (\<lambda>(r, ws', s'). Ret s'))"

fun sink_run :: "byteorder \<Rightarrow> (sink_op \<times> write_answer list) list \<Rightarrow> frame_sink \<Rightarrow> frame_sink exec" where
  "sink_run bo [] s = Ret s"
| "sink_run bo (op # steps) s = exec_bind (sink_step bo op s) (sink_run bo steps)"

fun sent_frames :: "(sink_op \<times> write_answer list) list \<Rightarrow> bytes list" where
  "sent_frames [] = []"
| "sent_frames ((SinkSend item, _) # steps) = item # sent_frames steps"
| "sent_frames (_ # steps) = sent_frames steps"

lemma sink_run_ok:
  assumes "byteorder_ok bo"
  shows "sink_ok s sent \<Longrightarrow> \<exists>s'. sink_run bo steps s = Ret s' \<and>
     sink_ok s' (sent @ frames_bytes bo (sk_codec s) (sent_frames steps)) \<and> sk_codec s' = sk_codec s"
proof (induction steps arbitrary: s sent)
  case (Cons op steps)
  obtain f ws where op: "op = (f, ws)" by fastforce
  have "\<exists>s'. sink_step bo op s = Ret s' \<and> sk_codec s' = sk_codec s \<and>
      sink_ok s' (sent @ frames_bytes bo (sk_codec s) (sent_frames [op]))"
  proof (cases f)
    case SinkReady
    then show ?thesis
      using Cons.prems poll_write_pending_ok [OF Cons.prems, of ws]
      by (auto simp: op sink_step_def sink_poll_ready_def)
  next
    case (SinkSend item)
    have "sk_codec (sink_start_send bo item s) = sk_codec s"
      by (simp add: sink_start_send_def Let_def)
    then show ?thesis
      using start_send_ok [OF assms Cons.prems, of item] SinkSend by (simp add: op sink_step_def)
  next
    case SinkFlush
    then show ?thesis
      using Cons.prems poll_write_pending_ok [OF Cons.prems, of ws] by (auto simp: op sink_step_def)
  qed
  then obtain s1 where s1: "sink_step bo op s = Ret s1" "sk_codec s1 = sk_codec s"
    "sink_ok s1 (sent @ frames_bytes bo (sk_codec s) (sent_frames [op]))"
    by blast
  from Cons.IH [OF s1(3)] s1 show ?case
    by (cases f) (auto simp: op)
qed simp

section \<open>Properties\<close>

text \<open>C25: A sink writes the frames sent and nothing else. Whatever the order of its calls and
  however much the writer takes each time, no call panics, the bytes written are a prefix of
  those of the frames sent in order, and a flush that is ready has written all of them.\<close>

theorem sink_writes_frames:
  assumes "byteorder_ok bo"
  shows "\<exists>s r ws' s'. sink_run bo steps (new_sink c capacity vectored) = Ret s \<and>
    poll_write_pending ws s = Ret (r, ws', s') \<and>
    (\<exists>rest. frames_bytes bo c (sent_frames steps) = sk_written s' @ rest \<and> (r = WriteReady \<longrightarrow> rest = []))"
proof -
  have "sink_ok (new_sink c capacity vectored) []"
    by (simp add: sink_ok_def new_sink_def)
  from sink_run_ok [OF assms this, of steps] obtain s where
    s: "sink_run bo steps (new_sink c capacity vectored) = Ret s"
      "sink_ok s (frames_bytes bo c (sent_frames steps))"
    by (auto simp: new_sink_def)
  from poll_write_pending_ok [OF s(2), of ws] obtain r ws' s' where
    "poll_write_pending ws s = Ret (r, ws', s')" "sink_ok s' (frames_bytes bo c (sent_frames steps))"
    "r = WriteReady \<longrightarrow> sk_written s' = frames_bytes bo c (sent_frames steps)"
    by blast
  moreover have "frames_bytes bo c (sent_frames steps) = sk_written s' @ (concat (sk_queue s') @ sk_buf s')"
    using calculation(2) by (simp add: sink_ok_def)
  ultimately show ?thesis
    using s(1) by (metis append_self_conv)
qed

theorem sink_writes_frames_witness:
  "\<exists>s r ws' s'. sink_run le_byteorder [(SinkSend [1, 2], [])] (new_sink (new_codec 100 True) 50 True) = Ret s \<and>
    poll_write_pending [WroteBytes 2] s = Ret (r, ws', s') \<and>
    (\<exists>rest. frames_bytes le_byteorder (new_codec 100 True) [[1, 2]] = sk_written s' @ rest \<and>
      (r = WriteReady \<longrightarrow> rest = []))"
  using sink_writes_frames [OF le_byteorder_ok, of "[(SinkSend [1, 2], [])]"] by simp

text \<open>C24: Frames survive the byte stream. What a sink has flushed, read by a stream with the same
  encoding of lengths in whatever portions, gives exactly the frames sent, in order, and then
  the end of the stream, when no frame exceeds the maximum length.\<close>

theorem frames_transported:
  assumes "byteorder_ok bo" "sink_run bo steps (new_sink (new_codec len varint) capacity vectored) = Ret s"
    "poll_write_pending ws s = Ret (WriteReady, ws', s')"
    "\<forall>f \<in> set (sent_frames steps). length f \<le> unat len"
    "list_all (\<lambda>r. \<exists>k. r = ReadBytes k) reads" "length (sk_written s') < length reads"
  shows "poll_frames (Suc (length (sent_frames steps))) bo
      (new_stream (new_codec len varint) (sk_written s') reads) = (sent_frames steps, FrameEnd)"
proof -
  let ?c = "new_codec len varint" and ?fs = "sent_frames steps"
  let ?s = "new_stream ?c (sk_written s') reads"
  have "sink_ok (new_sink ?c capacity vectored) []"
    by (simp add: sink_ok_def new_sink_def)
  from sink_run_ok [OF assms(1) this, of steps] assms(2) have "sink_ok s (frames_bytes bo ?c ?fs)"
    by (simp add: new_sink_def)
  from poll_write_pending_ok [OF this, of ws] assms(3) have written: "sk_written s' = frames_bytes bo ?c ?fs"
    by auto
  have "awaits bo ?s ?fs []"
    using assms(4) by (intro awaits_next [OF assms(1), where c = ?c and buf = "[]" and inp = "sk_written s'"])
      (simp_all add: written new_stream_def fresh_codec_def new_codec_def cut_short_def)
  moreover have "enough_reads ?s"
    using assms(5,6) by (simp add: enough_reads_def new_stream_def)
  ultimately show ?thesis
    using poll_frames_all [OF assms(1), of ?s ?fs "[]"] by (simp add: cut_short_def)
qed

lemma le_two: "put32 le_byteorder 2 = [2, 0, 0, 0]"
proof -
  have "le_bytes 4 2 = le_bytes (Suc (Suc (Suc (Suc 0)))) 2"
    by (rule arg_cong [of 4 "Suc (Suc (Suc (Suc 0)))" "\<lambda>k. le_bytes k 2"]) simp
  then show ?thesis by (simp add: le_byteorder_def)
qed

lemma varint_small:
  assumes "n < 128"
  shows "varint_u32 n = [ucast n]"
proof -
  have "varint_u32 n = varint_loop (Suc 4) n"
    unfolding varint_u32_def by (rule arg_cong [of _ _ "\<lambda>k. varint_loop k n"]) simp
  with assms show ?thesis
    unfolding varint_loop.simps by simp
qed

theorem frames_transported_witness:
  "\<exists>s' :: frame_sink. poll_frames (Suc (length [[1 :: u8, 2]])) le_byteorder
      (new_stream (new_codec 100 False) (sk_written s') (replicate 20 (ReadBytes 3))) = ([[1, 2]], FrameEnd)"
proof -
  let ?steps = "[(SinkSend [1, 2], [])]" and ?c = "new_codec 100 False"
  let ?s = "sink_start_send le_byteorder [1, 2] (new_sink ?c 50 True)"
  have run: "sink_run le_byteorder ?steps (new_sink ?c 50 True) = Ret ?s"
    by (simp add: sink_step_def)
  have buf: "sk_buf ?s = [2, 0, 0, 0, 1, 2]" "sk_queue ?s = []" "sk_queued ?s = 0" "sk_written ?s = []"
    using le_two by (simp_all add: sink_start_send_def new_sink_def new_codec_def encode_header_def Let_def
        DIRECT_MIN_def)
  obtain s' where s': "poll_write_pending [WroteBytes 100] ?s = Ret (WriteReady, [], s')"
    "sk_written s' = [2, 0, 0, 0, 1, 2]"
    by (simp add: poll_write_pending_def enqueue_buf_def buf write_queued.simps [of "_ # _"]
        write_queued.simps [of "[]"] MAX_SLICES_def Let_def)
  from frames_transported [OF le_byteorder_ok run s'(1), of "replicate 20 (ReadBytes 3)"] s'(2)
  show ?thesis by (intro exI [of _ s']) (simp add: new_codec_def list_all_iff)
qed

text \<open>A stream that is cut off within a frame fails. When any number of bytes of the last frame
  is missing, but not all of it, the frames before it are returned, and then the end of the input
  is an error and not the end of the stream.\<close>

theorem cut_stream_fails:
  assumes "byteorder_ok bo" "input @ u = frames_bytes bo (new_codec len varint) fs" "u \<noteq> []" "fs \<noteq> []"
    "length u < length (frame_bytes bo (new_codec len varint) (last fs))"
    "\<forall>f \<in> set fs. length f \<le> unat len"
    "list_all (\<lambda>r. \<exists>k. r = ReadBytes k) reads" "length input < length reads"
  shows "poll_frames (Suc (length fs)) bo (new_stream (new_codec len varint) input reads) =
    (butlast fs, FrameError UnexpectedEof)"
proof -
  let ?c = "new_codec len varint"
  let ?s = "new_stream ?c input reads"
  have cut: "cut_short bo ?c fs u"
    using assms(4,5) by (simp add: cut_short_def)
  have "awaits bo ?s fs u"
    using assms(2,6) by (intro awaits_next [OF assms(1), where c = ?c and buf = "[]" and inp = input])
      (simp_all add: cut new_stream_def fresh_codec_def, simp_all add: new_codec_def)
  moreover have "enough_reads ?s"
    using assms(7,8) by (simp add: enough_reads_def new_stream_def)
  ultimately show ?thesis
    using poll_frames_all [OF assms(1), of ?s fs u] cut assms(3) by (simp add: new_stream_def)
qed

theorem cut_stream_fails_witness:
  "poll_frames (Suc (length [[7 :: u8, 8]])) le_byteorder
      (new_stream (new_codec 100 True) [2, 7] (replicate 5 (ReadBytes 3))) =
    (butlast [[7, 8]], FrameError UnexpectedEof)"
proof (rule cut_stream_fails [OF le_byteorder_ok, where u = "[8]"])
  have "varint_u32 2 = [2]"
    by (simp add: varint_small)
  then show "[2, 7] @ [8] = frames_bytes le_byteorder (new_codec 100 True) [[7, 8]]"
    by (simp add: frame_bytes_def encode_header_def new_codec_def)
qed (simp_all add: frame_bytes_def list_all_iff)

text \<open>Frames that are too large are refused by their header alone, in both encodings of lengths
  and whatever follows.\<close>

theorem large_frame_refused:
  assumes "byteorder_ok bo" "unat len < n" "n < 2 ^ 32"
  shows "\<exists>c' rest'. decode_header bo (new_codec len varint)
      (encode_header bo (new_codec len varint) n @ rest) =
    (c', rest', Inl (InvalidData ''frame exceeds maximum size''))"
proof -
  let ?c = "new_codec len varint"
  have n: "len < word_of_nat n"
    using assms(2,3) by (simp add: word_less_nat_alt unat_of_nat)
  have r: "read_header bo ?c (encode_header bo ?c n @ rest) = Inr (word_of_nat n, rest)"
    by (rule read_encoded_header [OF assms(1)]) (simp add: fresh_codec_def new_codec_def)
  show ?thesis
  proof (cases varint)
    case True
    with r have "read_varint new_decoder ((encode_header bo ?c n @ rest) @ []) = Inr (word_of_nat n, rest)"
      by (simp add: read_header_def new_codec_def)
    from decode_bytes_read [OF this] have "\<exists>d bs'. decode_bytes new_decoder (encode_header bo ?c n @ rest) =
        (d, bs', Inr (Some (word_of_nat n)))"
      by (auto simp: read_varint.simps)
    with True n show ?thesis
      by (auto simp: decode_header_def decode_length_def new_codec_def)
  next
    case False
    with r have "\<not> length (encode_header bo ?c n @ rest) < 4"
      "get32 bo (take 4 (encode_header bo ?c n @ rest)) = word_of_nat n"
      by (auto simp: read_header_def new_codec_def read_u32_def rmap_def rbind_def rret_def read_exact_def
          split: if_splits)
    with False n show ?thesis
      by (simp add: decode_header_def decode_length_def new_codec_def)
  qed
qed

theorem large_frame_refused_witness:
  "\<exists>c' rest'. decode_header le_byteorder (new_codec 100 True)
      (encode_header le_byteorder (new_codec 100 True) 101 @ []) =
    (c', rest', Inl (InvalidData ''frame exceeds maximum size''))"
  by (rule large_frame_refused [OF le_byteorder_ok]) simp_all

end
