(* ===== verification/Mpsc.thy ===== *)
theory Mpsc
  imports Receiver
begin

text \<open>
  The channel with many senders and one receiver, \<^verbatim>\<open>remoc/src/rch/mpsc\<close>, with the errors of
  \<^verbatim>\<open>remoc/src/rch\<close>. A channel is the bounded queue of the asynchronous runtime with the cells the
  halves share: the reason for closure, the error of a remote transfer, and the strong reference
  to the queue, which a task drops once the channel is closed or all senders are gone. The tasks
  that move values between the queue and a port are not modelled; the errors they record are
  states of the cells.
\<close>

section \<open>Errors\<close>

text \<open>The errors of the base channel; what a codec reports is not looked at.\<close>

datatype base_recv_error =
    BaseReceive recv_error
  | BaseDeserialize
  | MissingPorts "u32 list"
  | ItemSizeExceeded

fun chmux_recv_is_disconnected :: "recv_error \<Rightarrow> bool" where
  "chmux_recv_is_disconnected RecvChMux = True"
| "chmux_recv_is_disconnected (RecvRejected _) = True"
| "chmux_recv_is_disconnected _ = False"

fun base_recv_is_disconnected :: "base_recv_error \<Rightarrow> bool" where
  "base_recv_is_disconnected (BaseReceive err) = chmux_recv_is_disconnected err"
| "base_recv_is_disconnected _ = False"

datatype send_error_kind = KindSerialize | KindSend send_error | KindItemSizeExceeded

fun kind_is_closed :: "send_error_kind \<Rightarrow> bool" where
  "kind_is_closed (KindSend err) = is_closed err"
| "kind_is_closed _ = False"

fun kind_is_disconnected :: "send_error_kind \<Rightarrow> bool" where
  "kind_is_disconnected (KindSend err) = is_disconnected err"
| "kind_is_disconnected _ = False"

fun kind_is_item_specific :: "send_error_kind \<Rightarrow> bool" where
  "kind_is_item_specific (KindSend _) = False"
| "kind_is_item_specific _ = True"

datatype closed_reason = ReasonClosed | ReasonDropped | ReasonFailed

fun reason_from_send_error_kind :: "send_error_kind \<Rightarrow> closed_reason option" where
  "reason_from_send_error_kind KindSerialize = None"
| "reason_from_send_error_kind KindItemSizeExceeded = None"
| "reason_from_send_error_kind (KindSend (Closed _)) = Some ReasonDropped"
| "reason_from_send_error_kind (KindSend (RejectedErr False)) = Some ReasonDropped"
| "reason_from_send_error_kind _ = Some ReasonFailed"

fun reason_from_connect_error :: "connect_error \<Rightarrow> closed_reason" where
  "reason_from_connect_error ConnectRejected = ReasonDropped"
| "reason_from_connect_error _ = ReasonFailed"

datatype remote_send_error =
    RemoteSend send_error_kind
  | RemoteConnect connect_error
  | RemoteListen listener_error
  | RemoteForward
  | RemoteClosed

datatype 'a mpsc_send_error =
    MpscClosed 'a
  | MpscSend send_error_kind
  | MpscConnect connect_error
  | MpscListen listener_error
  | MpscForward

fun mpsc_send_error_of :: "remote_send_error \<Rightarrow> 'a \<Rightarrow> 'a mpsc_send_error" where
  "mpsc_send_error_of (RemoteSend err) v = MpscSend err"
| "mpsc_send_error_of (RemoteConnect err) v = MpscConnect err"
| "mpsc_send_error_of (RemoteListen err) v = MpscListen err"
| "mpsc_send_error_of RemoteForward v = MpscForward"
| "mpsc_send_error_of RemoteClosed v = MpscClosed v"

fun mpsc_closed_reason :: "'a mpsc_send_error \<Rightarrow> closed_reason option" where
  "mpsc_closed_reason (MpscClosed _) = Some ReasonClosed"
| "mpsc_closed_reason (MpscSend err) = reason_from_send_error_kind err"
| "mpsc_closed_reason (MpscConnect err) = Some (reason_from_connect_error err)"
| "mpsc_closed_reason (MpscListen _) = Some ReasonFailed"
| "mpsc_closed_reason MpscForward = Some ReasonFailed"

definition mpsc_is_closed :: "'a mpsc_send_error \<Rightarrow> bool" where
  "mpsc_is_closed e \<longleftrightarrow> mpsc_closed_reason e \<in> {Some ReasonClosed, Some ReasonDropped}"

fun mpsc_is_disconnected :: "'a mpsc_send_error \<Rightarrow> bool" where
  "mpsc_is_disconnected (MpscSend err) = kind_is_disconnected err"
| "mpsc_is_disconnected _ = True"

datatype 'a mpsc_try_send_error =
    TryClosed 'a
  | TryFull 'a
  | TrySend send_error_kind
  | TryConnect connect_error
  | TryListen listener_error
  | TryForward

fun mpsc_try_send_error_of :: "remote_send_error \<Rightarrow> 'a \<Rightarrow> 'a mpsc_try_send_error" where
  "mpsc_try_send_error_of (RemoteSend err) v = TrySend err"
| "mpsc_try_send_error_of (RemoteConnect err) v = TryConnect err"
| "mpsc_try_send_error_of (RemoteListen err) v = TryListen err"
| "mpsc_try_send_error_of RemoteForward v = TryForward"
| "mpsc_try_send_error_of RemoteClosed v = TryClosed v"

datatype mpsc_recv_error =
    MpscReceive base_recv_error
  | MpscRecvConnect connect_error
  | MpscRecvListen listener_error
  | MpscRemote "mpsc_recv_error option"

fun mpsc_recv_is_disconnected :: "mpsc_recv_error \<Rightarrow> bool" where
  "mpsc_recv_is_disconnected (MpscReceive err) = base_recv_is_disconnected err"
| "mpsc_recv_is_disconnected (MpscRecvConnect _) = True"
| "mpsc_recv_is_disconnected (MpscRecvListen _) = True"
| "mpsc_recv_is_disconnected (MpscRemote (Some err)) = mpsc_recv_is_disconnected err"
| "mpsc_recv_is_disconnected (MpscRemote None) = False"

section \<open>The channel\<close>

text \<open>A queued request holds a value or the error of a remote sender. Reserved places count against
  the capacity until their value is sent or they are given back.\<close>

record 'a mpsc =
  mq_queue :: "(mpsc_recv_error + 'a) list"
  mq_capacity :: nat
  mq_reserved :: nat
  mq_tx_alive :: bool
  mq_rx_alive :: bool
  mq_closed_reason :: "closed_reason option"
  mq_remote_error :: "remote_send_error option"
  mq_final_error :: "mpsc_recv_error option"

definition with_local_buffer :: "nat \<Rightarrow> 'a mpsc exec" where
  "with_local_buffer local_buffer =
     (if local_buffer = 0 then Panic
      else Ret \<lparr>mq_queue = [], mq_capacity = local_buffer, mq_reserved = 0, mq_tx_alive = True,
                mq_rx_alive = True, mq_closed_reason = None, mq_remote_error = None,
                mq_final_error = None\<rparr>)"

definition mq_full :: "'a mpsc \<Rightarrow> bool" where
  "mq_full c \<longleftrightarrow> mq_capacity c \<le> length (mq_queue c) + mq_reserved c"

definition enqueue :: "'a \<Rightarrow> 'a mpsc \<Rightarrow> 'a mpsc" where
  "enqueue v c = c\<lparr>mq_queue := mq_queue c @ [Inr v]\<rparr>"

text \<open>A pending operation waits for a place in the queue, or for the receiver to be dropped.\<close>

datatype 'r polled = Pending | Ready 'r

definition queue_send :: "'a \<Rightarrow> 'a mpsc \<Rightarrow> 'a mpsc_send_error option polled \<times> 'a mpsc" where
  "queue_send v c =
     (if \<not> mq_rx_alive c then (Ready (Some (MpscClosed v)), c)
      else if mq_full c then (Pending, c)
      else (Ready None, enqueue v c))"

definition mpsc_send :: "'a \<Rightarrow> 'a mpsc \<Rightarrow> 'a mpsc_send_error option polled \<times> 'a mpsc" where
  "mpsc_send v c =
     (case mq_remote_error c of
        Some err \<Rightarrow> (Ready (Some (mpsc_send_error_of err v)), c)
      | None \<Rightarrow> if mq_tx_alive c then queue_send v c else (Ready (Some (MpscClosed v)), c))"

definition mpsc_try_send :: "'a \<Rightarrow> 'a mpsc \<Rightarrow> 'a mpsc_try_send_error option \<times> 'a mpsc" where
  "mpsc_try_send v c =
     (case mq_remote_error c of
        Some err \<Rightarrow> (Some (mpsc_try_send_error_of err v), c)
      | None \<Rightarrow>
          if \<not> mq_tx_alive c then (Some (TryClosed v), c)
          else if \<not> mq_rx_alive c then (Some (TryClosed v), c)
          else if mq_full c then (Some (TryFull v), c)
          else (None, enqueue v c))"

definition queue_reserve :: "'a mpsc \<Rightarrow> unit mpsc_send_error option polled \<times> 'a mpsc" where
  "queue_reserve c =
     (if \<not> mq_rx_alive c then (Ready (Some (MpscClosed ())), c)
      else if mq_full c then (Pending, c)
      else (Ready None, c\<lparr>mq_reserved := mq_reserved c + 1\<rparr>))"

definition mpsc_reserve :: "'a mpsc \<Rightarrow> unit mpsc_send_error option polled \<times> 'a mpsc" where
  "mpsc_reserve c =
     (case mq_remote_error c of
        Some err \<Rightarrow> (Ready (Some (mpsc_send_error_of err ())), c)
      | None \<Rightarrow> if mq_tx_alive c then queue_reserve c else (Ready (Some (MpscClosed ())), c))"

definition mpsc_try_reserve :: "'a mpsc \<Rightarrow> unit mpsc_try_send_error option \<times> 'a mpsc" where
  "mpsc_try_reserve c =
     (case mq_remote_error c of
        Some err \<Rightarrow> (Some (mpsc_try_send_error_of err ()), c)
      | None \<Rightarrow>
          if \<not> mq_tx_alive c then (Some (TryClosed ()), c)
          else if \<not> mq_rx_alive c then (Some (TryClosed ()), c)
          else if mq_full c then (Some (TryFull ()), c)
          else (None, c\<lparr>mq_reserved := mq_reserved c + 1\<rparr>))"

definition permit_send :: "'a \<Rightarrow> 'a mpsc \<Rightarrow> 'a mpsc" where
  "permit_send v c = enqueue v (c\<lparr>mq_reserved := mq_reserved c - 1\<rparr>)"

definition permit_drop :: "'a mpsc \<Rightarrow> 'a mpsc" where
  "permit_drop c = c\<lparr>mq_reserved := mq_reserved c - 1\<rparr>"

definition sender_closed_reason :: "'a mpsc \<Rightarrow> closed_reason option" where
  "sender_closed_reason c =
     (case (mq_closed_reason c, mq_remote_error c) of
        (Some reason, _) \<Rightarrow> Some reason
      | (None, Some RemoteClosed) \<Rightarrow> Some ReasonClosed
      | (None, Some (RemoteSend err)) \<Rightarrow>
          Some (case reason_from_send_error_kind err of Some reason \<Rightarrow> reason | None \<Rightarrow> ReasonFailed)
      | (None, Some (RemoteConnect err)) \<Rightarrow> Some (reason_from_connect_error err)
      | (None, Some _) \<Rightarrow> Some ReasonFailed
      | (None, None) \<Rightarrow> None)"

definition sender_capacity :: "'a mpsc \<Rightarrow> nat" where
  "sender_capacity c =
     (if mq_tx_alive c then mq_capacity c - (length (mq_queue c) + mq_reserved c) else 0)"

text \<open>The task that drops the strong reference once the reason for closure has been set or the last
  sender handle has been dropped.\<close>

definition drop_when_closed :: "bool \<Rightarrow> 'a mpsc \<Rightarrow> 'a mpsc" where
  "drop_when_closed senders_dropped c =
     (if senders_dropped \<or> mq_closed_reason c \<noteq> None then c\<lparr>mq_tx_alive := False\<rparr> else c)"

section \<open>Receiving\<close>

definition take_error :: "'a mpsc \<Rightarrow> mpsc_recv_error option \<times> 'a mpsc" where
  "take_error c = (mq_final_error c, c\<lparr>mq_final_error := None\<rparr>)"

text \<open>An error that tells the loss of a connection is kept back until all other senders are gone.\<close>

definition hold_error :: "mpsc_recv_error \<Rightarrow> 'a mpsc \<Rightarrow> 'a mpsc" where
  "hold_error err c = (if mq_final_error c = None then c\<lparr>mq_final_error := Some err\<rparr> else c)"

text \<open>The queue is disconnected when no handle that can send is left.\<close>

definition disconnected :: "'a mpsc \<Rightarrow> bool" where
  "disconnected c \<longleftrightarrow> \<not> mq_tx_alive c \<and> mq_reserved c = 0"

function mpsc_recv :: "'a mpsc \<Rightarrow> (mpsc_recv_error + 'a option) polled \<times> 'a mpsc" where
  "mpsc_recv c =
     (case mq_queue c of
        [] \<Rightarrow>
          if \<not> disconnected c then (Pending, c)
          else (case take_error c of
                  (Some err, c) \<Rightarrow> (Ready (Inl err), c)
                | (None, c) \<Rightarrow> (Ready (Inr None), c))
      | Inr v # q \<Rightarrow> (Ready (Inr (Some v)), c\<lparr>mq_queue := q\<rparr>)
      | Inl err # q \<Rightarrow>
          if mpsc_recv_is_disconnected err then mpsc_recv (hold_error err (c\<lparr>mq_queue := q\<rparr>))
          else (Ready (Inl err), c\<lparr>mq_queue := q\<rparr>))"
  by auto
termination
  by (relation "measure (\<lambda>c. length (mq_queue c))") (auto simp: hold_error_def)

declare mpsc_recv.simps [simp del]

datatype try_recv_error = RecvEmpty | RecvClosed | RecvError mpsc_recv_error

function mpsc_try_recv :: "'a mpsc \<Rightarrow> (try_recv_error + 'a) \<times> 'a mpsc" where
  "mpsc_try_recv c =
     (case mq_queue c of
        [] \<Rightarrow>
          if \<not> disconnected c then (Inl RecvEmpty, c)
          else (case take_error c of
                  (Some err, c) \<Rightarrow> (Inl (RecvError err), c)
                | (None, c) \<Rightarrow> (Inl RecvClosed, c))
      | Inr v # q \<Rightarrow> (Inr v, c\<lparr>mq_queue := q\<rparr>)
      | Inl err # q \<Rightarrow>
          if mpsc_recv_is_disconnected err then mpsc_try_recv (hold_error err (c\<lparr>mq_queue := q\<rparr>))
          else (Inl (RecvError err), c\<lparr>mq_queue := q\<rparr>))"
  by auto
termination
  by (relation "measure (\<lambda>c. length (mq_queue c))") (auto simp: hold_error_def)

declare mpsc_try_recv.simps [simp del]

text \<open>\<^verbatim>\<open>recv_many\<close> takes up to \<open>limit\<close> requests off the queue at once and then looks at them one by
  one; an error that does not tell the loss of the connection ends it, and the requests taken
  after it are gone.\<close>

fun acks :: "(mpsc_recv_error + 'a) list \<Rightarrow> 'a list \<Rightarrow> 'a mpsc \<Rightarrow>
    (mpsc_recv_error + nat) \<times> 'a list \<times> 'a mpsc" where
  "acks [] taken c = (Inr (length taken), taken, c)"
| "acks (Inr v # reqs) taken c = acks reqs (taken @ [v]) c"
| "acks (Inl err # reqs) taken c =
     (if mpsc_recv_is_disconnected err then acks reqs taken (hold_error err c)
      else (Inl err, taken, c))"

definition recv_many :: "nat \<Rightarrow> 'a mpsc \<Rightarrow> (mpsc_recv_error + nat) polled \<times> 'a list \<times> 'a mpsc" where
  "recv_many lim c =
     (if lim = 0 then (Ready (Inr 0), [], c)
      else if mq_queue c = []
      then if \<not> disconnected c then (Pending, [], c)
           else (case take_error c of
                   (Some err, c) \<Rightarrow> (Ready (Inl err), [], c)
                 | (None, c) \<Rightarrow> (Ready (Inr 0), [], c))
      else (case acks (take lim (mq_queue c)) [] (c\<lparr>mq_queue := drop lim (mq_queue c)\<rparr>) of
              (res, taken, c) \<Rightarrow> (Ready res, taken, c)))"

definition mpsc_close :: "'a mpsc \<Rightarrow> 'a mpsc" where
  "mpsc_close c = c\<lparr>mq_closed_reason := Some ReasonClosed\<rparr>"

text \<open>The drop of a receiver that has not been sent to a remote endpoint.\<close>

definition receiver_drop :: "'a mpsc \<Rightarrow> 'a mpsc" where
  "receiver_drop c =
     c\<lparr>mq_rx_alive := False, mq_queue := [],
       mq_closed_reason := (if mq_closed_reason c = Some ReasonClosed then Some ReasonClosed else Some ReasonDropped)\<rparr>"

section \<open>What the channel promises\<close>

definition values_of :: "('e + 'a) list \<Rightarrow> 'a list" where
  "values_of q = concat (map (case_sum (\<lambda>_. []) (\<lambda>v. [v])) q)"

lemma values_of_simps [simp]:
  "values_of [] = []" "values_of (Inl e # q) = values_of q" "values_of (Inr v # q) = v # values_of q"
  "values_of (p @ q) = values_of p @ values_of q"
  by (simp_all add: values_of_def)

text \<open>Receiving: what is left in the queue, and when an error comes out.\<close>

lemma mpsc_recv_frame:
  "mpsc_recv c = (r, c') \<Longrightarrow>
     mq_capacity c' = mq_capacity c \<and> mq_reserved c' = mq_reserved c \<and> mq_tx_alive c' = mq_tx_alive c \<and>
     mq_rx_alive c' = mq_rx_alive c \<and> mq_closed_reason c' = mq_closed_reason c \<and>
     mq_remote_error c' = mq_remote_error c \<and> length (mq_queue c') \<le> length (mq_queue c)"
proof (induction c rule: mpsc_recv.induct)
  case (1 c)
  show ?case
  proof (cases "mq_queue c")
    case Nil
    with 1 show ?thesis
      by (auto simp: mpsc_recv.simps [of c] take_error_def split: if_splits option.splits)
  next
    case (Cons x q)
    with 1 show ?thesis
      by (cases x) (auto simp: mpsc_recv.simps [of c] hold_error_def split: if_splits)
  qed
qed

lemma mpsc_recv_values:
  "mpsc_recv c = (r, c') \<Longrightarrow>
     values_of (mq_queue c) = (case r of Ready (Inr (Some v)) \<Rightarrow> [v] | _ \<Rightarrow> []) @ values_of (mq_queue c')"
proof (induction c rule: mpsc_recv.induct)
  case (1 c)
  show ?case
  proof (cases "mq_queue c")
    case Nil
    with 1 show ?thesis
      by (auto simp: mpsc_recv.simps [of c] take_error_def split: if_splits option.splits)
  next
    case (Cons x q)
    with 1 show ?thesis
      by (cases x) (auto simp: mpsc_recv.simps [of c] hold_error_def split: if_splits)
  qed
qed

lemma mpsc_recv_value [simp]:
  "mq_queue c = Inr v # q \<Longrightarrow> mpsc_recv c = (Ready (Inr (Some v)), c\<lparr>mq_queue := q\<rparr>)"
  by (simp add: mpsc_recv.simps)

lemma mpsc_recv_empty [simp]:
  "mq_queue c = [] \<Longrightarrow> \<not> disconnected c \<Longrightarrow> mpsc_recv c = (Pending, c)"
  by (simp add: mpsc_recv.simps)

text \<open>\<^verbatim>\<open>try_recv\<close> and \<^verbatim>\<open>recv_many\<close>.\<close>

lemma mpsc_try_recv_frame:
  "mpsc_try_recv c = (r, c') \<Longrightarrow>
     mq_capacity c' = mq_capacity c \<and> mq_reserved c' = mq_reserved c \<and> mq_tx_alive c' = mq_tx_alive c \<and>
     mq_rx_alive c' = mq_rx_alive c \<and> length (mq_queue c') \<le> length (mq_queue c) \<and>
     values_of (mq_queue c) = (case r of Inr v \<Rightarrow> [v] | _ \<Rightarrow> []) @ values_of (mq_queue c')"
proof (induction c rule: mpsc_try_recv.induct)
  case (1 c)
  show ?case
  proof (cases "mq_queue c")
    case Nil
    with 1 show ?thesis
      by (auto simp: mpsc_try_recv.simps [of c] take_error_def split: if_splits option.splits)
  next
    case (Cons x q)
    with 1 show ?thesis
      by (cases x) (auto simp: mpsc_try_recv.simps [of c] hold_error_def split: if_splits)
  qed
qed

lemma acks_frame:
  "acks reqs taken c = (r, taken', c') \<Longrightarrow>
     mq_capacity c' = mq_capacity c \<and> mq_reserved c' = mq_reserved c \<and> mq_tx_alive c' = mq_tx_alive c \<and>
     mq_rx_alive c' = mq_rx_alive c \<and> mq_queue c' = mq_queue c \<and>
     (\<exists>lost. taken @ values_of reqs = taken' @ lost \<and> ((\<forall>e. r \<noteq> Inl e) \<longrightarrow> lost = []))"
proof (induction reqs taken c rule: acks.induct)
  case (3 err reqs taken c)
  then show ?case
    by (auto simp: hold_error_def split: if_splits)
qed auto

text \<open>What one call of \<^verbatim>\<open>recv_many\<close> takes off the queue.\<close>

definition batch_of :: "nat \<Rightarrow> 'a mpsc \<Rightarrow> 'a list" where
  "batch_of lim c = values_of (take lim (mq_queue c))"

lemma recv_many_frame:
  assumes "recv_many lim c = (r, taken, c')"
  shows "mq_capacity c' = mq_capacity c \<and> mq_reserved c' = mq_reserved c \<and> mq_tx_alive c' = mq_tx_alive c \<and>
     mq_rx_alive c' = mq_rx_alive c \<and> length (mq_queue c') \<le> length (mq_queue c)"
    "values_of (mq_queue c) = batch_of lim c @ values_of (mq_queue c')"
    "\<exists>lost. batch_of lim c = taken @ lost \<and> ((\<forall>e. r \<noteq> Ready (Inl e)) \<longrightarrow> lost = [])"
proof -
  have "(mq_capacity c' = mq_capacity c \<and> mq_reserved c' = mq_reserved c \<and> mq_tx_alive c' = mq_tx_alive c \<and>
      mq_rx_alive c' = mq_rx_alive c \<and> length (mq_queue c') \<le> length (mq_queue c)) \<and>
    values_of (mq_queue c) = batch_of lim c @ values_of (mq_queue c') \<and>
    (\<exists>lost. batch_of lim c = taken @ lost \<and> ((\<forall>e. r \<noteq> Ready (Inl e)) \<longrightarrow> lost = []))"
  proof (cases "lim = 0 \<or> mq_queue c = []")
    case True
    with assms show ?thesis
      by (auto simp: recv_many_def batch_of_def take_error_def split: if_splits option.splits)
  next
    case False
    obtain r1 taken1 c1 where a: "acks (take lim (mq_queue c)) [] (c\<lparr>mq_queue := drop lim (mq_queue c)\<rparr>) = (r1, taken1, c1)"
      by (cases "acks (take lim (mq_queue c)) [] (c\<lparr>mq_queue := drop lim (mq_queue c)\<rparr>)")
    have "values_of (mq_queue c) = values_of (take lim (mq_queue c)) @ values_of (drop lim (mq_queue c))"
      unfolding values_of_simps(4) [symmetric] by simp
    with acks_frame [OF a] a assms False show ?thesis
      by (auto simp: recv_many_def batch_of_def)
  qed
  then show "mq_capacity c' = mq_capacity c \<and> mq_reserved c' = mq_reserved c \<and> mq_tx_alive c' = mq_tx_alive c \<and>
     mq_rx_alive c' = mq_rx_alive c \<and> length (mq_queue c') \<le> length (mq_queue c)"
    "values_of (mq_queue c) = batch_of lim c @ values_of (mq_queue c')"
    "\<exists>lost. batch_of lim c = taken @ lost \<and> ((\<forall>e. r \<noteq> Ready (Inl e)) \<longrightarrow> lost = [])"
    by blast+
qed

section \<open>Every use of a channel\<close>

text \<open>A channel under every operation of its halves, with what has been sent, what the receiver has
  been given, and the log of the values taken off the queue: each with whether it was given to the
  receiver. A remote sender also queues its errors. The count of losses is the number of calls of
  \<^verbatim>\<open>recv_many\<close> that fail while they look at a batch, and of drops of the receiver.\<close>

record 'a mpsc_world =
  mw_chan :: "'a mpsc"
  mw_sent :: "'a list"
  mw_received :: "'a list"
  mw_log :: "('a \<times> bool) list"
  mw_losses :: nat

definition log_batch :: "'a list \<Rightarrow> 'a list \<Rightarrow> ('a \<times> bool) list" where
  "log_batch given batch = map (\<lambda>v. (v, True)) given @ map (\<lambda>v. (v, False)) (drop (length given) batch)"

definition take_batch :: "'a list \<Rightarrow> 'a list \<Rightarrow> nat \<Rightarrow> 'a mpsc \<Rightarrow> 'a mpsc_world \<Rightarrow> 'a mpsc_world" where
  "take_batch given batch losses c w =
     w\<lparr>mw_chan := c, mw_received := mw_received w @ given, mw_log := mw_log w @ log_batch given batch,
       mw_losses := mw_losses w + losses\<rparr>"

fun given_by :: "(mpsc_recv_error + 'a option) polled \<Rightarrow> 'a list" where
  "given_by (Ready (Inr (Some v))) = [v]"
| "given_by _ = []"

fun try_given_by :: "try_recv_error + 'a \<Rightarrow> 'a list" where
  "try_given_by (Inr v) = [v]"
| "try_given_by (Inl _) = []"

fun batch_lost :: "(mpsc_recv_error + nat) polled \<Rightarrow> 'a mpsc \<Rightarrow> nat" where
  "batch_lost (Ready (Inl _)) c = (if mq_queue c = [] then 0 else 1)"
| "batch_lost _ c = 0"

inductive mpsc_step :: "'a mpsc_world \<Rightarrow> 'a mpsc_world \<Rightarrow> bool" where
  step_send: "mpsc_send v (mw_chan w) = (r, c) \<Longrightarrow>
    mpsc_step w (w\<lparr>mw_chan := c, mw_sent := mw_sent w @ (if r = Ready None then [v] else [])\<rparr>)"
| step_try_send: "mpsc_try_send v (mw_chan w) = (r, c) \<Longrightarrow>
    mpsc_step w (w\<lparr>mw_chan := c, mw_sent := mw_sent w @ (if r = None then [v] else [])\<rparr>)"
| step_reserve: "mpsc_reserve (mw_chan w) = (r, c) \<Longrightarrow> mpsc_step w (w\<lparr>mw_chan := c\<rparr>)"
| step_try_reserve: "mpsc_try_reserve (mw_chan w) = (r', c) \<Longrightarrow> mpsc_step w (w\<lparr>mw_chan := c\<rparr>)"
| step_permit_send: "0 < mq_reserved (mw_chan w) \<Longrightarrow>
    mpsc_step w (w\<lparr>mw_chan := permit_send v (mw_chan w), mw_sent := mw_sent w @ [v]\<rparr>)"
| step_permit_drop: "0 < mq_reserved (mw_chan w) \<Longrightarrow>
    mpsc_step w (w\<lparr>mw_chan := permit_drop (mw_chan w)\<rparr>)"
| step_remote_error: "\<not> mq_full (mw_chan w) \<Longrightarrow>
    mpsc_step w (w\<lparr>mw_chan := (mw_chan w)\<lparr>mq_queue := mq_queue (mw_chan w) @ [Inl err]\<rparr>\<rparr>)"
| step_remote_send_error:
    "mpsc_step w (w\<lparr>mw_chan := (mw_chan w)\<lparr>mq_remote_error := Some serr\<rparr>\<rparr>)"
| step_recv: "mq_rx_alive (mw_chan w) \<Longrightarrow> mpsc_recv (mw_chan w) = (res, c) \<Longrightarrow>
    mpsc_step w (take_batch (given_by res) (given_by res) 0 c w)"
| step_try_recv: "mq_rx_alive (mw_chan w) \<Longrightarrow> mpsc_try_recv (mw_chan w) = (tres, c) \<Longrightarrow>
    mpsc_step w (take_batch (try_given_by tres) (try_given_by tres) 0 c w)"
| step_recv_many: "mq_rx_alive (mw_chan w) \<Longrightarrow> recv_many lim (mw_chan w) = (mres, taken, c) \<Longrightarrow>
    mpsc_step w (take_batch taken (batch_of lim (mw_chan w)) (batch_lost mres (mw_chan w)) c w)"
| step_take_error: "mq_rx_alive (mw_chan w) \<Longrightarrow> take_error (mw_chan w) = (fe, c) \<Longrightarrow>
    mpsc_step w (w\<lparr>mw_chan := c\<rparr>)"
| step_close: "mq_rx_alive (mw_chan w) \<Longrightarrow> mpsc_step w (w\<lparr>mw_chan := mpsc_close (mw_chan w)\<rparr>)"
| step_receiver_drop: "mq_rx_alive (mw_chan w) \<Longrightarrow>
    mpsc_step w (take_batch [] (values_of (mq_queue (mw_chan w))) 1 (receiver_drop (mw_chan w)) w)"
| step_drop_when_closed: "mpsc_step w (w\<lparr>mw_chan := drop_when_closed dropped (mw_chan w)\<rparr>)"

definition mpsc_start :: "'a mpsc \<Rightarrow> 'a mpsc_world" where
  "mpsc_start c = \<lparr>mw_chan = c, mw_sent = [], mw_received = [], mw_log = [], mw_losses = 0\<rparr>"

inductive mpsc_reachable :: "nat \<Rightarrow> 'a mpsc_world \<Rightarrow> bool" where
  mpsc_init: "with_local_buffer n = Ret c \<Longrightarrow> mpsc_reachable n (mpsc_start c)"
| mpsc_next: "mpsc_reachable n w \<Longrightarrow> mpsc_step w w' \<Longrightarrow> mpsc_reachable n w'"

definition mpsc_inv :: "nat \<Rightarrow> 'a mpsc_world \<Rightarrow> bool" where
  "mpsc_inv n w \<longleftrightarrow> mq_capacity (mw_chan w) = n \<and>
     length (mq_queue (mw_chan w)) + mq_reserved (mw_chan w) \<le> n \<and>
     mw_sent w = map fst (mw_log w) @ values_of (mq_queue (mw_chan w)) \<and>
     mw_received w = map fst (filter snd (mw_log w)) \<and>
     (mw_losses w = 0 \<longrightarrow> list_all snd (mw_log w))"

lemma take_batch_inv:
  assumes "mpsc_inv n w" "mq_capacity c = mq_capacity (mw_chan w)"
    "length (mq_queue c) + mq_reserved c \<le> length (mq_queue (mw_chan w)) + mq_reserved (mw_chan w)"
    "values_of (mq_queue (mw_chan w)) = batch @ values_of (mq_queue c)"
    "batch = given @ lost" "losses = 0 \<longrightarrow> lost = []"
  shows "mpsc_inv n (take_batch given batch losses c w)"
  using assms by (auto simp: mpsc_inv_def take_batch_def log_batch_def comp_def list_all_iff)

lemma mpsc_step_inv:
  assumes "mpsc_step w w'" "mpsc_inv n w"
  shows "mpsc_inv n w'"
  using assms
proof cases
  case (step_recv res c)
  have "values_of (mq_queue (mw_chan w)) = given_by res @ values_of (mq_queue c)"
    using mpsc_recv_values [OF step_recv(3)] by (cases res rule: given_by.cases) auto
  with take_batch_inv [OF assms(2), where lost = "[]"] mpsc_recv_frame [OF step_recv(3)] step_recv(1)
  show ?thesis by simp
next
  case (step_try_recv tres c)
  have "values_of (mq_queue (mw_chan w)) = try_given_by tres @ values_of (mq_queue c)"
    using mpsc_try_recv_frame [OF step_try_recv(3)] by (cases tres) auto
  with take_batch_inv [OF assms(2), where lost = "[]"] mpsc_try_recv_frame [OF step_try_recv(3)] step_try_recv(1)
  show ?thesis by simp
next
  case (step_recv_many lim mres taken c)
  note frame = recv_many_frame [OF step_recv_many(3)]
  obtain lost where lost: "batch_of lim (mw_chan w) = taken @ lost" "(\<forall>e. mres \<noteq> Ready (Inl e)) \<longrightarrow> lost = []"
    using frame(3) by blast
  have "batch_lost mres (mw_chan w) = 0 \<longrightarrow> lost = []"
  proof
    assume "batch_lost mres (mw_chan w) = 0"
    then consider "\<forall>e. mres \<noteq> Ready (Inl e)" | "mq_queue (mw_chan w) = []"
      by (cases "(mres, mw_chan w)" rule: batch_lost.cases) (auto split: if_splits)
    then show "lost = []"
      using lost by cases (auto simp: batch_of_def)
  qed
  with take_batch_inv [OF assms(2) _ _ frame(2) lost(1)] frame(1) step_recv_many(1) show ?thesis
    by simp
next
  case step_receiver_drop
  then show ?thesis
    using take_batch_inv [OF assms(2), of "receiver_drop (mw_chan w)" "values_of (mq_queue (mw_chan w))" "[]"]
    by (simp add: receiver_drop_def)
qed (use assms(2) in \<open>auto simp: mpsc_inv_def mpsc_send_def queue_send_def mpsc_try_send_def enqueue_def
      mq_full_def mpsc_reserve_def queue_reserve_def mpsc_try_reserve_def permit_send_def permit_drop_def
      take_error_def mpsc_close_def drop_when_closed_def split: option.splits if_splits\<close>)

text \<open>C30: A channel is a bounded queue. Whatever its halves do (sending, trying to, reserving, receiving
  one value or a batch, trying to receive, closing, dropping the receiver), also with errors of
  remote senders in between: the values sent are, in order, those taken off the queue and those
  still in it; the receiver is given the values taken, in order, without those lost; and none is
  lost unless \<^verbatim>\<open>recv_many\<close> fails on an error inside a batch, which drops the rest of the batch, or
  the receiver is dropped. The queue with the reserved places never exceeds the capacity.\<close>

theorem mpsc_fifo:
  assumes "mpsc_reachable n w"
  shows "mw_sent w = map fst (mw_log w) @ values_of (mq_queue (mw_chan w)) \<and>
    mw_received w = map fst (filter snd (mw_log w)) \<and>
    (mw_losses w = 0 \<longrightarrow> mw_sent w = mw_received w @ values_of (mq_queue (mw_chan w))) \<and>
    length (mq_queue (mw_chan w)) + mq_reserved (mw_chan w) \<le> n \<and>
    sender_capacity (mw_chan w) \<le> n"
proof -
  have "mpsc_inv n w"
    using assms
  proof induction
    case (mpsc_init n c)
    then show ?case by (auto simp: mpsc_inv_def mpsc_start_def with_local_buffer_def split: if_splits)
  next
    case (mpsc_next n w w')
    then show ?case by (blast intro: mpsc_step_inv)
  qed
  moreover have "filter snd log = log" if "list_all snd log" for log :: "('a \<times> bool) list"
    using that by (simp add: list_all_iff filter_True)
  ultimately show ?thesis by (auto simp: mpsc_inv_def sender_capacity_def)
qed

definition example_chan :: "nat mpsc" where
  "example_chan = \<lparr>mq_queue = [], mq_capacity = 1, mq_reserved = 0, mq_tx_alive = True,
     mq_rx_alive = True, mq_closed_reason = None, mq_remote_error = None, mq_final_error = None\<rparr>"

text \<open>A batch with an error of a remote sender in it: the value behind the error is lost.\<close>

definition example_batch_chan :: "nat mpsc" where
  "example_batch_chan = example_chan\<lparr>mq_capacity := 3\<rparr>"

definition example_batch :: "nat mpsc_world" where
  "example_batch = \<lparr>mw_chan = example_batch_chan, mw_sent = [5, 6], mw_received = [5],
     mw_log = [(5, True), (6, False)], mw_losses = 1\<rparr>"

lemma example_batch_reachable: "mpsc_reachable 3 example_batch"
proof -
  let ?err = "MpscReceive BaseDeserialize" and ?c = example_batch_chan
  have "mpsc_reachable 3 (mpsc_start ?c)"
    by (rule mpsc_init) (simp add: with_local_buffer_def example_chan_def example_batch_chan_def)
  moreover have "mpsc_step (mpsc_start ?c) ((mpsc_start ?c)\<lparr>mw_chan := ?c\<lparr>mq_queue := [Inr 5]\<rparr>, mw_sent := [5]\<rparr>)"
    (is "mpsc_step _ ?w1")
    using step_try_send [of 5 "mpsc_start ?c" None "?c\<lparr>mq_queue := [Inr 5]\<rparr>"]
    by (simp add: mpsc_start_def example_chan_def example_batch_chan_def mpsc_try_send_def mq_full_def enqueue_def)
  ultimately have "mpsc_reachable 3 ?w1"
    by (rule mpsc_next)
  moreover have "mpsc_step ?w1 (?w1\<lparr>mw_chan := ?c\<lparr>mq_queue := [Inr 5, Inl ?err]\<rparr>\<rparr>)" (is "mpsc_step _ ?w2")
    using step_remote_error [of ?w1 ?err]
    by (simp add: mpsc_start_def example_chan_def example_batch_chan_def mq_full_def)
  ultimately have "mpsc_reachable 3 ?w2"
    by (rule mpsc_next)
  moreover have "mpsc_step ?w2 (?w2\<lparr>mw_chan := ?c\<lparr>mq_queue := [Inr 5, Inl ?err, Inr 6]\<rparr>, mw_sent := [5, 6]\<rparr>)"
    (is "mpsc_step _ ?w3")
    using step_try_send [of 6 ?w2 None "?c\<lparr>mq_queue := [Inr 5, Inl ?err, Inr 6]\<rparr>"]
    by (simp add: mpsc_start_def example_chan_def example_batch_chan_def mpsc_try_send_def mq_full_def enqueue_def)
  ultimately have "mpsc_reachable 3 ?w3"
    by (rule mpsc_next)
  moreover have "recv_many 3 (?c\<lparr>mq_queue := [Inr 5, Inl ?err, Inr 6]\<rparr>) = (Ready (Inl ?err), [5], ?c)"
    by (simp add: recv_many_def example_chan_def example_batch_chan_def)
  then have "mpsc_step ?w3 example_batch"
    using step_recv_many [of ?w3 3 "Ready (Inl ?err)" "[5]" ?c]
    by (simp add: mpsc_start_def example_chan_def example_batch_def example_batch_chan_def take_batch_def
        log_batch_def batch_of_def)
  ultimately show ?thesis
    by (rule mpsc_next)
qed

theorem mpsc_fifo_witness:
  "mw_sent example_batch = [5, 6] \<and> mw_received example_batch = [5] \<and> 0 < mw_losses example_batch \<and>
    mw_sent example_batch = map fst (mw_log example_batch) @ values_of (mq_queue (mw_chan example_batch)) \<and>
    mw_received example_batch = map fst (filter snd (mw_log example_batch))"
  using mpsc_fifo [OF example_batch_reachable] by (simp add: example_batch_def)

section \<open>The loss of a connection\<close>

text \<open>Receiving a number of times.\<close>

fun recv_times :: "nat \<Rightarrow> 'a mpsc \<Rightarrow> (mpsc_recv_error + 'a option) polled list \<times> 'a mpsc" where
  "recv_times 0 c = ([], c)"
| "recv_times (Suc n) c =
     (case mpsc_recv c of (r, c) \<Rightarrow> (case recv_times n c of (rs, c) \<Rightarrow> (r # rs, c)))"

definition errors_of :: "('e + 'a) list \<Rightarrow> 'e list" where
  "errors_of q = concat (map (case_sum (\<lambda>e. [e]) (\<lambda>_. [])) q)"

lemma errors_of_simps [simp]:
  "errors_of [] = []" "errors_of (Inl e # q) = e # errors_of q" "errors_of (Inr v # q) = errors_of q"
  by (simp_all add: errors_of_def)

text \<open>The error that is held back once the whole queue has been looked at.\<close>

definition held_back :: "'a mpsc \<Rightarrow> mpsc_recv_error option" where
  "held_back c =
     (case (mq_final_error c, errors_of (mq_queue c)) of
        (None, err # _) \<Rightarrow> Some err
      | (fe, _) \<Rightarrow> fe)"

lemma recv_times_values:
  "mq_queue c = q \<Longrightarrow> list_all mpsc_recv_is_disconnected (errors_of q) \<Longrightarrow>
     recv_times (length (values_of q) + Suc k) c =
       (case recv_times (Suc k) (c\<lparr>mq_queue := [], mq_final_error := held_back c\<rparr>) of
          (rs, c') \<Rightarrow> (map (Ready \<circ> Inr \<circ> Some) (values_of q) @ rs, c'))"
proof (induction q arbitrary: c)
  case Nil
  have "c\<lparr>mq_queue := [], mq_final_error := held_back c\<rparr> = c"
    using Nil by (simp add: held_back_def split: option.splits)
  then show ?case
    by (simp del: recv_times.simps)
next
  case (Cons x q)
  show ?case
  proof (cases x)
    case (Inr v)
    have "held_back (c\<lparr>mq_queue := q\<rparr>) = held_back c"
      using Cons.prems(1) Inr by (simp add: held_back_def)
    with Cons.IH [of "c\<lparr>mq_queue := q\<rparr>"] Cons.prems Inr show ?thesis
      by (simp del: recv_times.simps add: recv_times.simps(2) [of "Suc (length (values_of q) + k)"]
          split: prod.splits)
  next
    case (Inl e)
    let ?c = "hold_error e (c\<lparr>mq_queue := q\<rparr>)"
    have "mpsc_recv c = mpsc_recv ?c"
      using Cons.prems Inl by (simp add: mpsc_recv.simps [of c])
    then have same: "recv_times (length (values_of q) + Suc k) c = recv_times (length (values_of q) + Suc k) ?c"
      by simp
    have "?c\<lparr>mq_queue := [], mq_final_error := held_back ?c\<rparr> = c\<lparr>mq_queue := [], mq_final_error := held_back c\<rparr>"
      using Cons.prems(1) Inl by (auto simp: held_back_def hold_error_def split: option.splits list.splits)
    with Cons.IH [of ?c] Cons.prems Inl same show ?thesis
      by (simp del: recv_times.simps add: hold_error_def)
  qed
qed

text \<open>C38: The loss of a connection is reported last. When errors that tell the loss of a connection
  are queued anywhere between the values, and none is held back yet, receiving gives all the values
  in order first. Then, when no sender is left, it reports the first of the errors, once, and the end
  of the channel after it; while there still are senders it waits, and keeps the first error.\<close>

theorem lost_connection_last:
  assumes "mq_final_error c = None" "errors_of (mq_queue c) = err # errs"
    "list_all mpsc_recv_is_disconnected (err # errs)"
  shows "fst (recv_times (length (values_of (mq_queue c)) + 2) c) =
      map (Ready \<circ> Inr \<circ> Some) (values_of (mq_queue c)) @
        (if disconnected c then [Ready (Inl err), Ready (Inr None)] else [Pending, Pending]) \<and>
    (\<not> disconnected c \<longrightarrow>
      mq_final_error (snd (recv_times (length (values_of (mq_queue c)) + 2) c)) = Some err)"
proof -
  let ?c = "c\<lparr>mq_queue := [], mq_final_error := Some err\<rparr>"
  have "held_back c = Some err"
    using assms(1,2) by (simp add: held_back_def)
  with recv_times_values [of c "mq_queue c" 1] assms(2,3)
  have times: "recv_times (length (values_of (mq_queue c)) + 2) c =
      (case recv_times 2 ?c of (rs, c') \<Rightarrow> (map (Ready \<circ> Inr \<circ> Some) (values_of (mq_queue c)) @ rs, c'))"
    by (simp add: numeral_2_eq_2)
  have disc: "disconnected (c\<lparr>mq_queue := q, mq_final_error := fe\<rparr>) = disconnected c" for q fe
    by (simp add: disconnected_def)
  have "recv_times 2 ?c =
      (if disconnected c then ([Ready (Inl err), Ready (Inr None)], ?c\<lparr>mq_final_error := None\<rparr>)
       else ([Pending, Pending], ?c))"
    using disc by (simp add: numeral_2_eq_2 mpsc_recv.simps take_error_def)
  then show ?thesis
    unfolding times by simp
qed

theorem lost_connection_last_witness:
  "fst (recv_times 3 (example_chan\<lparr>mq_queue := [Inl (MpscRecvConnect ConnectChMux), Inr 5], mq_tx_alive := False\<rparr>)) =
     [Ready (Inr (Some 5)), Ready (Inl (MpscRecvConnect ConnectChMux)), Ready (Inr None)]"
  using lost_connection_last [of "example_chan\<lparr>mq_queue := [Inl (MpscRecvConnect ConnectChMux), Inr 5],
      mq_tx_alive := False\<rparr>" "MpscRecvConnect ConnectChMux" "[]"]
  by (simp add: example_chan_def disconnected_def numeral_eq_Suc)

text \<open>C40: \<^verbatim>\<open>recv_many\<close> reports the end of a channel that is open. When all requests it takes off the
  queue are errors that tell the loss of a connection, it returns zero, which stands for a closed
  channel, although other senders are left and may still send; \<^verbatim>\<open>recv\<close> would wait.\<close>

theorem recv_many_open_zero:
  assumes "mq_queue c = map Inl errs" "errs \<noteq> []" "list_all mpsc_recv_is_disconnected errs"
    "length errs \<le> lim" "mq_tx_alive c"
  shows "\<exists>c'. recv_many lim c = (Ready (Inr 0), [], c') \<and> mq_tx_alive c' \<and>
    fst (mpsc_recv c) = Pending"
proof -
  have acks: "\<exists>fe. acks (map Inl errs) taken c = (Inr (length taken), taken, c\<lparr>mq_final_error := fe\<rparr>)"
    if "list_all mpsc_recv_is_disconnected errs" for errs and taken :: "'a list" and c :: "'a mpsc"
    using that
  proof (induction errs arbitrary: c)
    case Nil
    show ?case by (auto intro: exI [of _ "mq_final_error c"])
  next
    case (Cons e errs)
    from Cons.IH [of "hold_error e c"] Cons.prems show ?case
      by (auto simp: hold_error_def split: if_splits)
  qed
  have recv: "fst (mpsc_recv c) = Pending" if "mq_queue c = map Inl errs" "mq_tx_alive c"
    "list_all mpsc_recv_is_disconnected errs" for errs and c :: "'a mpsc"
    using that
  proof (induction errs arbitrary: c)
    case Nil
    then show ?case by (simp add: mpsc_recv.simps disconnected_def)
  next
    case (Cons e errs)
    from Cons.prems Cons.IH [of "hold_error e (c\<lparr>mq_queue := map Inl errs\<rparr>)"] show ?case
      by (simp add: mpsc_recv.simps [of c] hold_error_def)
  qed
  from acks [OF assms(3), of "[]" "c\<lparr>mq_queue := []\<rparr>"] recv [OF assms(1,5,3)] assms show ?thesis
    by (auto simp: recv_many_def)
qed

theorem recv_many_open_zero_witness:
  "\<exists>c'. recv_many 1 (example_chan\<lparr>mq_queue := [Inl (MpscRecvConnect ConnectChMux)]\<rparr>) = (Ready (Inr 0), [], c') \<and>
    mq_tx_alive c' \<and> fst (mpsc_recv (example_chan\<lparr>mq_queue := [Inl (MpscRecvConnect ConnectChMux)]\<rparr>)) = Pending"
  by (rule recv_many_open_zero [of _ "[MpscRecvConnect ConnectChMux]"]) (simp_all add: example_chan_def)

end
