(* ===== verification/Base.thy ===== *)
theory Base
  imports Transmission Mpsc
begin

text \<open>
  The base channel, \<^verbatim>\<open>remoc/src/rch/base\<close>: a value is serialised, as a whole when it is small or
  chunk by chunk while it is sent, followed by the ports of the channels it contains; the receiver
  deserialises it, connects the expected ports and skips what a cancelled send left behind. The
  codec is a parameter: what it writes, and what it makes of the bytes it is given. Tasks a value
  registers are not modelled.
\<close>

section \<open>Codecs and writers\<close>

text \<open>What a codec writes for a value, and the ports of the value, if it succeeds. The flag tells
  whether the value is being streamed: the two attempts allocate different ports. Reading, a codec
  asks for more bytes or ends; \<open>cd_end\<close> is its answer when it asks for more and there are none.\<close>

datatype 'x parse = NeedMore | Parsed 'x | ParseFailed

record 'a codec =
  cd_writes :: "bool \<Rightarrow> 'a \<Rightarrow> bytes list"
  cd_ports :: "bool \<Rightarrow> 'a \<Rightarrow> port_reply list option"
  cd_parse :: "bytes \<Rightarrow> ('a \<times> u32 list) parse"
  cd_end :: "bytes \<Rightarrow> ('a \<times> u32 list) option"

definition decode_value :: "'a codec \<Rightarrow> bytes \<Rightarrow> ('a \<times> u32 list) option" where
  "decode_value C data =
     (case cd_parse C data of NeedMore \<Rightarrow> cd_end C data | Parsed x \<Rightarrow> Some x | ParseFailed \<Rightarrow> None)"

text \<open>The buffered writer of the standard library, which hands blocks of about \<open>n\<close> bytes on.\<close>

fun buffered_writes :: "nat \<Rightarrow> bytes list \<Rightarrow> bytes \<Rightarrow> bytes list" where
  "buffered_writes n [] buf = (if buf = [] then [] else [buf])"
| "buffered_writes n (w # ws) buf =
     (if length w < n - length buf then buffered_writes n ws (buf @ w)
      else let flush = length w > n - length buf;
               out = (if flush \<and> buf \<noteq> [] then [buf] else []);
               buf = (if flush then [] else buf)
           in if length w \<ge> n
              then out @ (if w = [] then [] else [w]) @ buffered_writes n ws buf
              else out @ buffered_writes n ws (buf @ w))"

record limited_writer =
  lw_limit :: nat
  lw_buf :: bytes
  lw_overflown :: bool

definition new_limited :: "nat \<Rightarrow> limited_writer" where
  "new_limited lim = \<lparr>lw_limit = lim, lw_buf = [], lw_overflown = False\<rparr>"

definition limited_write :: "bytes \<Rightarrow> limited_writer \<Rightarrow> limited_writer" where
  "limited_write w lw =
     (if length (lw_buf lw) + length w \<le> lw_limit lw \<and> \<not> lw_overflown lw
      then lw\<lparr>lw_buf := lw_buf lw @ w\<rparr> else lw\<lparr>lw_overflown := True\<rparr>)"

definition limited_into_inner :: "limited_writer \<Rightarrow> bytes option" where
  "limited_into_inner lw = (if lw_overflown lw then None else Some (lw_buf lw))"

section \<open>Sending\<close>

definition BIG_DATA_LIMIT :: int where
  "BIG_DATA_LIMIT = 16"

record base_sender =
  bs_sender :: sender
  bs_big_data :: int
  bs_last_size :: nat
  bs_max_item_size :: nat

definition DEFAULT_MAX_ITEM_SIZE :: nat where
  "DEFAULT_MAX_ITEM_SIZE = 16777216"

definition new_base_sender :: "sender \<Rightarrow> base_sender" where
  "new_base_sender sd =
     \<lparr>bs_sender = sd, bs_big_data = 0, bs_last_size = 0, bs_max_item_size = DEFAULT_MAX_ITEM_SIZE\<rparr>"

text \<open>The serialisation fails, or exceeds the limit and gives nothing, or gives data and ports.\<close>

definition serialize_buffered :: "'a codec \<Rightarrow> 'a \<Rightarrow> nat \<Rightarrow> nat \<Rightarrow> unit + (bytes \<times> port_reply list) option" where
  "serialize_buffered C x lim capacity =
     (let lw = fold limited_write (buffered_writes (max 512 (min 8192 capacity)) (cd_writes C False x) []) (new_limited lim)
      in case limited_into_inner lw of
           None \<Rightarrow> Inr None
         | Some data \<Rightarrow> (case cd_ports C False x of Some ports \<Rightarrow> Inr (Some (data, ports)) | None \<Rightarrow> Inl ()))"

text \<open>The task that sends the blocks of a value while it is being serialised.\<close>

datatype stream_end = StreamDone | StreamFailed send_error | StreamTooLarge | StreamWaiting | StreamPanic

fun send_stream :: "sender \<Rightarrow> nat \<Rightarrow> nat \<Rightarrow> bytes list \<Rightarrow> send_state \<Rightarrow> stream_end \<times> send_state" where
  "send_stream sd max_size sofar [] s = (StreamDone, s)"
| "send_stream sd max_size sofar (chunk # chunks) s =
     (if sofar + length chunk > max_size then (StreamTooLarge, s)
      else case do_send_int sd chunk False s of
        (AllSent, s) \<Rightarrow> send_stream sd max_size (sofar + length chunk) chunks s
      | (SendFailed e, s) \<Rightarrow> (StreamFailed e, s)
      | (SendWaiting, s) \<Rightarrow> (StreamWaiting, s)
      | (SendPanic, s) \<Rightarrow> (StreamPanic, s))"

datatype base_end = BaseSent | BaseFailed send_error_kind | BaseWaiting | BasePanic

definition base_end_of :: "sender \<Rightarrow> send_end \<Rightarrow> base_end" where
  "base_end_of sd e =
     (case e of
        AllSent \<Rightarrow> BaseSent
      | SendFailed err \<Rightarrow>
          (case handle_pre_connect_result sd (Inl err :: send_error + unit) of
             Inl err \<Rightarrow> BaseFailed (KindSend err) | Inr _ \<Rightarrow> BaseSent)
      | SendWaiting \<Rightarrow> BaseWaiting
      | SendPanic \<Rightarrow> BasePanic)"

definition send_requests :: "sender \<Rightarrow> port_reply list \<Rightarrow> connect_env \<Rightarrow> port_evt list \<Rightarrow> base_end \<times> port_evt list" where
  "send_requests sd ports cenv sent =
     (if ports = [] then (BaseSent, sent)
      else case do_connect sd ports cenv of (e, evts) \<Rightarrow> (base_end_of sd e, sent @ evts))"

definition send_buffered :: "base_sender \<Rightarrow> bytes \<Rightarrow> port_reply list \<Rightarrow> send_env \<Rightarrow> connect_env \<Rightarrow>
    base_end \<times> port_evt list" where
  "send_buffered s data ports env cenv =
     (if length data > bs_max_item_size s then (BaseFailed KindItemSizeExceeded, [])
      else case do_send (bs_sender s) data env of
        (AllSent, st) \<Rightarrow> send_requests (bs_sender s) ports cenv (ss_acc st)
      | (e, st) \<Rightarrow> (base_end_of (bs_sender s) e, ss_acc st))"

text \<open>Without threads the serialisation fails at once. A failure of sending comes before one of the
  serialisation.\<close>

definition send_streaming :: "'a codec \<Rightarrow> bool \<Rightarrow> 'a \<Rightarrow> base_sender \<Rightarrow> send_env \<Rightarrow> connect_env \<Rightarrow>
    base_end \<times> base_sender \<times> port_evt list" where
  "send_streaming C threads x s env cenv =
     (let chunks = (if threads then buffered_writes (sd_chunk_size (bs_sender s)) (cd_writes C True x) [] else []);
          serialized = (if threads then cd_ports C True x else None)
      in case send_stream (bs_sender s) (bs_max_item_size s) 0 chunks (start_sending env) of
           (StreamDone, st) \<Rightarrow>
             (case serialized of
                None \<Rightarrow> (BaseFailed KindSerialize, s, ss_acc st)
              | Some ports \<Rightarrow>
                  (case do_send_int (bs_sender s) [] True st of
                     (AllSent, st) \<Rightarrow>
                       (let s = (if length (concat chunks) \<le> sd_max_data_size (bs_sender s)
                                 then s\<lparr>bs_big_data := max (bs_big_data s - 1) (- BIG_DATA_LIMIT)\<rparr> else s)
                        in case send_requests (bs_sender s) ports cenv (ss_acc st) of (e, evts) \<Rightarrow> (e, s, evts))
                   | (e, st) \<Rightarrow> (base_end_of (bs_sender s) e, s, ss_acc st)))
         | (StreamFailed e, st) \<Rightarrow> (base_end_of (bs_sender s) (SendFailed e), s, ss_acc st)
         | (StreamTooLarge, st) \<Rightarrow> (BaseFailed KindItemSizeExceeded, s, ss_acc st)
         | (StreamWaiting, st) \<Rightarrow> (BaseWaiting, s, ss_acc st)
         | (StreamPanic, st) \<Rightarrow> (BasePanic, s, ss_acc st))"

definition send_erased :: "'a codec \<Rightarrow> bool \<Rightarrow> 'a \<Rightarrow> base_sender \<Rightarrow> send_env \<Rightarrow> connect_env \<Rightarrow>
    base_end \<times> base_sender \<times> port_evt list" where
  "send_erased C threads x s env cenv =
     (if bs_big_data s \<le> 0
      then (case serialize_buffered C x (sd_max_data_size (bs_sender s)) (bs_last_size s * 110 div 100) of
              Inl _ \<Rightarrow> (BaseFailed KindSerialize, s, [])
            | Inr (Some (data, ports)) \<Rightarrow>
                (let s = s\<lparr>bs_big_data := max (bs_big_data s - 1) (- BIG_DATA_LIMIT), bs_last_size := length data\<rparr>
                 in case send_buffered s data ports env cenv of (e, evts) \<Rightarrow> (e, s, evts))
            | Inr None \<Rightarrow>
                send_streaming C threads x (s\<lparr>bs_big_data := min (bs_big_data s + 1) BIG_DATA_LIMIT\<rparr>) env cenv)
      else send_streaming C threads x s env cenv)"

section \<open>Receiving\<close>

text \<open>The deserialiser of a value that is streamed runs in a thread of its own. It is given the bytes
  received so far, and is taken to end at once when its input ends; \<open>gone\<close> tells whether it is found
  to have ended before, which it can only have when it needs no more bytes.\<close>

datatype data_source = NoData | BufferedData "data_buf option" | StreamedData bytes

record ('a, 'q) base_receiver =
  br_rx :: "'q receiver"
  br_recved :: "'q received option option"
  br_data :: data_source
  br_item :: "'a option"
  br_expected :: "u32 list option"
  br_default_max_ports :: "nat option"
  br_max_item_size :: nat
  br_accepted :: "'q list"

definition new_base_receiver :: "'q receiver \<Rightarrow> ('a, 'q) base_receiver" where
  "new_base_receiver r =
     \<lparr>br_rx = r, br_recved = None, br_data = NoData, br_item = None, br_expected = None,
      br_default_max_ports = None, br_max_item_size = DEFAULT_MAX_ITEM_SIZE, br_accepted = []\<rparr>"

datatype feed_end = FeedDone | FeedWaiting | FeedTooLarge | FeedFailed recv_chunk_error

text \<open>How many chunks a receiver can still give, for the termination of the loop.\<close>

definition chunks_left :: "'q receiver \<Rightarrow> nat" where
  "chunks_left r = length (rx_queue r) + (case rx_receiving r of RecvChunks cs l a \<Rightarrow> length cs | _ \<Rightarrow> 0)"

lemma recv_chunk_loop_queue:
  "recv_chunk_loop queue r = (out, r') \<Longrightarrow>
     length (rx_queue r') \<le> length queue \<and> (out = Got (Some chunk) \<longrightarrow> length (rx_queue r') < length queue) \<and>
     (out = RecvFailed ChunkCancelled \<longrightarrow> length (rx_queue r') < length queue)"
proof (induction queue r rule: recv_chunk_loop.induct)
  case (2 d queue r)
  then show ?case by (fastforce simp: Let_def split: prod.splits option.splits sum.splits)
qed (fastforce simp: Let_def split: if_splits)+

lemma recv_chunk_loop_state:
  "recv_chunk_loop queue r = (Got (Some chunk), r') \<Longrightarrow> \<exists>l. rx_receiving r' = RecvChunks [] l True"
proof (induction queue r rule: recv_chunk_loop.induct)
  case (2 d queue r)
  then show ?case
    by (auto simp: Let_def chunk_data_def log_calls_def split: prod.splits option.splits sum.splits if_splits)
qed (auto simp: Let_def split: if_splits)

lemma recv_chunk_left:
  assumes "recv_chunk r = (Got (Some chunk), r')"
  shows "chunks_left r' < chunks_left r"
  using assms recv_chunk_loop_queue [of "rx_queue r" r "Got (Some chunk)" r' chunk]
    recv_chunk_loop_state [of "rx_queue r" r chunk r']
  by (auto simp: recv_chunk_def chunks_left_def split: recv_out.splits if_splits receiving.splits list.splits bool.splits
      recv_error.splits)

function feed :: "'a codec \<Rightarrow> nat \<Rightarrow> (bytes \<Rightarrow> bool) \<Rightarrow> bytes \<Rightarrow> 'q receiver \<Rightarrow> feed_end \<times> bytes \<times> 'q receiver" where
  "feed C max_size gone fed r =
     (if gone fed \<and> cd_parse C fed \<noteq> NeedMore then (FeedDone, fed, r)
      else case recv_chunk r of
        (RecvWaiting, r) \<Rightarrow> (FeedWaiting, fed, r)
      | (RecvFailed e, r) \<Rightarrow> (FeedFailed e, fed, r)
      | (Got None, r) \<Rightarrow> (FeedDone, fed, r)
      | (Got (Some chunk), r) \<Rightarrow>
          if length fed + length chunk > max_size then (FeedTooLarge, fed, r)
          else feed C max_size gone (fed @ chunk) r)"
  by pat_completeness auto
termination
  by (relation "measure (\<lambda>(C, max_size, gone, fed, r). chunks_left r)") (auto dest: recv_chunk_left [OF sym])

declare feed.simps [simp del]


text \<open>One round of the loop: it leaves the loop, starts over, goes on to its next part, or panics.\<close>

datatype ('a, 'q) round_result =
    Leave "(base_recv_error + 'a option) polled" "('a, 'q) base_receiver"
  | Restart "('a, 'q) base_receiver"
  | Go "('a, 'q) base_receiver"
  | RoundPanic

definition round_bind :: "('a, 'q) round_result \<Rightarrow> (('a, 'q) base_receiver \<Rightarrow> ('a, 'q) round_result) \<Rightarrow> ('a, 'q) round_result" where
  "round_bind r f = (case r of Go s \<Rightarrow> f s | _ \<Rightarrow> r)"

abbreviation leave_err :: "base_recv_error \<Rightarrow> ('a, 'q) base_receiver \<Rightarrow> ('a, 'q) round_result" where
  "leave_err e s \<equiv> Leave (Ready (Inl e)) s"

definition next_received :: "('a, 'q) base_receiver \<Rightarrow> (recv_error, 'q received option) recv_out \<times> ('a, 'q) base_receiver" where
  "next_received s =
     (case br_recved s of
        Some x \<Rightarrow> (Got x, s\<lparr>br_recved := None\<rparr>)
      | None \<Rightarrow> (case recv_any (br_rx s) of (out, r) \<Rightarrow> (out, s\<lparr>br_rx := r\<rparr>)))"

definition fetch_data :: "bool \<Rightarrow> ('a, 'q) base_receiver \<Rightarrow> ('a, 'q) round_result" where
  "fetch_data threads s =
     (if br_data s \<noteq> NoData then Go s
      else case next_received s of
        (RecvWaiting, s) \<Rightarrow> Leave Pending s
      | (RecvFailed e, s) \<Rightarrow> leave_err (BaseReceive e) s
      | (Got (Some (ReceivedDataBuf b)), s) \<Rightarrow> Go (s\<lparr>br_data := BufferedData (Some b)\<rparr>)
      | (Got (Some ReceivedChunks), s) \<Rightarrow>
          if threads then Go (s\<lparr>br_data := StreamedData []\<rparr>)
          else leave_err BaseDeserialize (s\<lparr>br_rx := discard_chunks (br_rx s)\<rparr>)
      | (Got (Some (ReceivedRequests _)), s) \<Rightarrow> Restart s
      | (Got None, s) \<Rightarrow> Leave (Ready (Inr None)) s)"

definition take_decoded :: "('a \<times> u32 list) option \<Rightarrow> ('a, 'q) base_receiver \<Rightarrow> ('a, 'q) round_result" where
  "take_decoded res s =
     (let s = s\<lparr>br_data := NoData\<rparr>
      in case res of
           Some (x, ids) \<Rightarrow> Go (s\<lparr>br_item := Some x, br_expected := Some ids\<rparr>)
         | None \<Rightarrow> leave_err BaseDeserialize s)"

definition get_item :: "'a codec \<Rightarrow> (bytes \<Rightarrow> bool) \<Rightarrow> ('a, 'q) base_receiver \<Rightarrow> ('a, 'q) round_result" where
  "get_item C gone s =
     (case br_data s of
        NoData \<Rightarrow> RoundPanic
      | BufferedData None \<Rightarrow> Restart (s\<lparr>br_data := NoData\<rparr>)
      | BufferedData (Some b) \<Rightarrow>
          if bf_remaining b > br_max_item_size s then leave_err ItemSizeExceeded (s\<lparr>br_data := NoData\<rparr>)
          else take_decoded (decode_value C (buf_bytes b)) s
      | StreamedData fed \<Rightarrow>
          (case feed C (br_max_item_size s) gone fed (br_rx s) of
             (FeedWaiting, fed, r) \<Rightarrow> Leave Pending (s\<lparr>br_rx := r, br_data := StreamedData fed\<rparr>)
           | (res, fed, r) \<Rightarrow>
               (let s = s\<lparr>br_rx := discard_chunks r\<rparr>
                in case res of
                     FeedFailed ChunkCancelled \<Rightarrow> Restart (s\<lparr>br_data := NoData\<rparr>)
                   | FeedFailed ChunkChMux \<Rightarrow> leave_err (BaseReceive RecvChMux) (s\<lparr>br_data := NoData\<rparr>)
                   | FeedTooLarge \<Rightarrow> leave_err ItemSizeExceeded (s\<lparr>br_data := NoData\<rparr>)
                   | _ \<Rightarrow> take_decoded (decode_value C fed) s)))"

text \<open>The requests whose id is expected are handed to their callbacks, each id once.\<close>

fun accept_requests :: "('q \<Rightarrow> u32) \<Rightarrow> 'q list \<Rightarrow> u32 list \<Rightarrow> 'q list \<times> u32 list" where
  "accept_requests req_id [] expected = ([], expected)"
| "accept_requests req_id (q # reqs) expected =
     (if req_id q \<in> set expected
      then (case accept_requests req_id reqs (removeAll (req_id q) expected) of (qs, ids) \<Rightarrow> (q # qs, ids))
      else accept_requests req_id reqs expected)"

definition give_item :: "('a, 'q) base_receiver \<Rightarrow> ('a, 'q) round_result" where
  "give_item s =
     (case br_item s of
        Some x \<Rightarrow> Leave (Ready (Inr (Some x))) (s\<lparr>br_item := None\<rparr>)
      | None \<Rightarrow> RoundPanic)"

definition connect_ports :: "('q \<Rightarrow> u32) \<Rightarrow> ('a, 'q) base_receiver \<Rightarrow> ('a, 'q) round_result" where
  "connect_ports req_id s =
     (case (br_expected s, br_default_max_ports s) of
        (Some [], _) \<Rightarrow> give_item s
      | (Some ids, Some dflt_ports) \<Rightarrow>
          (case recv_any ((br_rx s)\<lparr>rx_max_ports := length ids + dflt_ports\<rparr>) of
             (RecvWaiting, r) \<Rightarrow> Leave Pending (s\<lparr>br_rx := r\<rparr>)
           | (RecvFailed e, r) \<Rightarrow> leave_err (BaseReceive e) (s\<lparr>br_rx := r\<rparr>)
           | (Got (Some (ReceivedRequests reqs)), r) \<Rightarrow>
               (case accept_requests req_id reqs ids of (qs, missing) \<Rightarrow>
                  let s = s\<lparr>br_rx := r, br_expected := Some missing, br_accepted := br_accepted s @ qs\<rparr>
                  in if missing \<noteq> [] then leave_err (MissingPorts missing) s else give_item s)
           | (Got other, r) \<Rightarrow>
               Restart (s\<lparr>br_rx := r, br_recved := Some other, br_data := NoData, br_item := None,
                          br_expected := None\<rparr>))
      | _ \<Rightarrow> RoundPanic)"

definition base_round :: "'a codec \<Rightarrow> ('q \<Rightarrow> u32) \<Rightarrow> bool \<Rightarrow> (bytes \<Rightarrow> bool) \<Rightarrow> ('a, 'q) base_receiver \<Rightarrow> ('a, 'q) round_result" where
  "base_round C req_id threads gone s =
     round_bind
       (if br_item s = None then round_bind (fetch_data threads s) (get_item C gone) else Go s)
       (connect_ports req_id)"

section \<open>The receive loop ends\<close>

text \<open>Every round that starts over has used up a message, a received message put aside, the data or
  the value at hand, or the announcement of chunks.\<close>

definition rx_base :: "'q receiver \<Rightarrow> nat" where
  "rx_base r = 10 * length (rx_queue r) + (case rx_receiving r of RecvChunks _ _ a \<Rightarrow> if a then 0 else 5 | _ \<Rightarrow> 0)"

definition announced_weight :: "'q receiver \<Rightarrow> nat" where
  "announced_weight r = (case rx_receiving r of RecvChunks _ _ a \<Rightarrow> if a then 4 else 0 | _ \<Rightarrow> 0)"

definition recved_weight :: "'q received option option \<Rightarrow> nat" where
  "recved_weight x = (case x of None \<Rightarrow> 0 | Some None \<Rightarrow> 1 | Some (Some _) \<Rightarrow> 4)"

definition base_weight :: "('a, 'q) base_receiver \<Rightarrow> nat" where
  "base_weight s = rx_base (br_rx s) + recved_weight (br_recved s) +
     (if br_recved s = Some (Some ReceivedChunks) then 0 else announced_weight (br_rx s)) +
     (if br_data s = NoData then 0 else 4) + (if br_item s = None then 0 else 4)"

lemmas weight_defs = rx_base_def announced_weight_def recved_weight_def

lemma recv_any_loop_shrinks:
  "recv_any_loop queue r = (Got x, r') \<Longrightarrow> \<not> is_receiving_chunks r \<Longrightarrow>
     length (rx_queue r') < length queue \<and> (is_receiving_chunks r' \<longrightarrow> (\<exists>cs l. rx_receiving r' = RecvChunks cs l True))"
proof (induction queue r rule: recv_any_loop.induct)
  case (2 d queue r)
  then show ?case
    by (fastforce simp: Let_def log_calls_def any_data_def is_receiving_chunks_def split: prod.splits option.splits if_splits receiving.splits)
next
  case (3 m queue r)
  then show ?case
    by (fastforce simp: Let_def log_calls_def any_requests_def is_receiving_chunks_def split: prod.splits option.splits sum.splits if_splits receiving.splits)
qed (auto simp: log_calls_def is_receiving_chunks_def split: if_splits option.splits)

lemma recv_any_weight:
  assumes "recv_any r = (Got x, r')"
  shows "rx_base r' + 10 \<le> rx_base r \<or> (x = None \<and> r' = r) \<or>
    (x = Some ReceivedChunks \<and> rx_base r' + 4 \<le> rx_base r + announced_weight r)"
  using assms recv_any_loop_shrinks [of "rx_queue r" "r\<lparr>rx_receiving := RecvNothing\<rparr>" x r']
    recv_any_loop_shrinks [of "rx_queue r" r x r']
  by (fastforce simp: recv_any_def weight_defs is_receiving_chunks_def split: recv_out.splits if_splits receiving.splits)

lemma recv_chunk_loop_shrinks:
  "recv_chunk_loop queue r = (out, r') \<Longrightarrow> length (rx_queue r') < length queue \<or> (rx_receiving r' = rx_receiving r \<and> rx_queue r' = queue)"
proof (induction queue r rule: recv_chunk_loop.induct)
  case (2 d queue r)
  then show ?case by (fastforce simp: Let_def chunk_data_def log_calls_def split: prod.splits option.splits sum.splits if_splits)
qed (fastforce simp: Let_def log_calls_def split: if_splits)+

lemma recv_chunk_base:
  assumes "recv_chunk r = (out, r')"
  shows "rx_base r' \<le> rx_base r"
  using assms recv_chunk_loop_shrinks [of "rx_queue r" r out r']
  by (auto simp: recv_chunk_def weight_defs split: recv_out.splits if_splits receiving.splits list.splits bool.splits
      recv_error.splits)

lemma feed_base: "feed C n gone fed r = (res, fed', r') \<Longrightarrow> rx_base r' \<le> rx_base r"
proof (induction C n gone fed r rule: feed.induct)
  case (1 C n gone fed r)
  show ?case
    using "1.prems" "1.IH"
    by (subst (asm) feed.simps)
       (auto split: if_splits prod.splits recv_out.splits option.splits dest!: recv_chunk_base dest: order_trans)
qed

lemma discard_base [simp]:
  "rx_base (discard_chunks r) = rx_base r" "announced_weight (discard_chunks r) = 0"
  by (auto simp: discard_chunks_def weight_defs split: receiving.splits bool.splits)

lemma announced_le: "announced_weight r \<le> 4"
  by (simp add: announced_weight_def split: receiving.splits)

text \<open>What fetching a message costs.\<close>

definition rest_weight :: "('a, 'q) base_receiver \<Rightarrow> nat" where
  "rest_weight s = (if br_data s = NoData then 0 else 4) + (if br_item s = None then 0 else 4)"

lemma next_received_keeps:
  "next_received s = (Got x, s') \<Longrightarrow>
     br_recved s' = None \<and> br_data s' = br_data s \<and> br_item s' = br_item s \<and> rest_weight s' = rest_weight s"
  by (auto simp: next_received_def rest_weight_def split: option.splits prod.splits)

lemma next_received_chunks:
  assumes "next_received s = (Got (Some ReceivedChunks), s')"
  shows "rx_base (br_rx s') + 4 + rest_weight s \<le> base_weight s"
proof (cases "br_recved s")
  case None
  then show ?thesis
    using assms recv_any_weight [of "br_rx s" "Some ReceivedChunks" "br_rx s'"]
    by (auto simp: next_received_def base_weight_def rest_weight_def recved_weight_def split: prod.splits)
next
  case (Some x)
  then show ?thesis
    using assms by (auto simp: next_received_def base_weight_def rest_weight_def recved_weight_def)
qed

lemma next_received_other:
  assumes "next_received s = (Got (Some x), s')" "x \<noteq> ReceivedChunks"
  shows "base_weight s' + 4 \<le> base_weight s"
proof (cases "br_recved s")
  case None
  then show ?thesis
    using assms recv_any_weight [of "br_rx s" "Some x" "br_rx s'"] announced_le [of "br_rx s'"]
    by (auto simp: next_received_def base_weight_def recved_weight_def split: prod.splits)
next
  case (Some y)
  then show ?thesis
    using assms by (auto simp: next_received_def base_weight_def recved_weight_def)
qed

lemma base_weight_put: "base_weight (s\<lparr>br_data := d\<rparr>) \<le> base_weight s + 4"
  by (simp add: base_weight_def)

lemma recved_weight_None [simp]: "recved_weight None = 0"
  by (simp add: recved_weight_def)

lemma fetch_data_go:
  assumes "fetch_data th s = Go s'" "br_item s = None"
  shows "br_item s' = None \<and> (base_weight s' \<le> base_weight s \<or>
      ((\<exists>fed. br_data s' = StreamedData fed) \<and> rx_base (br_rx s') + recved_weight (br_recved s') + 4 \<le> base_weight s))"
  using assms next_received_keeps [of s] next_received_chunks [of s] next_received_other [of s]
  by (auto simp: fetch_data_def intro: order_trans [OF base_weight_put] rest_weight_def split: if_splits prod.splits recv_out.splits option.splits received.splits)

lemma fetch_data_restart:
  assumes "fetch_data th s = Restart s'"
  shows "base_weight s' < base_weight s"
  using assms next_received_other [of s]
  by (fastforce simp: fetch_data_def split: if_splits prod.splits recv_out.splits option.splits received.splits)

lemma take_decoded_go:
  "take_decoded res s = Go s' \<Longrightarrow>
     br_rx s' = br_rx s \<and> br_recved s' = br_recved s \<and> br_data s' = NoData \<and> br_item s' \<noteq> None"
  "take_decoded res s \<noteq> Restart s'"
  by (auto simp: take_decoded_def Let_def split: option.splits)

lemma get_item_go:
  assumes "get_item C gone s = Go s'" "br_item s = None"
  shows "br_item s' \<noteq> None \<and> br_data s' = NoData \<and> base_weight s' \<le> base_weight s \<and>
    ((\<exists>fed. br_data s = StreamedData fed) \<longrightarrow> base_weight s' \<le> rx_base (br_rx s) + recved_weight (br_recved s) + 4)"
  using assms
  by (auto simp: get_item_def base_weight_def Let_def dest!: take_decoded_go(1) feed_base
      split: data_source.splits option.splits if_splits prod.splits feed_end.splits recv_chunk_error.splits)

lemma get_item_restart:
  assumes "get_item C gone s = Restart s'" "br_item s = None"
  shows "base_weight s' < base_weight s \<and>
    ((\<exists>fed. br_data s = StreamedData fed) \<longrightarrow> base_weight s' \<le> rx_base (br_rx s) + recved_weight (br_recved s))"
  using assms
  by (auto simp: get_item_def base_weight_def Let_def take_decoded_go(2) dest!: feed_base
      split: data_source.splits option.splits if_splits prod.splits feed_end.splits recv_chunk_error.splits)

lemma connect_ports_weight:
  assumes "connect_ports req_id s = Restart s'" "br_item s \<noteq> None"
  shows "base_weight s' < base_weight s"
proof -
  obtain ids n x r where go: "recv_any ((br_rx s)\<lparr>rx_max_ports := n\<rparr>) = (Got x, r)"
    and x: "\<And>reqs. x \<noteq> Some (ReceivedRequests reqs)"
    and s': "s' = s\<lparr>br_rx := r, br_recved := Some x, br_data := NoData, br_item := None, br_expected := None\<rparr>"
    using assms(1)
    by (auto simp: connect_ports_def give_item_def Let_def split: option.splits list.splits prod.splits recv_out.splits
        received.splits if_splits)
  have "rx_base ((br_rx s)\<lparr>rx_max_ports := n\<rparr>) = rx_base (br_rx s)"
    "announced_weight ((br_rx s)\<lparr>rx_max_ports := n\<rparr>) = announced_weight (br_rx s)"
    by (simp_all add: weight_defs)
  then show ?thesis
    using recv_any_weight [OF go] assms(2) announced_le [of r] announced_le [of "br_rx s"] x
    by (cases x) (auto simp: base_weight_def recved_weight_def s')
qed

lemma connect_ports_go: "connect_ports req_id s \<noteq> Go s'"
  by (auto simp: connect_ports_def give_item_def Let_def split: option.splits list.splits prod.splits recv_out.splits
      received.splits)

lemma base_round_weight:
  assumes "base_round C req_id threads gone s = Restart s'"
  shows "base_weight s' < base_weight s"
  using assms fetch_data_go [of threads s] fetch_data_restart [of threads s] get_item_go [of C gone] get_item_restart [of C gone]
    connect_ports_weight [of req_id _ s']
  by (fastforce simp: base_round_def round_bind_def split: if_splits round_result.splits)

function recv_erased_loop :: "'a codec \<Rightarrow> ('q \<Rightarrow> u32) \<Rightarrow> bool \<Rightarrow> (bytes \<Rightarrow> bool) \<Rightarrow> ('a, 'q) base_receiver \<Rightarrow>
    ((base_recv_error + 'a option) polled \<times> ('a, 'q) base_receiver) exec" where
  "recv_erased_loop C req_id threads gone s =
     (case base_round C req_id threads gone s of
        Leave out s \<Rightarrow> Ret (out, s)
      | Restart s \<Rightarrow> recv_erased_loop C req_id threads gone s
      | _ \<Rightarrow> Panic)"
  by pat_completeness auto
termination
  by (relation "measure (\<lambda>(C, req_id, threads, gone, s). base_weight s)") (auto dest: base_round_weight)

declare recv_erased_loop.simps [simp del]

definition recv_erased :: "'a codec \<Rightarrow> ('q \<Rightarrow> u32) \<Rightarrow> bool \<Rightarrow> (bytes \<Rightarrow> bool) \<Rightarrow> ('a, 'q) base_receiver \<Rightarrow>
    ((base_recv_error + 'a option) polled \<times> ('a, 'q) base_receiver) exec" where
  "recv_erased C req_id threads gone s =
     recv_erased_loop C req_id threads gone
       (if br_default_max_ports s = None then s\<lparr>br_default_max_ports := Some (rx_max_ports (br_rx s))\<rparr> else s)"

end
