(* ===== verification/Base_Transfer.thy ===== *)
theory Base_Transfer
  imports Base SendProgress
begin

text \<open>
  Values over a base channel, from the sender to the receiver: what a send of a value puts on the
  wire, and what the receive loop makes of it, whether the value is sent in one piece or while it is
  serialised, and received in one piece or chunk by chunk, with the ports of its channels.
\<close>

section \<open>What a send puts on the wire\<close>

text \<open>The messages the multiplexer hands to the receiver for the events of a port sender; \<open>mk\<close> makes
  the request of a port that is sent.\<close>

fun received_msgs :: "(port_reply \<Rightarrow> 'q) \<Rightarrow> port_evt list \<Rightarrow> 'q port_receive_msg list" where
  "received_msgs mk [] = []"
| "received_msgs mk (SendData _ data f l credits # es) = DataMsg (deliver_data data f l credits) # received_msgs mk es"
| "received_msgs mk (SendPorts _ f l ps # es) =
     PortRequestsMsg \<lparr>rq_requests = map mk ps, rq_first = f, rq_last = l,
       rq_credit = \<lparr>upc_port = word_of_nat (length ps * 4), upc_global = 0\<rparr>\<rparr> # received_msgs mk es"
| "received_msgs mk (_ # es) = received_msgs mk es"

lemma received_msgs_append [simp]: "received_msgs mk (es @ es') = received_msgs mk es @ received_msgs mk es'"
  by (induction mk es rule: received_msgs.induct) auto

fun is_data_evt :: "port_evt \<Rightarrow> bool" where
  "is_data_evt (SendData _ _ _ _ _) = True"
| "is_data_evt _ = False"

lemma received_data: "list_all is_data_evt es \<Longrightarrow> received_msgs mk es = map DataMsg (delivered es)"
  by (induction es rule: delivered.induct) auto

lemma send_chunk_data:
  "send_chunk sd finish data s = Inr (rest, s') \<Longrightarrow> list_all is_data_evt (ss_acc s) \<Longrightarrow> list_all is_data_evt (ss_acc s')"
  using send_chunk_result [of sd finish data s rest s'] by auto

lemma send_chunk_data_end:
  "send_chunk sd finish data s = Inl (e, s') \<Longrightarrow> ss_acc s' = ss_acc s"
  by (auto simp: send_chunk_def send_evt_def request_credits_def Let_def
      split: sum.splits list.splits exec.splits if_splits bool.splits)

lemma send_loop_data:
  "send_loop sd finish data s = (e, s') \<Longrightarrow> list_all is_data_evt (ss_acc s) \<Longrightarrow> list_all is_data_evt (ss_acc s')"
proof (induction sd finish data s rule: send_loop.induct)
  case (1 sd finish data s)
  then show ?case
    by (cases "send_chunk sd finish data s")
      (auto simp: send_loop.simps [of sd finish data] split: if_splits dest: send_chunk_data send_chunk_data_end)
qed

lemma do_send_int_data:
  "do_send_int sd data finish s = (e, s') \<Longrightarrow> list_all is_data_evt (ss_acc s) \<Longrightarrow> list_all is_data_evt (ss_acc s')"
  by (auto simp: do_send_int_def send_empty_def send_evt_def request_credits_def dest: send_loop_data
      split: if_splits sum.splits list.splits exec.splits bool.splits)

lemma do_send_data: "do_send sd data env = (e, s') \<Longrightarrow> list_all is_data_evt (ss_acc s')"
  using do_send_int_data [of sd data True "start_sending env" e s']
  by (simp add: do_send_def do_send_int_def) (simp add: start_sending_def)

lemma send_stream_data:
  "send_stream sd n k chunks s = (e, s') \<Longrightarrow> list_all is_data_evt (ss_acc s) \<Longrightarrow> list_all is_data_evt (ss_acc s')"
proof (induction sd n k chunks s rule: send_stream.induct)
  case (2 sd n k chunk chunks s)
  obtain e1 s1 where "do_send_int sd chunk False s = (e1, s1)" by fastforce
  with 2 show ?case
    by (cases e1) (auto split: if_splits dest: do_send_int_data)
qed simp

text \<open>The requests of the ports of a value: in order, the first flagged as the first and the last as
  the last.\<close>

fun ports_run :: "bool \<Rightarrow> port_reply list \<Rightarrow> port_evt list \<Rightarrow> bool" where
  "ports_run f ports (SendPorts _ f' l ps # es) \<longleftrightarrow>
     f' = f \<and> (if l then es = [] \<and> ports = ps else \<exists>qs. ports = ps @ qs \<and> ports_run False qs es)"
| "ports_run f ports _ \<longleftrightarrow> False"

lemma connect_chunk_run:
  assumes "connect_chunk sd ports first ac env sent = Inr (left, ac', env', sent')"
  shows "\<exists>now. sent' = sent @ [SendPorts (sd_remote_port sd) first (left = []) now] \<and> ports = now @ left"
proof -
  obtain n where left: "left = (if length ports > n then drop n ports else [])"
    "sent' = sent @ [SendPorts (sd_remote_port sd) first (left = []) (if length ports > n then take n ports else ports)]"
    using assms
    unfolding connect_chunk_def Let_def
    by (auto simp del: drop_eq_Nil drop_eq_Nil2 split: sum.splits list.splits exec.splits bool.splits)
  show ?thesis
    unfolding left(2) by (intro exI conjI, rule refl) (simp add: left(1))
qed

lemma connect_chunk_end:
  assumes "connect_chunk sd ports first ac env sent = Inl (e, evts)"
  shows "e \<noteq> AllSent"
  using assms
  unfolding connect_chunk_def Let_def
  by (cases "ac_credits ac = 0") (auto split: sum.splits list.splits exec.splits bool.splits)

lemma connect_loop_run:
  "connect_loop sd ports first ac env sent = (AllSent, evts) \<Longrightarrow> ports \<noteq> [] \<Longrightarrow>
     \<exists>es. evts = sent @ es \<and> ports_run first ports es"
proof (induction sd ports first ac env sent rule: connect_loop.induct)
  case (1 sd ports first ac env sent)
  show ?case
  proof (cases "connect_chunk sd ports first ac env sent")
    case (Inl r)
    with "1.prems" connect_chunk_end [of sd ports first ac env sent AllSent evts] show ?thesis
      by (simp add: connect_loop.simps [of sd ports])
  next
    case (Inr c)
    obtain left ac' env' sent' where c: "c = (left, ac', env', sent')" by (cases c) auto
    from connect_chunk_run [OF Inr [unfolded c]] obtain now where
      now: "sent' = sent @ [SendPorts (sd_remote_port sd) first (left = []) now]" "ports = now @ left"
      by blast
    have loop: "connect_loop sd left False ac' env' sent' = (AllSent, evts)"
      using "1.prems" Inr c by (simp add: connect_loop.simps [of sd ports])
    show ?thesis
    proof (cases "left = []")
      case True
      with loop now show ?thesis
        by (intro exI [of _ "[SendPorts (sd_remote_port sd) first True now]"]) (simp add: connect_loop.simps)
    next
      case False
      from "1.IH" [OF "1.prems"(2) Inr c [symmetric] refl refl loop False] now False show ?thesis by auto
    qed
  qed
qed

lemma do_connect_run:
  "do_connect sd ports env = (AllSent, evts) \<Longrightarrow> ports \<noteq> [] \<Longrightarrow> ports_run True ports evts"
  using connect_loop_run [OF do_connect_sent] by simp

section \<open>A value on the wire\<close>

lemma concat_buffered_writes: "concat (buffered_writes n ws buf) = buf @ concat ws"
proof (induction n ws buf rule: buffered_writes.induct)
  case (2 n w ws buf)
  then show ?case by (cases buf; cases w) (auto simp: Let_def)
qed simp

lemma limited_overflown: "lw_overflown lw \<Longrightarrow> lw_overflown (fold limited_write ws lw)"
  by (induction ws arbitrary: lw) (auto simp: limited_write_def)

lemma limited_content:
  "\<not> lw_overflown (fold limited_write ws lw) \<Longrightarrow> lw_buf (fold limited_write ws lw) = lw_buf lw @ concat ws"
proof (induction ws arbitrary: lw)
  case (Cons w ws)
  then have "\<not> lw_overflown (limited_write w lw)"
    using limited_overflown [of "limited_write w lw" ws] by auto
  with Cons show ?case by (auto simp: limited_write_def split: if_splits)
qed simp

lemma serialize_buffered_content:
  assumes "serialize_buffered C x lim capacity = Inr (Some (data, ports))"
  shows "data = concat (cd_writes C False x) \<and> cd_ports C False x = Some ports"
  using assms limited_content [of "buffered_writes (max 512 (min 8192 capacity)) (cd_writes C False x) []" "new_limited lim"]
  by (auto simp: serialize_buffered_def limited_into_inner_def new_limited_def concat_buffered_writes Let_def
      split: if_splits option.splits)

text \<open>The events of a value that has been sent: its bytes as one message, then the ports.\<close>

definition value_events :: "'a codec \<Rightarrow> 'a \<Rightarrow> nat \<Rightarrow> port_evt list \<Rightarrow> bool" where
  "value_events C x n evts \<longleftrightarrow>
     (\<exists>st ports es es'. cd_ports C st x = Some ports \<and> evts = es @ es' \<and> list_all is_data_evt es \<and>
        is_message (delivered es) True \<and> content (delivered es) = concat (cd_writes C st x) \<and>
        length (content (delivered es)) \<le> n \<and>
        (if ports = [] then es' = [] else ports_run True ports es'))"

lemma base_end_sent: "base_end_of sd e = BaseSent \<Longrightarrow> e = AllSent"
  by (auto simp: base_end_of_def handle_pre_connect_result_def split: send_end.splits option.splits pre_connect_state.splits)

lemma send_requests_sent:
  assumes "send_requests sd ports cenv sent = (BaseSent, evts)"
  shows "\<exists>es'. evts = sent @ es' \<and> (if ports = [] then es' = [] else ports_run True ports es')"
  using assms base_end_sent [of sd] do_connect_run [of sd ports cenv]
  by (auto simp: send_requests_def split: if_splits prod.splits)

lemma send_stream_message:
  "send_stream sd n k chunks s = (StreamDone, s') \<Longrightarrow>
     k + length (concat chunks) \<le> max n k \<and> (\<exists>es. ss_acc s' = ss_acc s @ es \<and>
       (if chunks = [] then es = [] \<and> ss_first s' = ss_first s
        else sent_chunks sd (ss_first s) False (concat chunks) es \<and> \<not> ss_first s'))"
proof (induction sd n k chunks s rule: send_stream.induct)
  case (2 sd n k chunk chunks s)
  obtain e s1 where s1: "do_send_int sd chunk False s = (e, s1)" by fastforce
  with "2.prems" have e: "e = AllSent" and k: "\<not> n < k + length chunk"
    and loop: "send_stream sd n (k + length chunk) chunks s1 = (StreamDone, s')"
    by (auto split: if_splits send_end.splits)
  from do_send_int_chunks [OF s1 [unfolded e]] obtain es where
    es: "ss_acc s1 = ss_acc s @ es" "sent_chunks sd (ss_first s) False chunk es" "\<not> ss_first s1"
    by blast
  have IH: "k + length chunk + length (concat chunks) \<le> max n (k + length chunk) \<and> (\<exists>es. ss_acc s' = ss_acc s1 @ es \<and>
       (if chunks = [] then es = [] \<and> ss_first s' = ss_first s1
        else sent_chunks sd (ss_first s1) False (concat chunks) es \<and> \<not> ss_first s'))"
    using "2.IH" k s1 e loop by simp
  then obtain es' where es': "ss_acc s' = ss_acc s1 @ es'"
    "if chunks = [] then es' = [] \<and> ss_first s' = ss_first s1
     else sent_chunks sd (ss_first s1) False (concat chunks) es' \<and> \<not> ss_first s'"
    by blast
  then show ?case
    using es IH k sent_chunks_append [OF es(2), of False "concat chunks" es'] by (auto split: if_splits)
qed simp

lemma value_eventsI:
  assumes "cd_ports C st x = Some ports" "list_all is_data_evt es" "is_message (delivered es) True"
    "content (delivered es) = concat (cd_writes C st x)" "length (content (delivered es)) \<le> n"
    "\<exists>es'. evts = es @ es' \<and> (if ports = [] then es' = [] else ports_run True ports es')"
  shows "value_events C x n evts"
  using assms unfolding value_events_def by blast

lemma send_buffered_events:
  assumes "send_buffered s data ports env cenv = (BaseSent, evts)"
    "data = concat (cd_writes C False x)" "cd_ports C False x = Some ports"
  shows "value_events C x (bs_max_item_size s) evts"
proof -
  obtain e st where st: "do_send (bs_sender s) data env = (e, st)" by fastforce
  with assms(1) have e: "e = AllSent" and size: "length data \<le> bs_max_item_size s"
    and ports: "send_requests (bs_sender s) ports cenv (ss_acc st) = (BaseSent, evts)"
    by (auto simp: send_buffered_def split: if_splits send_end.splits dest: base_end_sent)
  show ?thesis
    using do_send_message [OF st [unfolded e]] do_send_data [OF st] send_requests_sent [OF ports] size assms(2,3)
    by (intro value_eventsI) auto
qed

lemma send_streaming_events:
  assumes "send_streaming C threads x s env cenv = (BaseSent, s', evts)"
  shows "value_events C x (bs_max_item_size s) evts \<and> bs_sender s' = bs_sender s \<and> bs_max_item_size s' = bs_max_item_size s"
proof -
  let ?chunks = "buffered_writes (sd_chunk_size (bs_sender s)) (cd_writes C True x) []"
  obtain e st where stream0: "send_stream (bs_sender s) (bs_max_item_size s) 0 (if threads then ?chunks else []) (start_sending env) = (e, st)"
    by fastforce
  with assms have stream1: "e = StreamDone"
    by (auto simp: send_streaming_def Let_def base_end_of_def handle_pre_connect_result_def
        split: stream_end.splits option.splits pre_connect_state.splits)
  then obtain ports where threads: "threads" "cd_ports C True x = Some ports"
    using assms stream0 by (cases threads; cases "cd_ports C True x") (auto simp: send_streaming_def Let_def)
  have stream: "send_stream (bs_sender s) (bs_max_item_size s) 0 ?chunks (start_sending env) = (StreamDone, st)"
    using stream0 stream1 threads by simp
  obtain e' st' where final0: "do_send_int (bs_sender s) [] True st = (e', st')" by fastforce
  with assms stream threads have final1: "e' = AllSent"
    by (auto simp: send_streaming_def Let_def split: send_end.splits dest: base_end_sent)
  have final: "do_send_int (bs_sender s) [] True st = (AllSent, st')"
    using final0 final1 by simp
  have requests: "send_requests (bs_sender s) ports cenv (ss_acc st') = (BaseSent, evts)"
    and s': "bs_sender s' = bs_sender s" "bs_max_item_size s' = bs_max_item_size s"
    using assms stream final threads
    by (auto simp: send_streaming_def Let_def split: prod.splits if_splits)
  have data: "list_all is_data_evt (ss_acc st')"
    using do_send_int_data [OF final] send_stream_data [OF stream] by (simp add: start_sending_def)
  have start: "ss_first (start_sending env)" "ss_acc (start_sending env) = []"
    by (simp_all add: start_sending_def)
  from send_stream_message [OF stream] start obtain es where
    es: "ss_acc st = es" "length (concat ?chunks) \<le> bs_max_item_size s"
      "if ?chunks = [] then es = [] \<and> ss_first st else sent_chunks (bs_sender s) True False (concat ?chunks) es \<and> \<not> ss_first st"
    by (auto split: if_splits)
  from do_send_int_chunks [OF final] obtain es' where
    es': "ss_acc st' = ss_acc st @ es'" "sent_chunks (bs_sender s) (ss_first st) True [] es'"
    by blast
  have "sent_chunks (bs_sender s) True True (concat ?chunks) (es @ es')"
    using es(3) es'(2) sent_chunks_append [of "bs_sender s" True "concat ?chunks" es True "[]" es']
    by (auto split: if_splits)
  then have "is_message (delivered (ss_acc st')) True \<and> content (delivered (ss_acc st')) = concat ?chunks"
    using es(1) es'(1) by (auto simp: sent_chunks_def simp del: delivered_append)
  then show ?thesis
    using threads(2) data send_requests_sent [OF requests] es(2) s'
    by (auto simp: concat_buffered_writes intro!: value_eventsI)
qed

lemma send_erased_events:
  assumes "send_erased C threads x s env cenv = (BaseSent, s', evts)"
  shows "value_events C x (bs_max_item_size s) evts \<and> bs_sender s' = bs_sender s \<and> bs_max_item_size s' = bs_max_item_size s"
proof -
  have buffered: "value_events C x (bs_max_item_size s) evts"
    if "serialize_buffered C x n k = Inr (Some (data, ports))"
      "send_buffered (s\<lparr>bs_big_data := i, bs_last_size := j\<rparr>) data ports env cenv = (BaseSent, evts)" for n k data ports i j
    using send_buffered_events [OF that(2), of C x] serialize_buffered_content [OF that(1)] by auto
  show ?thesis
    using assms buffered
    by (auto simp: send_erased_def Let_def split: if_splits sum.splits option.splits prod.splits dest: send_streaming_events)
qed

section \<open>What the receiver makes of it\<close>

text \<open>A codec reads back what it has written: of a prefix of the bytes it wants more, or knows the
  answer already.\<close>

definition codec_reads :: "'a codec \<Rightarrow> bytes \<Rightarrow> 'a \<times> u32 list \<Rightarrow> bool" where
  "codec_reads C wire res \<longleftrightarrow>
     (\<forall>p q. p @ q = wire \<longrightarrow>
        (cd_parse C p = NeedMore \<and> (q = [] \<longrightarrow> cd_end C p = Some res)) \<or> cd_parse C p = Parsed res)"

lemma codec_reads_prefix:
  fixes C :: "'a codec"
  assumes "codec_reads C wire res" "p @ q = wire" "cd_parse C p \<noteq> NeedMore"
  shows "decode_value C p = Some res"
proof -
  have "cd_parse C p = Parsed res"
    using assms unfolding codec_reads_def by blast
  then show ?thesis by (simp add: decode_value_def)
qed

lemma codec_reads_decode:
  fixes C :: "'a codec"
  assumes "codec_reads C wire res"
  shows "decode_value C wire = Some res"
proof (cases "cd_parse C wire = NeedMore")
  case True
  then have "cd_end C wire = Some res"
    using assms unfolding codec_reads_def by (metis append_Nil2 parse.distinct(1))
  with True show ?thesis by (simp add: decode_value_def)
next
  case False
  then show ?thesis using codec_reads_prefix [OF assms, of wire "[]"] by simp
qed

lemma feed_gone:
  fixes C :: "'a codec"
  assumes "codec_reads C (fed @ q) res" "gone fed" "cd_parse C fed \<noteq> NeedMore"
  shows "feed C n gone fed r = (FeedDone, fed, r) \<and> decode_value C fed = Some res"
  using assms(2,3) codec_reads_prefix [OF assms(1) refl assms(3)] by (simp add: feed.simps)

lemma feed_queue:
  "connected r \<Longrightarrow> rx_receiving r = RecvChunks [] l True \<Longrightarrow> continues l ds True \<Longrightarrow>
     rx_queue r = map DataMsg ds @ rest \<Longrightarrow> codec_reads C wire res \<Longrightarrow> fed @ content ds = wire \<Longrightarrow> length wire \<le> n \<Longrightarrow>
     \<exists>fed' r' ds1 ds2. feed C n gone fed r = (FeedDone, fed', r') \<and> decode_value C fed' = Some res \<and> ds = ds1 @ ds2 \<and>
       discard_chunks r' = after r ds1 RecvNothing (map DataMsg ds2 @ rest)"
proof (induction ds arbitrary: r l fed)
  case (Cons d ds)
  show ?case
  proof (cases "gone fed \<and> cd_parse C fed \<noteq> NeedMore")
    case True
    then show ?thesis
      using feed_gone [of C fed "content (d # ds)" res gone n r] Cons.prems(2,4,5,6)
      by (intro exI [of _ fed] exI [of _ r] exI [of _ "[]"] exI [of _ "d # ds"])
        (simp add: discard_chunks_def after_def)
  next
    case False
    define r1 where "r1 = after r [d] (RecvChunks [] (rd_last d) True) (map DataMsg ds @ rest)"
    have "recv_chunk r = (Got (Some (rd_buf d)), r1)"
      using Cons.prems by (simp add: recv_chunk_next r1_def)
    then have step: "feed C n gone fed r = feed C n gone (fed @ rd_buf d) r1"
      using False Cons.prems(6,7) by (auto simp: feed.simps [of C n gone fed r])
    obtain fed' r' ds1 ds2 where "feed C n gone (fed @ rd_buf d) r1 = (FeedDone, fed', r')" "decode_value C fed' = Some res"
      "ds = ds1 @ ds2" "discard_chunks r' = after r1 ds1 RecvNothing (map DataMsg ds2 @ rest)"
      using Cons.IH [of r1 "rd_last d" "fed @ rd_buf d"] Cons.prems by (auto simp: r1_def)
    then show ?thesis
      using step by (intro exI [of _ fed'] exI [of _ r'] exI [of _ "d # ds1"] exI [of _ ds2]) (simp add: r1_def)
  qed
next
  case Nil
  have dec: "decode_value C fed = Some res"
    using Nil by (auto intro: codec_reads_decode)
  show ?case
  proof (cases "gone fed \<and> cd_parse C fed \<noteq> NeedMore")
    case True
    then show ?thesis
      using feed_gone [of C fed "[]" res gone n r] Nil
      by (intro exI [of _ fed] exI [of _ r] exI [of _ "[]"]) (simp add: discard_chunks_def after_def)
  next
    case False
    have "recv_chunk r = (Got None, r\<lparr>rx_receiving := RecvNothing\<rparr>)"
      using Nil recv_chunk_done [of r True] by simp
    then have "feed C n gone fed r = (FeedDone, fed, r\<lparr>rx_receiving := RecvNothing\<rparr>)"
      using False by (auto simp: feed.simps [of C n gone fed r])
    then show ?thesis
      using Nil dec by (intro exI [of _ fed] exI [of _ "r\<lparr>rx_receiving := RecvNothing\<rparr>"] exI [of _ "[]"])
        (simp add: discard_chunks_def after_def)
  qed
qed

lemma feed_all:
  "connected r \<Longrightarrow> rx_receiving r = RecvChunks cs l True \<Longrightarrow> continues l ds True \<Longrightarrow>
     rx_queue r = map DataMsg ds @ rest \<Longrightarrow> codec_reads C wire res \<Longrightarrow> fed @ concat cs @ content ds = wire \<Longrightarrow>
     length wire \<le> n \<Longrightarrow>
     \<exists>fed' r' ds1 ds2. feed C n gone fed r = (FeedDone, fed', r') \<and> decode_value C fed' = Some res \<and> ds = ds1 @ ds2 \<and>
       discard_chunks r' = after r ds1 RecvNothing (map DataMsg ds2 @ rest)"
proof (induction cs arbitrary: r fed)
  case Nil
  then show ?case using feed_queue [of r l ds rest C wire res fed n gone] by simp
next
  case (Cons c cs)
  show ?case
  proof (cases "gone fed \<and> cd_parse C fed \<noteq> NeedMore")
    case True
    then show ?thesis
      using feed_gone [of C fed "concat (c # cs) @ content ds" res gone n r] Cons.prems(2,4,5,6)
      by (intro exI [of _ fed] exI [of _ r] exI [of _ "[]"] exI [of _ ds])
        (simp add: discard_chunks_def after_def)
  next
    case False
    define r1 where "r1 = r\<lparr>rx_receiving := RecvChunks cs l True\<rparr>"
    have "recv_chunk r = (Got (Some c), r1)"
      using Cons.prems by (simp add: recv_chunk_at_hand r1_def)
    then have step: "feed C n gone fed r = feed C n gone (fed @ c) r1"
      using False Cons.prems(6,7) by (auto simp: feed.simps [of C n gone fed r])
    obtain fed' r' ds1 ds2 where "feed C n gone (fed @ c) r1 = (FeedDone, fed', r')" "decode_value C fed' = Some res"
      "ds = ds1 @ ds2" "discard_chunks r' = after r1 ds1 RecvNothing (map DataMsg ds2 @ rest)"
      using Cons.IH [of r1 "fed @ c"] Cons.prems by (auto simp: r1_def)
    then show ?thesis
      using step by (intro exI [of _ fed'] exI [of _ r'] exI [of _ ds1] exI [of _ ds2]) (simp add: r1_def)
  qed
qed

text \<open>A receiver between two values: its queue may begin with the rest of a value that was understood
  before its end.\<close>

definition between :: "('a, 'q) base_receiver \<Rightarrow> 'q port_receive_msg list \<Rightarrow> bool" where
  "between s queue \<longleftrightarrow>
     idle (br_rx s) \<and> br_recved s = None \<and> br_data s = NoData \<and> br_item s = None \<and>
     (\<exists>junk. (\<forall>d \<in> set junk. \<not> rd_first d) \<and> rx_queue (br_rx s) = map DataMsg junk @ queue)"

lemma idle_fields: "idle (r\<lparr>rx_max_ports := n, rx_queue := q, rx_calls := c\<rparr>) = idle r"
  "idle (r\<lparr>rx_queue := q, rx_receiving := RecvNothing, rx_calls := c\<rparr>) =
     (\<not> rx_finished r \<and> wait_pre_connect_done r = Got ())"
  by (simp_all add: idle_def wait_pre_connect_done_def)

lemma recv_any_junk:
  assumes "idle r" "\<forall>d \<in> set junk. \<not> rd_first d" "rx_queue r = map DataMsg junk @ queue"
  shows "recv_any r = recv_any_loop queue (after r junk RecvNothing (rx_queue r))"
  using assms recv_any_loop_skip [of junk r queue] by (simp add: recv_any_idle) (simp add: idle_def)

lemma take_decoded_same:
  "br_data s = NoData \<Longrightarrow> take_decoded (Some (x, ids)) (s\<lparr>br_data := d, br_rx := r\<rparr>) =
     Go (s\<lparr>br_rx := r, br_item := Some x, br_expected := Some ids\<rparr>)"
  by (cases s) (simp add: take_decoded_def)

text \<open>The message of a value is fetched and decoded.\<close>

lemma value_fetched:
  assumes "between s (map DataMsg ds @ rest)" "is_message ds True" "codec_reads C (content ds) (x, ids)"
    "length (content ds) \<le> br_max_item_size s" "rx_max_data_size (br_rx s) \<le> usize_max"
  shows "\<exists>r. round_bind (fetch_data True s) (get_item C gone) =
       Go (s\<lparr>br_rx := r, br_item := Some x, br_expected := Some ids\<rparr>) \<and> idle r \<and>
     (\<exists>junk. (\<forall>d \<in> set junk. \<not> rd_first d) \<and> rx_queue r = map DataMsg junk @ rest) \<and>
     rx_max_data_size r = rx_max_data_size (br_rx s)"
proof -
  from assms(1) obtain junk where s: "idle (br_rx s)" "br_recved s = None" "br_data s = NoData" "br_item s = None"
    and junk: "\<forall>d \<in> set junk. \<not> rd_first d" "rx_queue (br_rx s) = map DataMsg junk @ map DataMsg ds @ rest"
    by (auto simp: between_def)
  define r0 where "r0 = after (br_rx s) junk RecvNothing (rx_queue (br_rx s))"
  have any: "recv_any (br_rx s) = recv_any_loop (map DataMsg ds @ rest) r0"
    using recv_any_junk [OF s(1) junk] by (simp add: r0_def)
  have idle0: "idle r0" using idle_after [OF s(1)] by (simp add: r0_def)
  show ?thesis
  proof (cases "length (content ds) \<le> min (rx_max_data_size r0) usize_max")
    case True
    from recv_any_loop_message [OF assms(2) True, of rest] any obtain b where
      b: "recv_any (br_rx s) = (Got (Some (ReceivedDataBuf b)), after r0 ds RecvNothing rest)"
      "bf_bufs b = map rd_buf ds" "bf_remaining b = length (content ds)"
      by auto
    have "buf_bytes b = content ds"
      using b(2) by (auto simp: buf_bytes_def content_def split: list.splits)
    then show ?thesis
      using s b codec_reads_decode [OF assms(3)] assms(4) idle_after [OF idle0, of ds rest]
      by (intro exI [of _ "after r0 ds RecvNothing rest"])
        (simp add: fetch_data_def next_received_def get_item_def take_decoded_def round_bind_def, simp add: r0_def)
  next
    case False
    then have "min (rx_max_data_size r0) usize_max < length (content ds)" by (simp only: not_le)
    from recv_any_loop_message_large [OF assms(2) this, of rest] any
    obtain ds1 ds2 where ds: "ds = ds1 @ ds2" "continues (rd_last (last ds1)) ds2 True"
      and chunks: "recv_any (br_rx s) = (Got (Some ReceivedChunks),
        after r0 ds1 (RecvChunks (map rd_buf ds1) (rd_last (last ds1)) True) (map DataMsg ds2 @ rest))"
      by auto
    define r1 where "r1 = after r0 ds1 (RecvChunks (map rd_buf ds1) (rd_last (last ds1)) True) (map DataMsg ds2 @ rest)"
    obtain fed' r' ds3 ds4 where
      fed: "feed C (br_max_item_size s) gone [] r1 = (FeedDone, fed', r')" "decode_value C fed' = Some (x, ids)"
        "ds2 = ds3 @ ds4" "discard_chunks r' = after r1 ds3 RecvNothing (map DataMsg ds4 @ rest)"
      using feed_all [of r1 "map rd_buf ds1" "rd_last (last ds1)" ds2 rest C "content ds" "(x, ids)" "[]" "br_max_item_size s" gone]
        idle_connected [OF idle0] assms(3,4) ds
      by (auto simp: r1_def content_def)
    have "\<forall>d \<in> set ds4. \<not> rd_first d"
      using continues_not_first [OF ds(2)] fed(3) by auto
    then show ?thesis
      using s chunks fed idle_after [OF idle0]
      by (intro exI [of _ "discard_chunks r'"])
        (auto simp: fetch_data_def next_received_def get_item_def take_decoded_def round_bind_def r1_def [symmetric],
          auto simp: r1_def r0_def take_decoded_same)
  qed
qed

text \<open>The requests of the ports arrive together.\<close>

lemma recv_any_loop_requests:
  "ports_run f ports es \<Longrightarrow> (if f then reqs = [] else rx_receiving r = RecvRequests reqs) \<Longrightarrow>
     length reqs + length ports \<le> rx_max_ports r \<Longrightarrow>
     \<exists>calls. recv_any_loop (received_msgs mk es @ rest) r =
       (Got (Some (ReceivedRequests (reqs @ map mk ports))),
        r\<lparr>rx_queue := rest, rx_receiving := RecvNothing, rx_calls := calls\<rparr>)"
proof (induction f ports es arbitrary: r reqs rule: ports_run.induct)
  case (1 f ports p f' l ps es)
  show ?case
  proof (cases l)
    case True
    then show ?thesis
      using "1.prems" by (cases r) (auto simp: any_requests_def log_calls_def Let_def split: if_splits)
  next
    case False
    then obtain qs where qs: "ports = ps @ qs" "ports_run False qs es" "f' = f"
      using "1.prems"(1) by auto
    let ?m = "\<lparr>rq_requests = map mk ps, rq_first = f, rq_last = l,
       rq_credit = \<lparr>upc_port = word_of_nat (length ps * 4), upc_global = 0\<rparr>\<rparr>"
    define r1 where "r1 = log_calls [StartReturn (rq_credit ?m)] (r\<lparr>rx_receiving := RecvRequests (reqs @ map mk ps)\<rparr>)"
    have "any_requests r ?m = (None, RecvRequests (reqs @ map mk ps))"
      using "1.prems"(2,3) False qs(1) by (auto simp: any_requests_def Let_def split: if_splits)
    then have "recv_any_loop (received_msgs mk (SendPorts p f' l ps # es) @ rest) r = recv_any_loop (received_msgs mk es @ rest) r1"
      using qs(3) by (simp add: r1_def Let_def)
    moreover have "\<exists>calls. recv_any_loop (received_msgs mk es @ rest) r1 =
       (Got (Some (ReceivedRequests ((reqs @ map mk ps) @ map mk qs))),
        r1\<lparr>rx_queue := rest, rx_receiving := RecvNothing, rx_calls := calls\<rparr>)"
      using "1.prems"(3) qs False by (intro "1.IH") (auto simp: r1_def log_calls_def)
    ultimately show ?thesis
      using qs(1) by (auto simp: r1_def log_calls_def)
  qed
qed simp_all

lemma accept_all_requests:
  "distinct (map req_id reqs) \<Longrightarrow> set (map req_id reqs) = set ids \<Longrightarrow> accept_requests req_id reqs ids = (reqs, [])"
proof (induction reqs arbitrary: ids)
  case (Cons q reqs)
  then have q: "req_id q \<notin> set (map req_id reqs)" "set (map req_id (q # reqs)) = set ids" by simp_all
  then have "set (map req_id reqs) = set (removeAll (req_id q) ids)"
    by (metis Diff_insert_absorb list.set(2) list.simps(9) set_removeAll)
  then have "accept_requests req_id reqs (removeAll (req_id q) ids) = (reqs, [])"
    using Cons by simp
  then show ?case using q(2) by auto
qed simp

lemma ports_connected:
  assumes s: "br_item s = Some x" "br_expected s = Some (map (req_id \<circ> mk) ports)" "br_default_max_ports s = Some n"
      "br_recved s = None" "br_data s = NoData"
    and r: "idle (br_rx s)" "\<forall>d \<in> set junk. \<not> rd_first d" "rx_queue (br_rx s) = map DataMsg junk @ received_msgs mk es @ rest"
    and ports: "if ports = [] then es = [] else ports_run True ports es" "distinct (map (req_id \<circ> mk) ports)"
  shows "\<exists>s'. connect_ports req_id s = Leave (Ready (Inr (Some x))) s' \<and> between s' rest \<and>
     br_accepted s' = br_accepted s @ map mk ports \<and> br_max_item_size s' = br_max_item_size s \<and>
     rx_max_data_size (br_rx s') = rx_max_data_size (br_rx s) \<and> br_default_max_ports s' = Some n"
proof (cases "ports = []")
  case True
  then show ?thesis
    using s r ports by (auto simp: connect_ports_def give_item_def between_def)
next
  case False
  define r1 where "r1 = (br_rx s)\<lparr>rx_max_ports := length ports + n\<rparr>"
  have r1: "idle r1" "rx_queue r1 = map DataMsg junk @ received_msgs mk es @ rest"
    using r by (simp_all add: r1_def idle_def wait_pre_connect_done_def)
  obtain calls where any: "recv_any r1 = (Got (Some (ReceivedRequests (map mk ports))),
      (after r1 junk RecvNothing (rx_queue r1))\<lparr>rx_queue := rest, rx_receiving := RecvNothing, rx_calls := calls\<rparr>)"
    using recv_any_junk [OF r1(1) r(2) r1(2)] False ports(1)
      recv_any_loop_requests [of True ports es "[]" "after r1 junk RecvNothing (rx_queue r1)" mk rest]
    by (auto simp: r1_def after_def)
  define r2 where "r2 = (after r1 junk RecvNothing (rx_queue r1))\<lparr>rx_queue := rest, rx_receiving := RecvNothing, rx_calls := calls\<rparr>"
  define s2 where "s2 = s\<lparr>br_rx := r2, br_expected := Some [], br_accepted := br_accepted s @ map mk ports, br_item := None\<rparr>"
  have "accept_requests req_id (map mk ports) (map (req_id \<circ> mk) ports) = (map mk ports, [])"
    using ports(2) by (intro accept_all_requests) simp_all
  then have "connect_ports req_id s = Leave (Ready (Inr (Some x))) s2"
    using False s any [folded r2_def]
    by (auto simp: connect_ports_def give_item_def Let_def s2_def r1_def split: list.splits)
  moreover have "idle r2 \<and> rx_queue r2 = rest \<and> rx_max_data_size r2 = rx_max_data_size (br_rx s)"
    using r1(1) by (simp add: r2_def idle_def wait_pre_connect_done_def after_def) (simp add: r1_def)
  ultimately show ?thesis
    using s by (auto simp: between_def s2_def)
qed

section \<open>Values in order\<close>

text \<open>A codec carries a value: whatever ports it allocates for it have different ids, and what it
  writes is read back as the value and these ids.\<close>

definition codec_carries :: "'a codec \<Rightarrow> (port_reply \<Rightarrow> u32) \<Rightarrow> 'a \<Rightarrow> bool" where
  "codec_carries C port_id x \<longleftrightarrow>
     (\<forall>st ports. cd_ports C st x = Some ports \<longrightarrow>
        distinct (map port_id ports) \<and> codec_reads C (concat (cd_writes C st x)) (x, map port_id ports))"

lemma ports_run_of: "ports_run f ports es \<Longrightarrow> ports_of es = ports"
  by (induction f ports es rule: ports_run.induct) (auto split: if_splits)

lemma data_ports_of: "list_all is_data_evt es \<Longrightarrow> ports_of es = []"
  by (induction es rule: ports_of.induct) auto

lemma value_received:
  assumes evts: "value_events C x n evts" "codec_carries C (req_id \<circ> mk) x"
    and s: "between s (received_msgs mk evts @ rest)" "n \<le> br_max_item_size s" "rx_max_data_size (br_rx s) \<le> usize_max"
  shows "\<exists>s'. recv_erased C req_id True gone s = Ret (Ready (Inr (Some x)), s') \<and> between s' rest \<and>
     br_accepted s' = br_accepted s @ map mk (ports_of evts) \<and> br_max_item_size s' = br_max_item_size s \<and>
     rx_max_data_size (br_rx s') = rx_max_data_size (br_rx s)"
proof -
  from evts(1) obtain st ports es es' where ports: "cd_ports C st x = Some ports" and evts_eq: "evts = es @ es'"
    and data: "list_all is_data_evt es" and msg: "is_message (delivered es) True"
      "content (delivered es) = concat (cd_writes C st x)" "length (content (delivered es)) \<le> n"
    and run: "if ports = [] then es' = [] else ports_run True ports es'"
    by (auto simp: value_events_def)
  have carries: "distinct (map (req_id \<circ> mk) ports)" "codec_reads C (content (delivered es)) (x, map (req_id \<circ> mk) ports)"
    using evts(2) ports msg(2) by (simp_all add: codec_carries_def)
  have ports_of: "ports_of evts = ports"
    using data data_ports_of run ports_run_of by (auto simp: evts_eq split: if_splits)
  define s0 where "s0 = (if br_default_max_ports s = None then s\<lparr>br_default_max_ports := Some (rx_max_ports (br_rx s))\<rparr> else s)"
  have s0: "between s0 (map DataMsg (delivered es) @ received_msgs mk es' @ rest)" "br_max_item_size s0 = br_max_item_size s"
    "br_rx s0 = br_rx s" "br_accepted s0 = br_accepted s" "br_item s0 = None" "br_recved s0 = None" "br_data s0 = NoData"
    using s(1) by (auto simp: s0_def between_def evts_eq received_data [OF data])
  obtain k where k: "br_default_max_ports s0 = Some k"
    by (cases "br_default_max_ports s") (auto simp: s0_def)
  from value_fetched [OF s0(1) msg(1) carries(2), of gone] s msg(3) s0 obtain r junk where
    fetched: "round_bind (fetch_data True s0) (get_item C gone) =
       Go (s0\<lparr>br_rx := r, br_item := Some x, br_expected := Some (map (req_id \<circ> mk) ports)\<rparr>)"
    and r: "idle r" "\<forall>d \<in> set junk. \<not> rd_first d" "rx_queue r = map DataMsg junk @ received_msgs mk es' @ rest"
      "rx_max_data_size r = rx_max_data_size (br_rx s)"
    by auto
  define s1 where "s1 = s0\<lparr>br_rx := r, br_item := Some x, br_expected := Some (map (req_id \<circ> mk) ports)\<rparr>"
  obtain s' where s': "connect_ports req_id s1 = Leave (Ready (Inr (Some x))) s'" "between s' rest"
     "br_accepted s' = br_accepted s @ map mk ports" "br_max_item_size s' = br_max_item_size s"
     "rx_max_data_size (br_rx s') = rx_max_data_size (br_rx s)"
    using ports_connected [of s1 x req_id mk ports k junk es' rest] r run carries(1) k s0 by (auto simp: s1_def)
  have "base_round C req_id True gone s0 = Leave (Ready (Inr (Some x))) s'"
    using fetched s'(1) s0(5) by (simp add: base_round_def s1_def [symmetric]) (simp add: round_bind_def)
  then show ?thesis
    using s' ports_of by (simp add: recv_erased_def s0_def [symmetric] recv_erased_loop.simps)
qed

text \<open>Sending values one after the other, and receiving a number of values.\<close>

fun send_values :: "'a codec \<Rightarrow> bool \<Rightarrow> ('a \<times> send_env \<times> connect_env) list \<Rightarrow> base_sender \<Rightarrow>
    (base_sender \<times> port_evt list) option" where
  "send_values C threads [] s = Some (s, [])"
| "send_values C threads ((x, env, cenv) # vs) s =
     (case send_erased C threads x s env cenv of
        (BaseSent, s, evts) \<Rightarrow> map_option (\<lambda>(s, evts'). (s, evts @ evts')) (send_values C threads vs s)
      | _ \<Rightarrow> None)"

fun recv_values :: "'a codec \<Rightarrow> ('q \<Rightarrow> u32) \<Rightarrow> (bytes \<Rightarrow> bool) \<Rightarrow> nat \<Rightarrow> ('a, 'q) base_receiver \<Rightarrow>
    ('a list \<times> ('a, 'q) base_receiver) option" where
  "recv_values C req_id gone 0 s = Some ([], s)"
| "recv_values C req_id gone (Suc n) s =
     (case recv_erased C req_id True gone s of
        Ret (Ready (Inr (Some x)), s) \<Rightarrow> map_option (\<lambda>(xs, s). (x # xs, s)) (recv_values C req_id gone n s)
      | _ \<Rightarrow> None)"

section \<open>Bounds\<close>

definition wire_size :: "port_evt list \<Rightarrow> nat" where
  "wire_size evts = length (content (delivered evts))"

lemma wire_size_simps [simp]: "wire_size [] = 0" "wire_size (es @ es') = wire_size es + wire_size es'"
  by (simp_all add: wire_size_def)

lemma send_loop_size:
  "send_loop sd finish data s = (e, s') \<Longrightarrow> wire_size (ss_acc s') \<le> wire_size (ss_acc s) + length data"
proof (induction sd finish data s rule: send_loop.induct)
  case (1 sd finish data s)
  show ?case
  proof (cases "send_chunk sd finish data s")
    case (Inl r)
    with "1.prems" send_chunk_data_end [of sd finish data s e s'] show ?thesis
      by (auto simp: send_loop.simps [of sd finish data] split: if_splits)
  next
    case (Inr rs)
    obtain rest s1 where rs: "rs = (rest, s1)" by fastforce
    from send_chunk_result [OF Inr [unfolded rs]]
    have "wire_size (ss_acc s1) + length rest = wire_size (ss_acc s) + length data"
      by (auto simp: wire_size_def)
    moreover have "data \<noteq> [] \<Longrightarrow> wire_size (ss_acc s') \<le> wire_size (ss_acc s1) + length rest"
      using "1.prems" "1.IH" Inr rs by (simp add: send_loop.simps [of sd finish data])
    moreover have "data = [] \<Longrightarrow> s' = s"
      using "1.prems" by (simp add: send_loop.simps)
    ultimately show ?thesis by (cases "data = []") auto
  qed
qed

lemma do_send_int_size:
  "do_send_int sd data finish s = (e, s') \<Longrightarrow> wire_size (ss_acc s') \<le> wire_size (ss_acc s) + length data"
  by (auto simp: do_send_int_def send_empty_def send_evt_def request_credits_def wire_size_def [of "[SendData p [] f l c]" for p f l c]
      dest: send_loop_size split: if_splits sum.splits list.splits exec.splits bool.splits)

lemma do_send_size: "do_send sd data env = (e, s') \<Longrightarrow> wire_size (ss_acc s') \<le> length data"
  using do_send_int_size [of sd data True "start_sending env" e s']
  by (simp add: do_send_def do_send_int_def) (simp add: start_sending_def)

lemma send_stream_size:
  "send_stream sd n k chunks s = (e, s') \<Longrightarrow> k \<le> n \<Longrightarrow> wire_size (ss_acc s) \<le> k \<Longrightarrow> wire_size (ss_acc s') \<le> n"
proof (induction sd n k chunks s rule: send_stream.induct)
  case (2 sd n k chunk chunks s)
  obtain e1 s1 where s1: "do_send_int sd chunk False s = (e1, s1)" by fastforce
  have "wire_size (ss_acc s1) \<le> k + length chunk"
    using do_send_int_size [OF s1] "2.prems"(3) by simp
  then show ?case
    using "2.prems" "2.IH" s1 by (cases e1) (auto split: if_splits)
qed simp

lemma connect_loop_size:
  "connect_loop sd ports first ac env sent = (e, evts) \<Longrightarrow> wire_size evts = wire_size sent"
proof (induction sd ports first ac env sent rule: connect_loop.induct)
  case (1 sd ports first ac env sent)
  show ?case
  proof (cases "connect_chunk sd ports first ac env sent")
    case (Inl r)
    then have "r = (e, evts) \<Longrightarrow> evts = sent"
      unfolding connect_chunk_def Let_def
      by (cases "ac_credits ac = 0") (auto split: sum.splits list.splits exec.splits bool.splits)
    with "1.prems" Inl show ?thesis
      by (auto simp: connect_loop.simps [of sd ports] split: if_splits)
  next
    case (Inr c)
    obtain left ac' env' sent' where c: "c = (left, ac', env', sent')" by (cases c) auto
    have sent': "wire_size sent' = wire_size sent"
      using connect_chunk_run [OF Inr [unfolded c]] by (auto simp: wire_size_def)
    show ?thesis
    proof (cases "ports = []")
      case False
      then have "connect_loop sd left False ac' env' sent' = (e, evts)"
        using "1.prems" Inr c by (simp add: connect_loop.simps [of sd ports])
      from "1.IH" [OF False Inr c [symmetric] refl refl this] show ?thesis
        using sent' by simp
    qed (use "1.prems" in \<open>simp add: connect_loop.simps\<close>)
  qed
qed

lemma send_requests_size: "send_requests sd ports cenv sent = (e, evts) \<Longrightarrow> wire_size evts = wire_size sent"
  using connect_loop_size [of sd ports True "ac_empty PortPool" cenv "[]"]
  by (auto simp: send_requests_def do_connect_def wire_size_def split: if_splits prod.splits send_end.splits)

lemma send_buffered_size: "send_buffered s data ports env cenv = (e, evts) \<Longrightarrow> wire_size evts \<le> bs_max_item_size s"
  by (auto simp: send_buffered_def split: if_splits prod.splits send_end.splits dest!: do_send_size send_requests_size)

definition big_data_ok :: "base_sender \<Rightarrow> bool" where
  "big_data_ok s \<longleftrightarrow> - BIG_DATA_LIMIT \<le> bs_big_data s \<and> bs_big_data s \<le> BIG_DATA_LIMIT"

lemma send_streaming_size:
  assumes "send_streaming C threads x s env cenv = (e, s', evts)"
  shows "wire_size evts \<le> bs_max_item_size s \<and> bs_max_item_size s' = bs_max_item_size s \<and>
    (bs_big_data s' = bs_big_data s \<or> bs_big_data s' = max (bs_big_data s - 1) (- BIG_DATA_LIMIT))"
proof -
  define chunks where "chunks = (if threads then buffered_writes (sd_chunk_size (bs_sender s)) (cd_writes C True x) [] else [])"
  define serialized where "serialized = (if threads then cd_ports C True x else None)"
  obtain e1 st where stream: "send_stream (bs_sender s) (bs_max_item_size s) 0 chunks (start_sending env) = (e1, st)"
    by fastforce
  have size: "wire_size (ss_acc st) \<le> bs_max_item_size s"
    using send_stream_size [OF stream] by (simp add: start_sending_def)
  obtain e2 st2 where final: "do_send_int (bs_sender s) [] True st = (e2, st2)" by fastforce
  have size2: "wire_size (ss_acc st2) \<le> bs_max_item_size s"
    using do_send_int_size [OF final] size by simp
  note sent = assms [unfolded send_streaming_def Let_def, folded chunks_def serialized_def]
  show ?thesis
  proof (cases e1)
    case StreamDone
    then show ?thesis
      using sent stream final size size2
      by (cases serialized; cases e2) (auto split: prod.splits if_splits dest!: send_requests_size)
  qed (use sent stream size in auto)
qed

section \<open>The receive loop does not panic\<close>

definition item_ok :: "('a, 'q) base_receiver \<Rightarrow> bool" where
  "item_ok s \<longleftrightarrow> (br_item s \<noteq> None \<longrightarrow> br_expected s \<noteq> None) \<and> br_default_max_ports s \<noteq> None"

fun round_ok :: "(('a, 'q) base_receiver \<Rightarrow> bool) \<Rightarrow> ('a, 'q) round_result \<Rightarrow> bool" where
  "round_ok P (Go s) = P s"
| "round_ok P (Leave out s) = item_ok s"
| "round_ok P (Restart s) = item_ok s"
| "round_ok P RoundPanic = False"

lemma round_ok_bind: "round_ok P r \<Longrightarrow> (\<And>s. P s \<Longrightarrow> round_ok Q (f s)) \<Longrightarrow> round_ok Q (round_bind r f)"
  by (cases r) (auto simp: round_bind_def)

lemma next_received_fields:
  "next_received s = (out, s') \<Longrightarrow> br_item s' = br_item s \<and> br_expected s' = br_expected s \<and>
     br_default_max_ports s' = br_default_max_ports s"
  by (auto simp: next_received_def split: option.splits prod.splits)

lemma fetch_data_ok:
  "item_ok s \<Longrightarrow> br_item s = None \<Longrightarrow> round_ok (\<lambda>s. item_ok s \<and> br_item s = None \<and> br_data s \<noteq> NoData) (fetch_data threads s)"
  by (auto simp: fetch_data_def item_ok_def dest!: next_received_fields split: prod.splits recv_out.splits option.splits received.splits)

lemma item_ok_update [simp]:
  "item_ok (s\<lparr>br_rx := r\<rparr>) = item_ok s" "item_ok (s\<lparr>br_data := d\<rparr>) = item_ok s"
  by (simp_all add: item_ok_def)

lemma take_decoded_ok:
  "item_ok s \<Longrightarrow> br_item s = None \<Longrightarrow> round_ok (\<lambda>s. item_ok s \<and> br_item s \<noteq> None) (take_decoded res s)"
  by (cases res) (auto simp: take_decoded_def Let_def item_ok_def [of "s\<lparr>br_data := d, br_item := x, br_expected := y\<rparr>" for d x y],
    simp add: item_ok_def)

lemma get_item_ok:
  assumes "item_ok s" "br_item s = None" "br_data s \<noteq> NoData"
  shows "round_ok (\<lambda>s. item_ok s \<and> br_item s \<noteq> None) (get_item C gone s)"
  using assms take_decoded_ok [of "s\<lparr>br_rx := r\<rparr>" for r] take_decoded_ok [of s]
  by (auto simp: get_item_def Let_def split: data_source.splits option.splits prod.splits feed_end.splits recv_chunk_error.splits)

lemma connect_ports_ok:
  assumes "item_ok s" "br_item s \<noteq> None"
  shows "round_ok (\<lambda>_. False) (connect_ports req_id s)"
  using assms
  by (auto simp: connect_ports_def give_item_def item_ok_def Let_def split: option.splits list.splits prod.splits
      recv_out.splits received.splits)

lemma base_round_ok:
  assumes "item_ok s"
  shows "round_ok (\<lambda>_. False) (base_round C req_id threads gone s)"
proof -
  have "round_ok (\<lambda>s. item_ok s \<and> br_item s \<noteq> None)
      (if br_item s = None then round_bind (fetch_data threads s) (get_item C gone) else Go s)"
    using assms round_ok_bind [OF fetch_data_ok [OF assms], where f = "get_item C gone"] get_item_ok [of _ C gone]
    by (cases "br_item s = None") (simp_all only: if_True if_False round_ok.simps simp_thms, blast)
  then show ?thesis
    unfolding base_round_def by (rule round_ok_bind) (blast intro: connect_ports_ok)
qed

lemma recv_erased_loop_ok:
  "item_ok s \<Longrightarrow> \<exists>out s'. recv_erased_loop C req_id threads gone s = Ret (out, s') \<and> item_ok s'"
proof (induction C req_id threads gone s rule: recv_erased_loop.induct)
  case (1 C req_id threads gone s)
  then show ?case
    using base_round_ok [of s C req_id threads gone]
    by (cases "base_round C req_id threads gone s") (auto simp: recv_erased_loop.simps [of C req_id threads gone s])
qed

definition base_ok :: "('a, 'q) base_receiver \<Rightarrow> bool" where
  "base_ok s \<longleftrightarrow> (br_item s \<noteq> None \<longrightarrow> br_expected s \<noteq> None)"

section \<open>Properties\<close>

text \<open>A codec for the witnesses: a byte, followed by the id of a port when it is a nine.\<close>

definition byte_codec :: "u8 codec" where
  "byte_codec =
     \<lparr>cd_writes = (\<lambda>st b. if b = 9 then [[b], [3]] else [[b]]),
      cd_ports = (\<lambda>st b. Some (if b = 9 then [example_port_reply] else [])),
      cd_parse = (\<lambda>bs. case bs of [] \<Rightarrow> NeedMore
                   | [b] \<Rightarrow> if b = 9 then NeedMore else Parsed (b, [])
                   | b # i # _ \<Rightarrow> Parsed (b, if b = 9 then [ucast i] else [])),
      cd_end = (\<lambda>_. None)\<rparr>"

definition example_base_sender :: base_sender where
  "example_base_sender = new_base_sender (example_sender\<lparr>sd_max_data_size := 1, sd_chunk_size := 4\<rparr>)"

definition credits_env :: send_env where
  "credits_env = \<lparr>se_grants = [Inr [\<lparr>ac_pool = PortPool, ac_credits = 8\<rparr>]], se_queue = [True, True]\<rparr>"

definition example_values :: "(u8 \<times> send_env \<times> connect_env) list" where
  "example_values = [(7, credits_env, example_connect_env), (9, credits_env, example_connect_env)]"

definition example_evts :: "port_evt list" where
  "example_evts =
     [SendData (Remote 2) [7] True True PortOnly, SendData (Remote 2) [9, 3] True False PortOnly,
      SendData (Remote 2) [] False True PortOnly, SendPorts (Remote 2) True True [example_port_reply]]"

lemmas base_send_evaluation =
  send_evaluation send_empty_def ac_take_def send_erased_def serialize_buffered_def send_buffered_def send_streaming_def send_requests_def
  do_connect_def into_port_req_def pre_allocate_port_def pre_try_allocate_def try_allocate_pre_allocated_def
  is_available_def example_pre_alloc_def new_port_alloc_def connect_loop.simps connect_chunk_def ac_empty_def new_limited_def limited_write_def limited_into_inner_def
  BIG_DATA_LIMIT_def DEFAULT_MAX_ITEM_SIZE_def base_end_of_def

lemma example_send_values:
  "send_values byte_codec True example_values example_base_sender =
     Some (example_base_sender\<lparr>bs_big_data := 0, bs_last_size := 1\<rparr>, example_evts)"
  by (simp add: base_send_evaluation example_values_def byte_codec_def example_base_sender_def new_base_sender_def example_sender_def
      credits_env_def example_connect_env_def example_port_reply_def example_evts_def)

text \<open>C32: Values sent over a base channel arrive. Whether a value is serialised as a whole or streamed while
  it is serialised, whatever the chunks and the credits on the way, and whether its message is
  received whole or chunk by chunk, even when the deserialiser is done before the last chunk, the
  values that have been sent are received one for one, in order, and the ports of every value are
  connected; what follows in the queue is left for the next receive.\<close>

theorem base_values_received:
  assumes "send_values C threads vs s = Some (s', evts)"
    "\<forall>v \<in> set vs. codec_carries C (req_id \<circ> mk) (fst v)"
    "between rs (received_msgs mk evts @ rest)"
    "bs_max_item_size s \<le> br_max_item_size rs" "rx_max_data_size (br_rx rs) \<le> usize_max"
  shows "\<exists>rs'. recv_values C req_id gone (length vs) rs = Some (map fst vs, rs') \<and> between rs' rest \<and>
     br_accepted rs' = br_accepted rs @ map mk (ports_of evts)"
  using assms
proof (induction vs arbitrary: s s' evts rs)
  case (Cons v vs)
  obtain x env cenv where v: "v = (x, env, cenv)" by (cases v) auto
  from Cons.prems(1) obtain s1 evts1 evts2 where
    send: "send_erased C threads x s env cenv = (BaseSent, s1, evts1)" "send_values C threads vs s1 = Some (s', evts2)"
      "evts = evts1 @ evts2"
    by (auto simp: v split: prod.splits base_end.splits)
  have size: "bs_max_item_size s1 = bs_max_item_size s" and ev: "value_events C x (bs_max_item_size s) evts1"
    using send_erased_events [OF send(1)] by simp_all
  have carries: "codec_carries C (req_id \<circ> mk) x" "\<forall>v \<in> set vs. codec_carries C (req_id \<circ> mk) (fst v)"
    using Cons.prems(2) by (simp_all add: v comp_def)
  from value_received [OF ev carries(1), of rs "received_msgs mk evts2 @ rest" gone] Cons.prems(3-5) send(3)
  obtain rs1 where rs1: "recv_erased C req_id True gone rs = Ret (Ready (Inr (Some x)), rs1)"
    "between rs1 (received_msgs mk evts2 @ rest)" "br_accepted rs1 = br_accepted rs @ map mk (ports_of evts1)"
    "br_max_item_size rs1 = br_max_item_size rs" "rx_max_data_size (br_rx rs1) = rx_max_data_size (br_rx rs)"
    by auto
  from Cons.IH [OF send(2) carries(2) rs1(2)] Cons.prems(4,5) rs1(4,5) size obtain rs' where
    "recv_values C req_id gone (length vs) rs1 = Some (map fst vs, rs')" "between rs' rest"
    "br_accepted rs' = br_accepted rs1 @ map mk (ports_of evts2)"
    by auto
  then show ?case
    using rs1(1,3) send(3) by (simp add: v)
qed auto

definition example_request_id :: "port_reply \<Rightarrow> u32" where
  "example_request_id p = pr_id (fst p)"

definition example_base_receiver :: "(u8, port_reply) base_receiver" where
  "example_base_receiver =
     new_base_receiver
       \<lparr>rx_max_data_size = 1, rx_max_ports = 2, rx_queue = received_msgs id example_evts @ [FinishedMsg],
        rx_disconnected = False, rx_receiving = RecvNothing, rx_finished = False, rx_pre_connected = None, rx_calls = []\<rparr>"

lemma byte_codec_carries: "codec_carries byte_codec (example_request_id \<circ> id) b"
  by (auto simp: codec_carries_def codec_reads_def byte_codec_def example_request_id_def example_port_reply_def
      append_eq_Cons_conv)

theorem base_values_received_witness:
  "\<exists>rs'. recv_values byte_codec example_request_id (\<lambda>_. False) (length example_values) example_base_receiver =
       Some (map fst example_values, rs') \<and> between rs' [FinishedMsg] \<and>
     br_accepted rs' = br_accepted example_base_receiver @ map id (ports_of example_evts)"
  by (rule base_values_received [OF example_send_values])
    (simp_all add: byte_codec_carries [unfolded comp_id], simp_all add: between_def example_base_receiver_def new_base_receiver_def
      idle_def wait_pre_connect_done_def example_base_sender_def new_base_sender_def usize_max_def)

text \<open>C34: A send stays within its bounds however it ends, whether the value is sent, cannot be serialised, is
  too large, or the send fails or waits: no more bytes than the item size limit of the channel go
  onto the wire, and the counter that decides between serialising as a whole and streaming stays
  between minus and plus the limit, so that its eight bits never overflow.\<close>

theorem base_send_bounds:
  assumes "send_erased C threads x s env cenv = (e, s', evts)" "big_data_ok s"
  shows "wire_size evts \<le> bs_max_item_size s \<and> big_data_ok s' \<and> - 128 < bs_big_data s' \<and> bs_big_data s' < 127"
  using assms
  by (auto simp: send_erased_def Let_def big_data_ok_def BIG_DATA_LIMIT_def split: if_splits sum.splits option.splits prod.splits
      dest!: send_streaming_size send_buffered_size)

theorem base_send_bounds_witness:
  "\<exists>e s' evts. send_erased byte_codec True 9 (example_base_sender\<lparr>bs_max_item_size := 1\<rparr>) credits_env example_connect_env = (e, s', evts) \<and>
     wire_size evts \<le> 1 \<and> big_data_ok s'"
proof -
  obtain e s' evts where
    send: "send_erased byte_codec True 9 (example_base_sender\<lparr>bs_max_item_size := 1\<rparr>) credits_env example_connect_env = (e, s', evts)"
    by (cases "send_erased byte_codec True 9 (example_base_sender\<lparr>bs_max_item_size := 1\<rparr>) credits_env example_connect_env")
  have ok: "big_data_ok (example_base_sender\<lparr>bs_max_item_size := 1\<rparr>)"
    by (simp add: big_data_ok_def example_base_sender_def new_base_sender_def BIG_DATA_LIMIT_def)
  show ?thesis
    using send base_send_bounds [OF send ok] by simp
qed

text \<open>C33: The receive loop returns for every queue, codec and state between calls. Each of the states it can
  be left in, by an error, by a cancelled call or with a value, is one from which it can be called
  again; neither the \<^verbatim>\<open>unreachable!\<close> nor an \<^verbatim>\<open>unwrap\<close> of the code is hit.\<close>

theorem base_receive_returns:
  assumes "base_ok s"
  shows "\<exists>out s'. recv_erased C req_id threads gone s = Ret (out, s') \<and> base_ok s'"
proof -
  define s0 where "s0 = (if br_default_max_ports s = None then s\<lparr>br_default_max_ports := Some (rx_max_ports (br_rx s))\<rparr> else s)"
  have "item_ok s0"
    using assms by (auto simp: s0_def item_ok_def base_ok_def)
  from recv_erased_loop_ok [OF this, of C req_id threads gone] show ?thesis
    by (auto simp: recv_erased_def s0_def [symmetric] base_ok_def item_ok_def)
qed

theorem base_receive_returns_witness:
  "\<exists>out s'. recv_erased byte_codec example_request_id False (\<lambda>_. True) example_base_receiver = Ret (out, s') \<and> base_ok s'"
  by (rule base_receive_returns) (simp add: base_ok_def example_base_receiver_def new_base_receiver_def)

end
