(* ===== verification/Broadcast.thy ===== *)
theory Broadcast
  imports Mpsc
begin

text \<open>
  The broadcast channel, \<^verbatim>\<open>remoc/src/rch/broadcast\<close>. Every subscriber has a channel of its own; a
  subscriber whose channel is full is handed to a task that puts a mark into the channel as soon
  as there is room, waits for room for one more value and hands the subscriber back. The sender
  takes back the subscribers that are ready before it sends the next value.
\<close>

section \<open>The sender\<close>

datatype 'a broadcast_msg = BcValue 'a | BcLagged

text \<open>The stages of the task of a subscriber that is not ready. Once the subscriber is handed back,
  the task only holds the place it has reserved: \<open>bc_releasing\<close> counts these places.\<close>

datatype lag_stage = SendingLagged | Reserving | HandingBack bool

record 'a broadcast =
  bc_chan :: "nat \<Rightarrow> 'a broadcast_msg mpsc"
  bc_count :: nat
  bc_subs :: "nat list"
  bc_ready :: "nat list"
  bc_not_ready :: nat
  bc_tasks :: "nat \<Rightarrow> lag_stage option"
  bc_releasing :: "nat \<Rightarrow> nat"

definition set_chan :: "nat \<Rightarrow> 'a broadcast_msg mpsc \<Rightarrow> 'a broadcast \<Rightarrow> 'a broadcast" where
  "set_chan i c b = b\<lparr>bc_chan := (bc_chan b)(i := c)\<rparr>"

definition new_broadcast :: "'a broadcast" where
  "new_broadcast = \<lparr>bc_chan = (\<lambda>_. \<lparr>mq_queue = [], mq_capacity = 0, mq_reserved = 0, mq_tx_alive = False,
      mq_rx_alive = False, mq_closed_reason = None, mq_remote_error = None, mq_final_error = None\<rparr>),
    bc_count = 0, bc_subs = [], bc_ready = [], bc_not_ready = 0, bc_tasks = (\<lambda>_. None),
    bc_releasing = (\<lambda>_. 0)\<rparr>"

definition subscribe :: "nat \<Rightarrow> 'a broadcast \<Rightarrow> (nat \<times> 'a broadcast) exec" where
  "subscribe send_buffer b =
     exec_bind (with_local_buffer send_buffer) (\<lambda>c.
       Ret (bc_count b, b\<lparr>bc_chan := (bc_chan b)(bc_count b := c), bc_count := bc_count b + 1,
              bc_subs := bc_subs b @ [bc_count b]\<rparr>))"

definition receiver_count :: "'a broadcast \<Rightarrow> nat" where
  "receiver_count b = length (bc_subs b) + bc_not_ready b"

text \<open>Taking back the subscribers that have become ready.\<close>

fun fetch_ready :: "nat list \<Rightarrow> 'a broadcast \<Rightarrow> 'a broadcast exec" where
  "fetch_ready [] b = Ret (b\<lparr>bc_ready := []\<rparr>)"
| "fetch_ready (sub # ready) b =
     (if bc_not_ready b = 0 then Panic
      else fetch_ready ready (b\<lparr>bc_subs := bc_subs b @ [sub], bc_not_ready := bc_not_ready b - 1\<rparr>))"

text \<open>Sending to the ready subscribers; \<open>keep\<close> are those that stay ready.\<close>

fun send_to :: "'a \<Rightarrow> nat list \<Rightarrow> nat list \<Rightarrow> 'a broadcast_msg mpsc_try_send_error option \<Rightarrow> 'a broadcast \<Rightarrow>
    nat list \<times> 'a broadcast_msg mpsc_try_send_error option \<times> 'a broadcast" where
  "send_to v [] keep last_err b = (keep, last_err, b)"
| "send_to v (sub # subs) keep last_err b =
     (case mpsc_try_send (BcValue v) (bc_chan b sub) of
        (None, c) \<Rightarrow> send_to v subs (keep @ [sub]) last_err (set_chan sub c b)
      | (Some (TryFull _), c) \<Rightarrow>
          send_to v subs keep last_err
            (b\<lparr>bc_tasks := (bc_tasks b)(sub \<mapsto> SendingLagged), bc_not_ready := bc_not_ready b + 1\<rparr>)
      | (Some (TryClosed _), c) \<Rightarrow> send_to v subs keep last_err b
      | (Some err, c) \<Rightarrow> send_to v subs keep (Some err) b)"

datatype 'a broadcast_error =
    BroadcastClosed 'a
  | BroadcastSend send_error_kind
  | BroadcastConnect connect_error
  | BroadcastListen listener_error
  | BroadcastForward

fun broadcast_error_of :: "'b mpsc_try_send_error \<Rightarrow> 'a broadcast_error option" where
  "broadcast_error_of (TrySend err) = Some (BroadcastSend err)"
| "broadcast_error_of (TryConnect err) = Some (BroadcastConnect err)"
| "broadcast_error_of (TryListen err) = Some (BroadcastListen err)"
| "broadcast_error_of TryForward = Some BroadcastForward"
| "broadcast_error_of _ = None"

fun broadcast_is_disconnected :: "'a broadcast_error \<Rightarrow> bool" where
  "broadcast_is_disconnected (BroadcastSend err) = kind_is_disconnected err"
| "broadcast_is_disconnected _ = True"

text \<open>The result tells the subscribers to which the value has been queued.\<close>

definition broadcast_send :: "'a \<Rightarrow> 'a broadcast \<Rightarrow> (('a broadcast_error + nat list) \<times> 'a broadcast) exec" where
  "broadcast_send v b =
     exec_bind (fetch_ready (bc_ready b) b) (\<lambda>b.
       case send_to v (bc_subs b) [] None (b\<lparr>bc_subs := []\<rparr>) of
         (keep, last_err, b) \<Rightarrow>
           (let b = b\<lparr>bc_subs := keep\<rparr>
            in if \<not> (bc_subs b = [] \<and> bc_not_ready b = 0) then Ret (Inr keep, b)
               else case last_err of
                 Some err \<Rightarrow>
                   (case broadcast_error_of err of Some e \<Rightarrow> Ret (Inl e, b) | None \<Rightarrow> Panic)
               | None \<Rightarrow> Ret (Inl (BroadcastClosed v), b)))"

text \<open>One step of the task of a subscriber that is not ready. It waits for room in the channel, or
  for the receiver to be dropped; whatever the outcome, the subscriber is handed back.\<close>

definition lag_task :: "nat \<Rightarrow> 'a broadcast \<Rightarrow> 'a broadcast" where
  "lag_task i b =
     (case bc_tasks b i of
        None \<Rightarrow> b
      | Some SendingLagged \<Rightarrow>
          (case mpsc_send BcLagged (bc_chan b i) of
             (Pending, _) \<Rightarrow> b
           | (Ready _, c) \<Rightarrow> (set_chan i c b)\<lparr>bc_tasks := (bc_tasks b)(i \<mapsto> Reserving)\<rparr>)
      | Some Reserving \<Rightarrow>
          (case mpsc_reserve (bc_chan b i) of
             (Pending, _) \<Rightarrow> b
           | (Ready r, c) \<Rightarrow> (set_chan i c b)\<lparr>bc_tasks := (bc_tasks b)(i \<mapsto> HandingBack (r = None))\<rparr>)
      | Some (HandingBack permit) \<Rightarrow>
          b\<lparr>bc_ready := bc_ready b @ [i], bc_tasks := (bc_tasks b)(i := None),
            bc_releasing := (bc_releasing b)(i := bc_releasing b i + (if permit then 1 else 0))\<rparr>)"

definition lag_release :: "nat \<Rightarrow> 'a broadcast \<Rightarrow> 'a broadcast" where
  "lag_release i b =
     (set_chan i (permit_drop (bc_chan b i)) b)\<lparr>bc_releasing := (bc_releasing b)(i := bc_releasing b i - 1)\<rparr>"

section \<open>The receiver\<close>

datatype broadcast_recv_error =
    BcRecvClosed
  | BcRecvLagged
  | BcReceive base_recv_error
  | BcRecvConnect connect_error
  | BcRecvListen listener_error
  | BcRemote "broadcast_recv_error option"

primrec broadcast_recv_error_of :: "mpsc_recv_error \<Rightarrow> broadcast_recv_error" where
  "broadcast_recv_error_of (MpscReceive err) = BcReceive err"
| "broadcast_recv_error_of (MpscRecvConnect err) = BcRecvConnect err"
| "broadcast_recv_error_of (MpscRecvListen err) = BcRecvListen err"
| "broadcast_recv_error_of (MpscRemote err) = BcRemote (map_option broadcast_recv_error_of err)"

definition broadcast_recv :: "'a broadcast_msg mpsc \<Rightarrow> (broadcast_recv_error + 'a) polled \<times> 'a broadcast_msg mpsc" where
  "broadcast_recv c =
     (case mpsc_recv c of
        (Pending, c) \<Rightarrow> (Pending, c)
      | (Ready (Inr (Some (BcValue v))), c) \<Rightarrow> (Ready (Inr v), c)
      | (Ready (Inr (Some BcLagged)), c) \<Rightarrow> (Ready (Inl BcRecvLagged), c)
      | (Ready (Inr None), c) \<Rightarrow> (Ready (Inl BcRecvClosed), c)
      | (Ready (Inl err), c) \<Rightarrow> (Ready (Inl (broadcast_recv_error_of err)), c))"

datatype broadcast_try_recv_error = BcEmpty | BcTryError broadcast_recv_error

fun broadcast_try_recv_error_of :: "try_recv_error \<Rightarrow> broadcast_try_recv_error" where
  "broadcast_try_recv_error_of RecvEmpty = BcEmpty"
| "broadcast_try_recv_error_of RecvClosed = BcTryError BcRecvClosed"
| "broadcast_try_recv_error_of (RecvError err) = BcTryError (broadcast_recv_error_of err)"

definition broadcast_try_recv :: "'a broadcast_msg mpsc \<Rightarrow> (broadcast_try_recv_error + 'a) \<times> 'a broadcast_msg mpsc" where
  "broadcast_try_recv c =
     (case mpsc_try_recv c of
        (Inr (BcValue v), c) \<Rightarrow> (Inr v, c)
      | (Inr BcLagged, c) \<Rightarrow> (Inl (BcTryError BcRecvLagged), c)
      | (Inl err, c) \<Rightarrow> (Inl (broadcast_try_recv_error_of err), c))"

section \<open>What a subscriber receives\<close>

text \<open>What has been received accounts for what has been sent: each value received is the one sent
  next, and a mark stands for a loss of at least one value.\<close>

inductive synced :: "'a list \<Rightarrow> 'a broadcast_msg list \<Rightarrow> bool" where
  synced_start: "synced [] []"
| synced_value: "synced s g \<Longrightarrow> synced (s @ [v]) (g @ [BcValue v])"
| synced_lagged: "synced s g \<Longrightarrow> lost \<noteq> [] \<Longrightarrow> synced (s @ lost) (g @ [BcLagged])"

lemma synced_snoc:
  "synced s (g @ [m]) \<longleftrightarrow>
     (\<exists>s' r. s = s' @ r \<and> r \<noteq> [] \<and> synced s' g \<and> (m = BcLagged \<or> m = BcValue (hd r) \<and> r = [hd r]))"
  by (subst synced.simps) fastforce

lemma synced_extend_lagged:
  assumes "synced s (g @ [BcLagged])"
  shows "synced (s @ [v]) (g @ [BcLagged])"
proof -
  from assms obtain s' r where "s = s' @ r" "synced s' g"
    unfolding synced_snoc by blast
  with synced_lagged [of s' g "r @ [v]"] show ?thesis by simp
qed

lemma synced_prefix:
  "synced s (g @ q) \<Longrightarrow> \<exists>n \<le> length s. synced (take n s) g"
proof (induction q arbitrary: s rule: rev_induct)
  case Nil
  then show ?case by (intro exI [of _ "length s"]) simp
next
  case (snoc m q)
  then obtain s' r where "s = s' @ r" "synced s' (g @ q)"
    unfolding append_assoc [symmetric] synced_snoc by blast
  with snoc.IH [of s'] obtain n where "n \<le> length s'" "synced (take n s') g"
    by blast
  with \<open>s = s' @ r\<close> show ?case
    by (intro exI [of _ n]) simp
qed

lemma synced_no_lag: "synced s g \<Longrightarrow> BcLagged \<notin> set g \<Longrightarrow> g = map BcValue s"
  by (induction rule: synced.induct) auto

section \<open>Every use of a broadcast channel\<close>

text \<open>A broadcast channel with the values sent since each receiver subscribed and what the receiver
  has got. The channels of the subscribers are local or their remote transfer does not fail.\<close>

record 'a bc_world =
  bw_chan :: "'a broadcast"
  bw_sent :: "nat \<Rightarrow> 'a list"
  bw_got :: "nat \<Rightarrow> 'a broadcast_msg list"

fun got_of :: "(broadcast_recv_error + 'a) polled \<Rightarrow> 'a broadcast_msg list" where
  "got_of (Ready (Inr v)) = [BcValue v]"
| "got_of (Ready (Inl BcRecvLagged)) = [BcLagged]"
| "got_of _ = []"

inductive bc_step :: "'a bc_world \<Rightarrow> 'a bc_world \<Rightarrow> bool" where
  bc_subscribe: "subscribe n (bw_chan w) = Ret (i, b) \<Longrightarrow>
    bc_step w (w\<lparr>bw_chan := b, bw_sent := (bw_sent w)(i := []), bw_got := (bw_got w)(i := [])\<rparr>)"
| bc_send: "broadcast_send v (bw_chan w) = Ret (r, b) \<Longrightarrow>
    bc_step w (w\<lparr>bw_chan := b, bw_sent := (\<lambda>i. bw_sent w i @ [v])\<rparr>)"
| bc_task: "bc_step w (w\<lparr>bw_chan := lag_task i (bw_chan w)\<rparr>)"
| bc_release: "0 < bc_releasing (bw_chan w) i \<Longrightarrow>
    bc_step w (w\<lparr>bw_chan := lag_release i (bw_chan w)\<rparr>)"
| bc_recv: "i < bc_count (bw_chan w) \<Longrightarrow> mq_rx_alive (bc_chan (bw_chan w) i) \<Longrightarrow>
    broadcast_recv (bc_chan (bw_chan w) i) = (r', c) \<Longrightarrow>
    bc_step w (w\<lparr>bw_chan := set_chan i c (bw_chan w), bw_got := (bw_got w)(i := bw_got w i @ got_of r')\<rparr>)"
| bc_drop: "bc_step w (w\<lparr>bw_chan := set_chan i (receiver_drop (bc_chan (bw_chan w) i)) (bw_chan w)\<rparr>)"
| bc_dropped: "bc_step w (w\<lparr>bw_chan := set_chan i (drop_when_closed False (bc_chan (bw_chan w) i)) (bw_chan w)\<rparr>)"

inductive bc_reachable :: "'a bc_world \<Rightarrow> bool" where
  bc_init: "bc_reachable \<lparr>bw_chan = new_broadcast, bw_sent = \<lambda>_. [], bw_got = \<lambda>_. []\<rparr>"
| bc_next: "bc_reachable w \<Longrightarrow> bc_step w w' \<Longrightarrow> bc_reachable w'"

text \<open>The place of every subscriber: with the sender, with its task or handed back.\<close>

definition places_ok :: "'a broadcast \<Rightarrow> bool" where
  "places_ok b \<longleftrightarrow>
     distinct (bc_subs b @ bc_ready b) \<and> finite (dom (bc_tasks b)) \<and>
     (set (bc_subs b) \<union> set (bc_ready b)) \<inter> dom (bc_tasks b) = {} \<and>
     set (bc_subs b) \<union> set (bc_ready b) \<union> dom (bc_tasks b) \<subseteq> {..<bc_count b} \<and>
     bc_not_ready b = length (bc_ready b) + card (dom (bc_tasks b))"

definition chan_ok :: "'a broadcast_msg mpsc \<Rightarrow> bool" where
  "chan_ok c \<longleftrightarrow> mq_remote_error c = None \<and> mq_final_error c = None \<and> (\<forall>x \<in> set (mq_queue c). \<not> isl x) \<and>
     (mq_rx_alive c \<longrightarrow> mq_tx_alive c \<and> mq_closed_reason c = None)"

definition history :: "'a bc_world \<Rightarrow> nat \<Rightarrow> 'a broadcast_msg list" where
  "history w i = bw_got w i @ values_of (mq_queue (bc_chan (bw_chan w) i))"

definition accounts :: "'a bc_world \<Rightarrow> nat \<Rightarrow> bool" where
  "accounts w i \<longleftrightarrow>
     (i \<in> set (bc_subs (bw_chan w)) \<and> synced (bw_sent w i) (history w i)) \<or>
     (bc_tasks (bw_chan w) i = Some SendingLagged \<and>
        (\<exists>s lost. bw_sent w i = s @ lost \<and> lost \<noteq> [] \<and> synced s (history w i))) \<or>
     ((i \<in> set (bc_ready (bw_chan w)) \<or>
       bc_tasks (bw_chan w) i \<in> {Some Reserving, Some (HandingBack True), Some (HandingBack False)}) \<and>
        (\<exists>h. history w i = h @ [BcLagged] \<and> synced (bw_sent w i) (history w i)))"

definition bc_inv :: "'a bc_world \<Rightarrow> bool" where
  "bc_inv w \<longleftrightarrow> places_ok (bw_chan w) \<and> (\<forall>i < bc_count (bw_chan w). chan_ok (bc_chan (bw_chan w) i)) \<and>
     (\<forall>i < bc_count (bw_chan w). mq_rx_alive (bc_chan (bw_chan w) i) \<longrightarrow> accounts w i)"

lemma fetch_ready_all:
  "length ready \<le> bc_not_ready b \<Longrightarrow>
   fetch_ready ready b = Ret (b\<lparr>bc_ready := [], bc_subs := bc_subs b @ ready,
     bc_not_ready := bc_not_ready b - length ready\<rparr>)"
  by (induction ready arbitrary: b) auto

definition try_value :: "'a \<Rightarrow> 'a broadcast \<Rightarrow> nat \<Rightarrow> 'a broadcast_msg mpsc_try_send_error option" where
  "try_value v b i = fst (mpsc_try_send (BcValue v) (bc_chan b i))"

definition refused_full :: "'a \<Rightarrow> 'a broadcast \<Rightarrow> nat \<Rightarrow> bool" where
  "refused_full v b i \<longleftrightarrow> (\<exists>m. try_value v b i = Some (TryFull m))"

lemma mpsc_try_send_state:
  "snd (mpsc_try_send m c) = (if fst (mpsc_try_send m c) = None then enqueue m c else c)"
  by (auto simp: mpsc_try_send_def split: option.splits)

text \<open>What \<open>send_to\<close> does to a subscriber depends on that subscriber's channel alone.\<close>

definition same_but_sent :: "'a \<Rightarrow> nat list \<Rightarrow> 'a broadcast \<Rightarrow> 'a broadcast \<Rightarrow> bool" where
  "same_but_sent v subs b b' \<longleftrightarrow>
     (\<forall>i. bc_chan b' i = (if i \<in> set subs \<and> try_value v b i = None then enqueue (BcValue v) (bc_chan b i)
                          else bc_chan b i)) \<and>
     (\<forall>i. bc_tasks b' i = (if i \<in> set subs \<and> refused_full v b i then Some SendingLagged else bc_tasks b i)) \<and>
     bc_not_ready b' = bc_not_ready b + length (filter (refused_full v b) subs) \<and>
     bc_subs b' = bc_subs b \<and> bc_ready b' = bc_ready b \<and> bc_count b' = bc_count b \<and>
     bc_releasing b' = bc_releasing b"

lemma try_value_cong:
  "bc_chan b2 i = bc_chan b i \<Longrightarrow> try_value v b2 i = try_value v b i \<and> refused_full v b2 i = refused_full v b i"
  by (simp add: try_value_def refused_full_def)

lemma same_but_sent_Cons:
  assumes "same_but_sent v subs b2 b'" "sub \<notin> set subs"
    "\<And>i. i \<noteq> sub \<Longrightarrow> bc_chan b2 i = bc_chan b i" "\<And>i. i \<noteq> sub \<Longrightarrow> bc_tasks b2 i = bc_tasks b i"
    "bc_chan b2 sub = (if try_value v b sub = None then enqueue (BcValue v) (bc_chan b sub) else bc_chan b sub)"
    "bc_tasks b2 sub = (if refused_full v b sub then Some SendingLagged else bc_tasks b sub)"
    "bc_not_ready b2 = bc_not_ready b + (if refused_full v b sub then 1 else 0)"
    "bc_subs b2 = bc_subs b" "bc_ready b2 = bc_ready b" "bc_count b2 = bc_count b"
    "bc_releasing b2 = bc_releasing b"
  shows "same_but_sent v (sub # subs) b b'"
proof -
  have eq: "try_value v b2 i = try_value v b i" "refused_full v b2 i = refused_full v b i" if "i \<noteq> sub" for i
    using try_value_cong [OF assms(3) [OF that]] by blast+
  have ne: "i \<noteq> sub" if "i \<in> set subs" for i
    using that assms(2) by blast
  have f: "filter (refused_full v b2) subs = filter (refused_full v b) subs"
    using eq ne by (intro filter_cong) auto
  have "bc_chan b' i = (if i \<in> set (sub # subs) \<and> try_value v b i = None then enqueue (BcValue v) (bc_chan b i)
      else bc_chan b i)" for i
    using assms(1,2,3,5) eq(1) by (cases "i = sub") (simp_all add: same_but_sent_def)
  moreover have "bc_tasks b' i = (if i \<in> set (sub # subs) \<and> refused_full v b i then Some SendingLagged
      else bc_tasks b i)" for i
    using assms(1,2,4,6) eq(2) by (cases "i = sub") (simp_all add: same_but_sent_def)
  ultimately show ?thesis
    using assms(1,7-11) f by (simp add: same_but_sent_def)
qed

lemma send_to_effect:
  "distinct subs \<Longrightarrow> send_to v subs keep last_err b = (keep', last_err', b') \<Longrightarrow>
     keep' = keep @ filter (\<lambda>i. try_value v b i = None) subs \<and> same_but_sent v subs b b'"
proof (induction subs arbitrary: keep last_err b)
  case Nil
  then show ?case by (auto simp: same_but_sent_def)
next
  case (Cons sub subs)
  obtain r c where t: "mpsc_try_send (BcValue v) (bc_chan b sub) = (r, c)" by fastforce
  have r: "try_value v b sub = r" "c = (if r = None then enqueue (BcValue v) (bc_chan b sub) else bc_chan b sub)"
    using t mpsc_try_send_state [of "BcValue v" "bc_chan b sub"] by (simp_all add: try_value_def)
  have step: ?case if s: "send_to v subs (keep @ (if r = None then [sub] else [])) le b2 = (keep', last_err', b')"
    and b2: "b2 = b\<lparr>bc_chan := (bc_chan b)(sub := c),
      bc_tasks := (bc_tasks b)(sub := (if refused_full v b sub then Some SendingLagged else bc_tasks b sub)),
      bc_not_ready := bc_not_ready b + (if refused_full v b sub then 1 else 0)\<rparr>" for b2 le
  proof -
    have f: "filter (\<lambda>i. try_value v b2 i = None) subs = filter (\<lambda>i. try_value v b i = None) subs"
    proof (intro filter_cong refl)
      fix i assume "i \<in> set subs"
      with Cons.prems(1) have "i \<noteq> sub" by auto
      then show "(try_value v b2 i = None) = (try_value v b i = None)"
        by (simp add: b2 try_value_def)
    qed
    from Cons.IH [OF _ s] Cons.prems(1) f r(1) have "keep' = keep @ filter (\<lambda>i. try_value v b i = None) (sub # subs)"
      "same_but_sent v subs b2 b'"
      by simp_all
    moreover from this(2) have "same_but_sent v (sub # subs) b b'"
      by (rule same_but_sent_Cons) (use Cons.prems(1) r in \<open>simp_all add: b2\<close>)
    ultimately show ?thesis by blast
  qed
  have unchanged: "b = b\<lparr>bc_chan := (bc_chan b)(sub := bc_chan b sub), bc_tasks := (bc_tasks b)(sub := bc_tasks b sub),
      bc_not_ready := bc_not_ready b\<rparr>"
    by simp
  show ?case
  proof (cases r)
    case None
    show ?thesis
      by (rule step [of last_err "set_chan sub c b"])
        (use Cons.prems(2) t None r in \<open>simp_all add: set_chan_def refused_full_def\<close>)
  next
    case (Some err)
    show ?thesis
    proof (cases err)
      case (TryFull m)
      show ?thesis
        by (rule step [of last_err "b\<lparr>bc_tasks := (bc_tasks b)(sub \<mapsto> SendingLagged), bc_not_ready := bc_not_ready b + 1\<rparr>"])
          (use Cons.prems(2) t Some TryFull r in \<open>simp_all add: refused_full_def\<close>)
    next
      case (TryClosed m)
      show ?thesis
        by (rule step [of last_err b]) (use Cons.prems(2) t Some TryClosed r in \<open>simp_all add: refused_full_def\<close>)
    next
      case (TrySend e)
      show ?thesis
        by (rule step [of "Some err" b]) (use Cons.prems(2) t Some TrySend r in \<open>simp_all add: refused_full_def\<close>)
    next
      case (TryConnect e)
      show ?thesis
        by (rule step [of "Some err" b]) (use Cons.prems(2) t Some TryConnect r in \<open>simp_all add: refused_full_def\<close>)
    next
      case (TryListen e)
      show ?thesis
        by (rule step [of "Some err" b]) (use Cons.prems(2) t Some TryListen r in \<open>simp_all add: refused_full_def\<close>)
    next
      case TryForward
      show ?thesis
        by (rule step [of "Some err" b]) (use Cons.prems(2) t Some TryForward r in \<open>simp_all add: refused_full_def\<close>)
    qed
  qed
qed

lemma send_to_last_err:
  "send_to v subs keep last_err b = (keep', last_err', b') \<Longrightarrow>
   (case last_err of None \<Rightarrow> True | Some e \<Rightarrow> (broadcast_error_of e :: 'a broadcast_error option) \<noteq> None) \<Longrightarrow>
   (case last_err' of None \<Rightarrow> True | Some e \<Rightarrow> (broadcast_error_of e :: 'a broadcast_error option) \<noteq> None)"
  for v :: 'a
  by (induction v subs keep last_err b rule: send_to.induct)
    (auto split: prod.splits option.splits mpsc_try_send_error.splits)

lemma broadcast_send_effect:
  assumes "places_ok b"
  shows "\<exists>r b'. broadcast_send v b = Ret (r, b') \<and>
    bc_subs b' = filter (\<lambda>i. try_value v b i = None) (bc_subs b @ bc_ready b) \<and> bc_ready b' = [] \<and>
    bc_count b' = bc_count b \<and>
    bc_chan b' = (\<lambda>i. if i \<in> set (bc_subs b @ bc_ready b) \<and> try_value v b i = None
                      then enqueue (BcValue v) (bc_chan b i) else bc_chan b i) \<and>
    bc_tasks b' = (\<lambda>i. if i \<in> set (bc_subs b @ bc_ready b) \<and> refused_full v b i then Some SendingLagged
                       else bc_tasks b i) \<and>
    bc_not_ready b' = card (dom (bc_tasks b)) + length (filter (refused_full v b) (bc_subs b @ bc_ready b))"
proof -
  let ?subs = "bc_subs b @ bc_ready b"
  define b1 where "b1 = b\<lparr>bc_ready := [], bc_not_ready := bc_not_ready b - length (bc_ready b), bc_subs := []\<rparr>"
  have f: "fetch_ready (bc_ready b) b =
      Ret (b\<lparr>bc_ready := [], bc_subs := ?subs, bc_not_ready := bc_not_ready b - length (bc_ready b)\<rparr>)"
    using assms by (intro fetch_ready_all) (simp add: places_ok_def)
  obtain keep le b2 where s: "send_to v ?subs [] None b1 = (keep, le, b2)"
    by (cases "send_to v ?subs [] None b1")
  have "distinct ?subs"
    using assms by (simp add: places_ok_def)
  note eff = send_to_effect [OF this s]
  have t: "try_value v b1 = try_value v b" "refused_full v b1 = refused_full v b"
    using try_value_cong [of b1 _ b v] by (simp_all add: b1_def fun_eq_iff)
  have b1: "bc_chan b1 = bc_chan b" "bc_tasks b1 = bc_tasks b" "bc_ready b1 = []" "bc_count b1 = bc_count b"
    "bc_not_ready b1 = card (dom (bc_tasks b))"
    using assms by (simp_all add: b1_def places_ok_def)
  have "broadcast_send v b =
      (let b = b2\<lparr>bc_subs := keep\<rparr> in
       if \<not> (keep = [] \<and> bc_not_ready b2 = 0) then Ret (Inr keep, b)
       else case le of Some err \<Rightarrow>
              (case broadcast_error_of err of Some e \<Rightarrow> Ret (Inl e, b) | None \<Rightarrow> Panic)
            | None \<Rightarrow> Ret (Inl (BroadcastClosed v), b))"
    using s by (simp add: broadcast_send_def f b1_def)
  moreover have "\<exists>r. (let b = b2\<lparr>bc_subs := keep\<rparr> in
       if \<not> (keep = [] \<and> bc_not_ready b2 = 0) then Ret (Inr keep, b)
       else case le of Some err \<Rightarrow>
              (case broadcast_error_of err of Some e \<Rightarrow> Ret (Inl e, b) | None \<Rightarrow> Panic)
            | None \<Rightarrow> Ret (Inl (BroadcastClosed v), b)) = Ret (r, b2\<lparr>bc_subs := keep\<rparr>)"
    using send_to_last_err [OF s] by (auto simp: Let_def split: option.splits)
  ultimately obtain r where "broadcast_send v b = Ret (r, b2\<lparr>bc_subs := keep\<rparr>)"
    by auto
  then show ?thesis
    using eff by (intro exI [of _ r] exI [of _ "b2\<lparr>bc_subs := keep\<rparr>"])
      (simp add: same_but_sent_def b1 t fun_eq_iff)
qed

text \<open>The result of sending when no remote transfer has failed.\<close>

lemma send_to_no_err:
  "send_to v subs keep None b = (keep', last_err', b') \<Longrightarrow>
   \<forall>i. i \<in> set subs \<longrightarrow> mq_remote_error (bc_chan b i) = None \<Longrightarrow> last_err' = None"
proof (induction subs arbitrary: keep b)
  case (Cons sub subs)
  obtain r c where t: "mpsc_try_send (BcValue v) (bc_chan b sub) = (r, c)" by fastforce
  have remote: "mq_remote_error c = mq_remote_error (bc_chan b sub)"
    using t mpsc_try_send_state [of "BcValue v" "bc_chan b sub"] by (auto simp: enqueue_def split: if_splits)
  have r: "r = None \<or> (\<exists>m. r = Some (TryFull m)) \<or> (\<exists>m. r = Some (TryClosed m))"
    using t Cons.prems(2) by (auto simp: mpsc_try_send_def split: if_splits)
  have others: "mq_remote_error (bc_chan (set_chan sub c b) i) = None" if "i \<in> set subs" for i
    using that Cons.prems(2) remote by (simp add: set_chan_def)
  from r Cons.IH [of "keep @ [sub]" "set_chan sub c b"] Cons.IH [of keep b] others
    Cons.IH [of keep "b\<lparr>bc_tasks := (bc_tasks b)(sub \<mapsto> SendingLagged), bc_not_ready := bc_not_ready b + 1\<rparr>"]
    Cons.prems t show ?case by auto
qed simp

lemma broadcast_send_result:
  assumes "places_ok b" "\<forall>i < bc_count b. mq_remote_error (bc_chan b i) = None"
    "broadcast_send v b = Ret (r, b')"
  shows "r = (if receiver_count b' = 0 then Inl (BroadcastClosed v) else Inr (bc_subs b'))"
proof -
  let ?subs = "bc_subs b @ bc_ready b"
  define b1 where "b1 = b\<lparr>bc_ready := [], bc_not_ready := bc_not_ready b - length (bc_ready b), bc_subs := []\<rparr>"
  have f: "fetch_ready (bc_ready b) b =
      Ret (b\<lparr>bc_ready := [], bc_subs := ?subs, bc_not_ready := bc_not_ready b - length (bc_ready b)\<rparr>)"
    using assms(1) by (intro fetch_ready_all) (simp add: places_ok_def)
  obtain keep le b2 where s: "send_to v ?subs [] None b1 = (keep, le, b2)"
    by (cases "send_to v ?subs [] None b1")
  have "mq_remote_error (bc_chan b1 i) = None" if "i \<in> set ?subs" for i
    using that assms(1,2) by (auto simp: places_ok_def b1_def)
  with send_to_no_err [OF s] have "le = None"
    by blast
  then show ?thesis
    using s assms(3) by (auto simp: broadcast_send_def f b1_def receiver_count_def Let_def split: if_splits)
qed

lemma chan_ok_try:
  assumes "chan_ok (bc_chan b i)" "mq_rx_alive (bc_chan b i)"
  shows "try_value v b i = None \<or> refused_full v b i"
  using assms by (auto simp: chan_ok_def try_value_def refused_full_def mpsc_try_send_def)

lemma try_not_full: "try_value v b i = None \<Longrightarrow> \<not> refused_full v b i"
  by (simp add: refused_full_def)

lemma places_send:
  assumes "places_ok b" "broadcast_send v b = Ret (r, b')"
  shows "places_ok b'"
proof -
  let ?subs = "bc_subs b @ bc_ready b"
  from broadcast_send_effect [OF assms(1), of v] assms(2) have b':
    "bc_subs b' = filter (\<lambda>i. try_value v b i = None) ?subs" "bc_ready b' = []" "bc_count b' = bc_count b"
    "bc_tasks b' = (\<lambda>i. if i \<in> set ?subs \<and> refused_full v b i then Some SendingLagged else bc_tasks b i)"
    "bc_not_ready b' = card (dom (bc_tasks b)) + length (filter (refused_full v b) ?subs)"
    by auto
  define full where "full = set (filter (refused_full v b) ?subs)"
  have d: "distinct ?subs" "finite (dom (bc_tasks b))" "set ?subs \<inter> dom (bc_tasks b) = {}"
    "set ?subs \<union> dom (bc_tasks b) \<subseteq> {..<bc_count b}"
    using assms(1) by (auto simp: places_ok_def)
  have dom: "dom (bc_tasks b') = full \<union> dom (bc_tasks b)"
    by (auto simp: b'(4) full_def split: if_splits)
  have "card full = length (filter (refused_full v b) ?subs)"
    unfolding full_def by (rule distinct_card) (use d(1) in \<open>simp only: distinct_filter\<close>)
  moreover have "card (dom (bc_tasks b')) = card full + card (dom (bc_tasks b))"
    unfolding dom by (rule card_Un_disjoint) (use d in \<open>auto simp: full_def\<close>)
  moreover have "set (bc_subs b') \<inter> dom (bc_tasks b') = {}"
    using d(3) try_not_full [of v b] by (auto simp: dom b'(1) full_def)
  ultimately show ?thesis
    using d unfolding places_ok_def b'(2,3,5) by (auto simp: b'(1) dom full_def)
qed

lemma send_inv:
  assumes "bc_inv w" "broadcast_send v (bw_chan w) = Ret (r, b')"
  shows "bc_inv (w\<lparr>bw_chan := b', bw_sent := \<lambda>i. bw_sent w i @ [v]\<rparr>)" (is "bc_inv ?w")
proof -
  let ?b = "bw_chan w" let ?subs = "bc_subs (bw_chan w) @ bc_ready (bw_chan w)"
  have p: "places_ok ?b" "places_ok b'"
    using assms places_send by (auto simp: bc_inv_def)
  from broadcast_send_effect [OF p(1), of v] assms(2) have b':
    "bc_subs b' = filter (\<lambda>i. try_value v ?b i = None) ?subs" "bc_ready b' = []" "bc_count b' = bc_count ?b"
    "bc_chan b' = (\<lambda>i. if i \<in> set ?subs \<and> try_value v ?b i = None then enqueue (BcValue v) (bc_chan ?b i)
       else bc_chan ?b i)"
    "bc_tasks b' = (\<lambda>i. if i \<in> set ?subs \<and> refused_full v ?b i then Some SendingLagged else bc_tasks ?b i)"
    by auto
  have chan: "chan_ok (bc_chan b' i)" "mq_rx_alive (bc_chan b' i) = mq_rx_alive (bc_chan ?b i)"
    if "i < bc_count ?b" for i
    using assms(1) that by (auto simp: b'(4) bc_inv_def chan_ok_def enqueue_def)
  have "accounts ?w i" if i: "i < bc_count ?b" "mq_rx_alive (bc_chan ?b i)" for i
  proof -
    have a: "accounts w i" and c: "chan_ok (bc_chan ?b i)"
      using assms(1) i by (auto simp: bc_inv_def)
    show ?thesis
    proof (cases "i \<in> set ?subs")
      case True
      then have s: "synced (bw_sent w i) (history w i)" "bc_tasks ?b i = None"
        using a p(1) by (auto simp: accounts_def places_ok_def)
      from chan_ok_try [OF c i(2), of v] show ?thesis
      proof
        assume ok: "try_value v ?b i = None"
        then have "history ?w i = history w i @ [BcValue v]"
          using True by (simp add: history_def b'(4) enqueue_def)
        then show ?thesis
          using ok True synced_value [OF s(1), of v] by (auto simp: accounts_def b'(1))
      next
        assume full: "refused_full v ?b i"
        then have "try_value v ?b i \<noteq> None"
          by (auto simp: refused_full_def)
        then have "history ?w i = history w i"
          by (auto simp: history_def b'(4))
        then show ?thesis
          using full True s(1) by (auto simp: accounts_def b'(5))
      qed
    next
      case False
      then have "history ?w i = history w i" "bc_tasks b' i = bc_tasks ?b i"
        by (simp_all add: history_def b'(4,5))
      moreover have "\<exists>s lost. bw_sent w i @ [v] = s @ lost \<and> lost \<noteq> [] \<and> synced s (history w i)"
        if "\<exists>s lost. bw_sent w i = s @ lost \<and> lost \<noteq> [] \<and> synced s (history w i)"
        using that by (metis append.assoc append_is_Nil_conv)
      moreover have "\<exists>h. history w i = h @ [BcLagged] \<and> synced (bw_sent w i @ [v]) (history w i)"
        if "\<exists>h. history w i = h @ [BcLagged] \<and> synced (bw_sent w i) (history w i)"
        using that synced_extend_lagged by metis
      ultimately show ?thesis
        using a False by (simp add: accounts_def) blast
    qed
  qed
  with p(2) chan show ?thesis
    by (auto simp: bc_inv_def b'(3))
qed

lemma subscribe_inv:
  assumes "bc_inv w" "subscribe n (bw_chan w) = Ret (i, b')"
  shows "bc_inv (w\<lparr>bw_chan := b', bw_sent := (bw_sent w)(i := []), bw_got := (bw_got w)(i := [])\<rparr>)" (is "bc_inv ?w")
proof -
  let ?b = "bw_chan w"
  from assms(2) obtain c where c: "with_local_buffer n = Ret c" and i: "i = bc_count ?b"
    and b': "b' = ?b\<lparr>bc_chan := (bc_chan ?b)(i := c), bc_count := i + 1, bc_subs := bc_subs ?b @ [i]\<rparr>"
    by (auto simp: subscribe_def exec_bind_Ret)
  have c': "chan_ok c" "mq_queue c = []"
    using c by (auto simp: with_local_buffer_def chan_ok_def split: if_splits)
  have p: "places_ok ?b"
    using assms(1) by (simp add: bc_inv_def)
  then have "places_ok b'"
    by (auto simp: places_ok_def b' i)
  moreover have "accounts ?w j" if "j < i + 1" "mq_rx_alive (bc_chan b' j)" for j
  proof (cases "j = i")
    case True
    then show ?thesis
      using c' by (simp add: accounts_def history_def b' synced_start)
  next
    case False
    then have "accounts w j" "history ?w j = history w j"
      using that assms(1) by (auto simp: bc_inv_def b' i history_def)
    with False show ?thesis
      by (auto simp: accounts_def b')
  qed
  ultimately show ?thesis
    using assms(1) c' by (auto simp: bc_inv_def b' i less_Suc_eq)
qed

text \<open>A step that changes one subscriber keeps the invariant of all others.\<close>

lemma one_subscriber_inv:
  assumes "bc_inv w" "places_ok (bw_chan w')" "bc_count (bw_chan w') = bc_count (bw_chan w)"
    "bw_sent w' = bw_sent w"
    "\<And>j. j \<noteq> i \<Longrightarrow> bc_chan (bw_chan w') j = bc_chan (bw_chan w) j \<and> bw_got w' j = bw_got w j \<and>
       bc_tasks (bw_chan w') j = bc_tasks (bw_chan w) j \<and>
       (j \<in> set (bc_subs (bw_chan w')) \<longleftrightarrow> j \<in> set (bc_subs (bw_chan w))) \<and>
       (j \<in> set (bc_ready (bw_chan w')) \<longleftrightarrow> j \<in> set (bc_ready (bw_chan w)))"
    "i < bc_count (bw_chan w) \<Longrightarrow> chan_ok (bc_chan (bw_chan w') i)"
    "i < bc_count (bw_chan w) \<Longrightarrow> mq_rx_alive (bc_chan (bw_chan w') i) \<Longrightarrow> accounts w' i"
  shows "bc_inv w'"
  unfolding bc_inv_def
proof (intro conjI allI impI)
  fix j assume j: "j < bc_count (bw_chan w')"
  show "chan_ok (bc_chan (bw_chan w') j)"
    using assms(1,3,5,6) j by (cases "j = i") (auto simp: bc_inv_def)
  assume "mq_rx_alive (bc_chan (bw_chan w') j)"
  then show "accounts w' j"
  proof (cases "j = i")
    case False
    with assms(1,3,5) j \<open>mq_rx_alive _\<close> have "accounts w j"
      by (auto simp: bc_inv_def)
    with assms(4) assms(5) [OF False] show ?thesis
      by (simp add: accounts_def history_def)
  qed (use assms(3,7) j in simp)
qed (rule assms(2))

lemma chan_ok_history:
  "chan_ok c \<Longrightarrow> chan_ok (enqueue m c)" "chan_ok c \<Longrightarrow> chan_ok (c\<lparr>mq_reserved := n\<rparr>)"
  "chan_ok c \<Longrightarrow> chan_ok (receiver_drop c)" "chan_ok c \<Longrightarrow> chan_ok (drop_when_closed False c)"
  by (auto simp: chan_ok_def enqueue_def receiver_drop_def drop_when_closed_def)

lemma chan_ok_mpsc_send:
  "chan_ok c \<Longrightarrow> mpsc_send m c = (Ready r, c') \<Longrightarrow>
     chan_ok c' \<and> mq_rx_alive c' = mq_rx_alive c \<and> (mq_rx_alive c \<longrightarrow> mq_queue c' = mq_queue c @ [Inr m])"
  by (auto simp: chan_ok_def mpsc_send_def queue_send_def enqueue_def split: if_splits)

lemma chan_ok_mpsc_reserve:
  "chan_ok c \<Longrightarrow> mpsc_reserve c = (r, c') \<Longrightarrow>
     chan_ok c' \<and> mq_rx_alive c' = mq_rx_alive c \<and> mq_queue c' = mq_queue c"
  by (auto simp: chan_ok_def mpsc_reserve_def queue_reserve_def split: if_splits)

lemma lag_task_inv:
  assumes "bc_inv w"
  shows "bc_inv (w\<lparr>bw_chan := lag_task i (bw_chan w)\<rparr>)"
proof (cases "bc_tasks (bw_chan w) i")
  case None
  with assms show ?thesis by (simp add: lag_task_def)
next
  case (Some stage)
  let ?b = "bw_chan w"
  have p: "places_ok ?b"
    using assms by (simp add: bc_inv_def)
  then have i: "i < bc_count ?b" "i \<notin> set (bc_subs ?b)" "i \<notin> set (bc_ready ?b)"
    using Some by (auto simp: places_ok_def)
  have ok: "chan_ok (bc_chan ?b i)" and acc: "mq_rx_alive (bc_chan ?b i) \<Longrightarrow> accounts w i"
    using assms i by (auto simp: bc_inv_def)
  have stay: "places_ok (set_chan i c ?b\<lparr>bc_tasks := (bc_tasks ?b)(i \<mapsto> st)\<rparr>)" for c st
  proof -
    have "dom ((bc_tasks ?b)(i \<mapsto> st)) = dom (bc_tasks ?b)"
      using Some by (auto simp: dom_def)
    with p show ?thesis
      unfolding places_ok_def set_chan_def by simp
  qed
  show ?thesis
  proof (cases stage)
    case SendingLagged
    obtain r c where r: "mpsc_send BcLagged (bc_chan ?b i) = (r, c)" by fastforce
    show ?thesis
    proof (cases r)
      case Pending
      with assms Some SendingLagged r show ?thesis by (simp add: lag_task_def)
    next
      case (Ready res)
      with r chan_ok_mpsc_send [OF ok] have c: "chan_ok c" "mq_rx_alive c = mq_rx_alive (bc_chan ?b i)"
        "mq_rx_alive (bc_chan ?b i) \<Longrightarrow> mq_queue c = mq_queue (bc_chan ?b i) @ [Inr BcLagged]"
        by auto
      have t: "lag_task i ?b = set_chan i c ?b\<lparr>bc_tasks := (bc_tasks ?b)(i \<mapsto> Reserving)\<rparr>"
        using Some SendingLagged r Ready by (simp add: lag_task_def set_chan_def)
      show ?thesis
        unfolding t
      proof (rule one_subscriber_inv [OF assms, where i = i])
        assume "mq_rx_alive (bc_chan (bw_chan (w\<lparr>bw_chan := set_chan i c ?b\<lparr>bc_tasks := (bc_tasks ?b)(i \<mapsto> Reserving)\<rparr>\<rparr>)) i)"
        then have alive: "mq_rx_alive (bc_chan ?b i)"
          using c by (simp add: set_chan_def)
        from acc [OF this] Some SendingLagged i obtain s lost where
          "bw_sent w i = s @ lost" "lost \<noteq> []" "synced s (history w i)"
          by (auto simp: accounts_def)
        with c(3) [OF alive] synced_lagged [of s "history w i" lost]
        show "accounts (w\<lparr>bw_chan := set_chan i c ?b\<lparr>bc_tasks := (bc_tasks ?b)(i \<mapsto> Reserving)\<rparr>\<rparr>) i"
          by (simp add: accounts_def history_def set_chan_def)
      qed (use c stay in \<open>auto simp: set_chan_def\<close>)
    qed
  next
    case Reserving
    obtain r c where r: "mpsc_reserve (bc_chan ?b i) = (r, c)" by fastforce
    show ?thesis
    proof (cases r)
      case Pending
      with assms Some Reserving r show ?thesis by (simp add: lag_task_def)
    next
      case (Ready res)
      from chan_ok_mpsc_reserve [OF ok r] have c: "chan_ok c" "mq_rx_alive c = mq_rx_alive (bc_chan ?b i)"
        "mq_queue c = mq_queue (bc_chan ?b i)"
        by auto
      have t: "lag_task i ?b = set_chan i c ?b\<lparr>bc_tasks := (bc_tasks ?b)(i \<mapsto> HandingBack (res = None))\<rparr>"
        using Some Reserving r Ready by (simp add: lag_task_def set_chan_def)
      show ?thesis
        unfolding t
        by (rule one_subscriber_inv [OF assms, where i = i])
          (use c stay acc Some Reserving i in \<open>auto simp: set_chan_def accounts_def history_def\<close>)
    qed
  next
    case (HandingBack permit)
    have "places_ok (lag_task i ?b)"
    proof -
      have "dom ((bc_tasks ?b)(i := None)) = dom (bc_tasks ?b) - {i}" "card (dom (bc_tasks ?b)) > 0"
        using p Some by (auto simp: places_ok_def card_gt_0_iff)
      then show ?thesis
        using p Some HandingBack i by (auto simp: places_ok_def lag_task_def card_Diff_singleton dom_def)
    qed
    then show ?thesis
      by (intro one_subscriber_inv [OF assms, where i = i])
        (use ok acc Some HandingBack i in \<open>auto simp: lag_task_def accounts_def history_def\<close>)
  qed
qed

lemma chan_ok_recv:
  assumes "chan_ok c" "mq_rx_alive c" "broadcast_recv c = (r, c')"
  shows "chan_ok c' \<and> mq_rx_alive c' \<and> got_of r @ values_of (mq_queue c') = values_of (mq_queue c)"
proof (cases "mq_queue c")
  case Nil
  with assms show ?thesis
    by (auto simp: broadcast_recv_def chan_ok_def disconnected_def)
next
  case (Cons x q)
  with assms(1) obtain m where "x = Inr m"
    by (cases x) (auto simp: chan_ok_def)
  with Cons assms show ?thesis
    by (cases m) (auto simp: broadcast_recv_def chan_ok_def)
qed

lemma chan_step_inv:
  assumes "bc_inv w" "i < bc_count (bw_chan w) \<Longrightarrow> chan_ok c"
    "i < bc_count (bw_chan w) \<Longrightarrow> mq_rx_alive c \<Longrightarrow> mq_rx_alive (bc_chan (bw_chan w) i) \<and>
       g @ values_of (mq_queue c) = values_of (mq_queue (bc_chan (bw_chan w) i))"
  shows "bc_inv (w\<lparr>bw_chan := (set_chan i c (bw_chan w))\<lparr>bc_releasing := rel\<rparr>,
    bw_got := (bw_got w)(i := bw_got w i @ g)\<rparr>)" (is "bc_inv ?w")
proof (rule one_subscriber_inv [OF assms(1), where i = i])
  assume i: "i < bc_count (bw_chan w)" "mq_rx_alive (bc_chan (bw_chan ?w) i)"
  then have "history ?w i = history w i" "accounts w i"
    using assms by (auto simp: history_def set_chan_def bc_inv_def)
  then show "accounts ?w i"
    by (simp add: accounts_def set_chan_def)
next
  show "places_ok (bw_chan ?w)"
    using assms(1) by (simp add: bc_inv_def places_ok_def set_chan_def)
qed (use assms(2) in \<open>simp_all add: set_chan_def\<close>)

lemma bc_step_inv:
  assumes "bc_step w w'" "bc_inv w"
  shows "bc_inv w'"
  using assms
proof cases
  case (bc_subscribe n i b)
  with subscribe_inv [OF assms(2) bc_subscribe(2)] show ?thesis by simp
next
  case (bc_send v r b)
  with send_inv [OF assms(2) bc_send(2)] show ?thesis by simp
next
  case (bc_task i)
  with lag_task_inv [OF assms(2)] show ?thesis by simp
next
  case (bc_release i)
  have "bc_inv (w\<lparr>bw_chan := (set_chan i (permit_drop (bc_chan (bw_chan w) i)) (bw_chan w))
      \<lparr>bc_releasing := (bc_releasing (bw_chan w))(i := bc_releasing (bw_chan w) i - 1)\<rparr>,
    bw_got := (bw_got w)(i := bw_got w i @ [])\<rparr>)"
    by (rule chan_step_inv [OF assms(2)])
      (use assms(2) in \<open>auto simp: permit_drop_def bc_inv_def intro: chan_ok_history\<close>)
  then show ?thesis
    by (simp add: bc_release lag_release_def)
next
  case (bc_recv i r c)
  have "bc_inv (w\<lparr>bw_chan := (set_chan i c (bw_chan w))\<lparr>bc_releasing := bc_releasing (bw_chan w)\<rparr>,
    bw_got := (bw_got w)(i := bw_got w i @ got_of r)\<rparr>)"
    by (rule chan_step_inv [OF assms(2)])
      (use chan_ok_recv [OF _ bc_recv(3,4)] assms(2) bc_recv(2,3) in \<open>auto simp: bc_inv_def\<close>)
  then show ?thesis
    by (simp add: bc_recv(1) set_chan_def)
next
  case (bc_drop i)
  have "bc_inv (w\<lparr>bw_chan := (set_chan i (receiver_drop (bc_chan (bw_chan w) i)) (bw_chan w))
      \<lparr>bc_releasing := bc_releasing (bw_chan w)\<rparr>, bw_got := (bw_got w)(i := bw_got w i @ [])\<rparr>)"
    by (rule chan_step_inv [OF assms(2)])
      (use assms(2) in \<open>auto simp: receiver_drop_def bc_inv_def chan_ok_def\<close>)
  then show ?thesis
    by (simp add: bc_drop set_chan_def)
next
  case (bc_dropped i)
  have "bc_inv (w\<lparr>bw_chan := (set_chan i (drop_when_closed False (bc_chan (bw_chan w) i)) (bw_chan w))
      \<lparr>bc_releasing := bc_releasing (bw_chan w)\<rparr>, bw_got := (bw_got w)(i := bw_got w i @ [])\<rparr>)"
    by (rule chan_step_inv [OF assms(2)])
      (use assms(2) in \<open>auto simp: drop_when_closed_def bc_inv_def chan_ok_def split: if_splits\<close>)
  then show ?thesis
    by (simp add: bc_dropped set_chan_def)
qed

lemma bc_reachable_inv: "bc_reachable w \<Longrightarrow> bc_inv w"
proof (induction rule: bc_reachable.induct)
  case bc_init
  show ?case by (simp add: bc_inv_def places_ok_def new_broadcast_def)
qed (rule bc_step_inv)

section \<open>Properties\<close>

text \<open>C28: A receiver is told of every loss. In every reachable state of a broadcast channel, what a
  receiver has got accounts for the values sent since it subscribed up to some point: they came
  in order, and wherever values are missing there is a lag notification in their place. A
  receiver without a notification has got the first values sent, none of them missing.\<close>

theorem broadcast_lag_announced:
  assumes "bc_reachable w" "i < bc_count (bw_chan w)" "mq_rx_alive (bc_chan (bw_chan w) i)"
  shows "(\<exists>n \<le> length (bw_sent w i). synced (take n (bw_sent w i)) (bw_got w i)) \<and>
    (BcLagged \<notin> set (bw_got w i) \<longrightarrow> bw_got w i = map BcValue (take (length (bw_got w i)) (bw_sent w i)))"
proof -
  have "accounts w i"
    using bc_reachable_inv [OF assms(1)] assms(2,3) by (auto simp: bc_inv_def)
  then obtain s r where s: "bw_sent w i = s @ r" "synced s (history w i)"
    by (auto simp: accounts_def)
  from synced_prefix [OF s(2) [unfolded history_def]] obtain n where
    n: "n \<le> length s" "synced (take n s) (bw_got w i)"
    by blast
  then have "synced (take n (bw_sent w i)) (bw_got w i)" "n \<le> length (bw_sent w i)"
    by (simp_all add: s(1))
  moreover have "bw_got w i = map BcValue (take (length (bw_got w i)) (bw_sent w i))"
    if "BcLagged \<notin> set (bw_got w i)"
  proof -
    note g = synced_no_lag [OF calculation(1) that]
    then have "length (bw_got w i) = n"
      using calculation(2) by (metis length_map length_take min.absorb2)
    with g show ?thesis by simp
  qed
  ultimately show ?thesis by blast
qed

text \<open>C31: Sending fails exactly when no subscriber is left. In every reachable state, sending a value
  returns. Let the subscribers be those that stay ready and those that are not ready, as
  \<^verbatim>\<open>receiver_count\<close> counts them: the send fails, with \<^verbatim>\<open>Closed\<close> and the value, if there is none, and
  otherwise succeeds and tells those that stay ready. They are the ones into whose channel the value
  has been put; every other channel is as before. No subscriber whose receiver is alive is lost, and
  the count of those not ready is that of the running tasks.\<close>

theorem broadcast_send_returns:
  assumes "bc_reachable w"
  shows "\<exists>r b. broadcast_send v (bw_chan w) = Ret (r, b) \<and>
    r = (if receiver_count b = 0 then Inl (BroadcastClosed v) else Inr (bc_subs b)) \<and>
    (receiver_count b = 0 \<longleftrightarrow> bc_subs b = [] \<and> dom (bc_tasks b) = {}) \<and>
    bc_chan b = (\<lambda>i. if i \<in> set (bc_subs b) then enqueue (BcValue v) (bc_chan (bw_chan w) i)
                    else bc_chan (bw_chan w) i) \<and>
    {i. i < bc_count b \<and> mq_rx_alive (bc_chan b i)} \<subseteq> set (bc_subs b) \<union> dom (bc_tasks b) \<and>
    bc_ready b = [] \<and> bc_not_ready b = card (dom (bc_tasks b))"
proof -
  let ?b = "bw_chan w"
  have inv: "bc_inv w"
    using assms by (rule bc_reachable_inv)
  then have p: "places_ok ?b" and remote: "\<forall>i < bc_count ?b. mq_remote_error (bc_chan ?b i) = None"
    by (auto simp: bc_inv_def chan_ok_def)
  from broadcast_send_effect [OF p, of v] obtain r b where
    send: "broadcast_send v ?b = Ret (r, b)" and
    subs: "bc_subs b = filter (\<lambda>i. try_value v ?b i = None) (bc_subs ?b @ bc_ready ?b)" "bc_ready b = []" and
    chan: "bc_chan b = (\<lambda>i. if i \<in> set (bc_subs ?b @ bc_ready ?b) \<and> try_value v ?b i = None
                       then enqueue (BcValue v) (bc_chan ?b i) else bc_chan ?b i)"
    by blast
  have "bc_step w (w\<lparr>bw_chan := b, bw_sent := (\<lambda>i. bw_sent w i @ [v])\<rparr>)"
    using send by (rule bc_send)
  from bc_step_inv [OF this inv] have inv': "bc_inv (w\<lparr>bw_chan := b, bw_sent := (\<lambda>i. bw_sent w i @ [v])\<rparr>)" .
  then have p': "bc_not_ready b = card (dom (bc_tasks b))" "finite (dom (bc_tasks b))"
    by (simp_all add: bc_inv_def places_ok_def subs(2))
  moreover have "bc_chan b = (\<lambda>i. if i \<in> set (bc_subs b) then enqueue (BcValue v) (bc_chan ?b i) else bc_chan ?b i)"
    unfolding chan subs(1) by auto
  moreover have "{i. i < bc_count b \<and> mq_rx_alive (bc_chan b i)} \<subseteq> set (bc_subs b) \<union> dom (bc_tasks b)"
    using inv' by (auto simp: bc_inv_def accounts_def subs(2))
  moreover have "receiver_count b = 0 \<longleftrightarrow> bc_subs b = [] \<and> dom (bc_tasks b) = {}"
    using p' by (simp add: receiver_count_def card_eq_0_iff)
  ultimately show ?thesis
    using send broadcast_send_result [OF p remote send] subs(2)
    by (intro exI [of _ r] exI [of _ b] conjI) assumption+
qed

text \<open>An example with room for one value: the second value does not fit, and the receiver gets the
  first value and the mark.\<close>

definition example_bc :: "nat broadcast_msg list \<Rightarrow> nat list \<Rightarrow> lag_stage option \<Rightarrow> nat broadcast" where
  "example_bc q subs stage =
     \<lparr>bc_chan = (bc_chan new_broadcast)(0 := \<lparr>mq_queue = map Inr q, mq_capacity = 1, mq_reserved = 0,
        mq_tx_alive = True, mq_rx_alive = True, mq_closed_reason = None, mq_remote_error = None,
        mq_final_error = None\<rparr>),
      bc_count = 1, bc_subs = subs, bc_ready = [], bc_not_ready = 1 - length subs,
      bc_tasks = (\<lambda>_. None)(0 := stage), bc_releasing = (\<lambda>_. 0)\<rparr>"

definition example_world :: "nat broadcast \<Rightarrow> nat list \<Rightarrow> nat broadcast_msg list \<Rightarrow> nat bc_world" where
  "example_world b sent got = \<lparr>bw_chan = b, bw_sent = \<lambda>_. sent, bw_got = (\<lambda>_. [])(0 := got)\<rparr>"

lemma example_steps:
  "bc_reachable (example_world (example_bc [] [0] None) [] [])"
  "bc_reachable (example_world (example_bc [BcValue 1] [0] None) [1] [])"
  "bc_reachable (example_world (example_bc [BcValue 1] [] (Some SendingLagged)) [1, 2] [])"
  "bc_reachable (example_world (example_bc [] [] (Some SendingLagged)) [1, 2] [BcValue 1])"
  "bc_reachable (example_world (example_bc [BcLagged] [] (Some Reserving)) [1, 2] [BcValue 1])"
  "bc_reachable (example_world (example_bc [] [] (Some Reserving)) [1, 2] [BcValue 1, BcLagged])"
proof -
  note defs = example_world_def example_bc_def new_broadcast_def
  have "bc_step (\<lparr>bw_chan = new_broadcast, bw_sent = \<lambda>_. [], bw_got = \<lambda>_. []\<rparr> :: nat bc_world)
      (example_world (example_bc [] [0] None) [] [])"
    using bc_subscribe [of 1 "\<lparr>bw_chan = new_broadcast, bw_sent = \<lambda>_. [], bw_got = \<lambda>_. []\<rparr> :: nat bc_world"]
    by (simp add: defs subscribe_def with_local_buffer_def fun_upd_def)
  with bc_init show 1: "bc_reachable (example_world (example_bc [] [0] None) [] [])"
    by (rule bc_next)
  have "bc_step (example_world (example_bc [] [0] None) [] []) (example_world (example_bc [BcValue 1] [0] None) [1] [])"
    using bc_send [of 1 "example_world (example_bc [] [0] None) [] []"]
    by (simp add: defs broadcast_send_def mpsc_try_send_def mq_full_def enqueue_def set_chan_def Let_def)
  with 1 show 2: "bc_reachable (example_world (example_bc [BcValue 1] [0] None) [1] [])"
    by (rule bc_next)
  have "bc_step (example_world (example_bc [BcValue 1] [0] None) [1] [])
      (example_world (example_bc [BcValue 1] [] (Some SendingLagged)) [1, 2] [])"
    using bc_send [of 2 "example_world (example_bc [BcValue 1] [0] None) [1] []"]
    by (simp add: defs broadcast_send_def mpsc_try_send_def mq_full_def Let_def)
  with 2 show 3: "bc_reachable (example_world (example_bc [BcValue 1] [] (Some SendingLagged)) [1, 2] [])"
    by (rule bc_next)
  have "bc_step (example_world (example_bc [BcValue 1] [] (Some SendingLagged)) [1, 2] [])
      (example_world (example_bc [] [] (Some SendingLagged)) [1, 2] [BcValue 1])"
    using bc_recv [of 0 "example_world (example_bc [BcValue 1] [] (Some SendingLagged)) [1, 2] []"]
    by (simp add: defs broadcast_recv_def set_chan_def)
  with 3 show 4: "bc_reachable (example_world (example_bc [] [] (Some SendingLagged)) [1, 2] [BcValue 1])"
    by (rule bc_next)
  have "bc_step (example_world (example_bc [] [] (Some SendingLagged)) [1, 2] [BcValue 1])
      (example_world (example_bc [BcLagged] [] (Some Reserving)) [1, 2] [BcValue 1])"
    using bc_task [of "example_world (example_bc [] [] (Some SendingLagged)) [1, 2] [BcValue 1]" 0]
    by (simp add: defs lag_task_def mpsc_send_def queue_send_def mq_full_def enqueue_def set_chan_def)
  with 4 show 5: "bc_reachable (example_world (example_bc [BcLagged] [] (Some Reserving)) [1, 2] [BcValue 1])"
    by (rule bc_next)
  have "bc_step (example_world (example_bc [BcLagged] [] (Some Reserving)) [1, 2] [BcValue 1])
      (example_world (example_bc [] [] (Some Reserving)) [1, 2] [BcValue 1, BcLagged])"
    using bc_recv [of 0 "example_world (example_bc [BcLagged] [] (Some Reserving)) [1, 2] [BcValue 1]"]
    by (simp add: defs broadcast_recv_def set_chan_def)
  with 5 show "bc_reachable (example_world (example_bc [] [] (Some Reserving)) [1, 2] [BcValue 1, BcLagged])"
    by (rule bc_next)
qed

theorem broadcast_lag_announced_witness:
  "\<exists>n \<le> length [1, 2 :: nat]. synced (take n [1, 2]) [BcValue (1 :: nat), BcLagged]"
  using broadcast_lag_announced [OF example_steps(6), of 0]
  by (simp add: example_world_def example_bc_def)

text \<open>A send to the one subscriber that lags succeeds, with nobody to tell.\<close>

theorem broadcast_send_returns_witness:
  "\<exists>r b. broadcast_send 3 (example_bc [BcLagged] [] (Some Reserving)) = Ret (r, b) \<and>
    r = Inr [] \<and> 0 < receiver_count b"
proof -
  have run: "broadcast_send 3 (example_bc [BcLagged] [] (Some Reserving)) =
      Ret (Inr [], example_bc [BcLagged] [] (Some Reserving))"
    by (simp add: example_bc_def new_broadcast_def broadcast_send_def Let_def)
  show ?thesis
    using broadcast_send_returns [OF example_steps(5), of 3] run
    by (auto simp: example_world_def split: if_splits)
qed

end
