(* ===== verification/Robs.thy ===== *)
theory Robs
  imports Broadcast
begin

text \<open>
  What the observable collections share, \<^verbatim>\<open>remoc/src/robs/mod.rs\<close> and the parts of
  \<^verbatim>\<open>vec.rs\<close>, \<^verbatim>\<open>vec_deque.rs\<close>, \<^verbatim>\<open>hash_map.rs\<close> and \<^verbatim>\<open>hash_set.rs\<close> that are the same up to the type of
  the collection: subscriptions and mirrors. An operation of an observable collection returns
  what it does besides: local notifications and change events, in order. A mirror is a task that
  receives the events of a subscription and applies them; it runs until the channels of its
  subscription are empty or it ends.
\<close>

section \<open>Errors\<close>

datatype robs_send_error =
    RobsSend send_error_kind
  | RobsSendConnect connect_error
  | RobsSendListen listener_error
  | RobsSendForward

fun robs_send_error_of :: "'a broadcast_error \<Rightarrow> robs_send_error option" where
  "robs_send_error_of (BroadcastSend err) = Some (RobsSend err)"
| "robs_send_error_of (BroadcastConnect err) = Some (RobsSendConnect err)"
| "robs_send_error_of (BroadcastListen err) = Some (RobsSendListen err)"
| "robs_send_error_of BroadcastForward = Some RobsSendForward"
| "robs_send_error_of (BroadcastClosed _) = None"

datatype robs_error =
    RobsClosed
  | RobsLagged
  | MaxSizeExceeded nat
  | RobsReceive base_recv_error
  | RobsConnect connect_error
  | RobsListen listener_error
  | InvalidIndex nat
  | RobsRemote "robs_error option"

primrec robs_error_of_broadcast :: "broadcast_recv_error \<Rightarrow> robs_error" where
  "robs_error_of_broadcast BcRecvClosed = RobsClosed"
| "robs_error_of_broadcast BcRecvLagged = RobsLagged"
| "robs_error_of_broadcast (BcReceive err) = RobsReceive err"
| "robs_error_of_broadcast (BcRecvConnect err) = RobsConnect err"
| "robs_error_of_broadcast (BcRecvListen err) = RobsListen err"
| "robs_error_of_broadcast (BcRemote err) = RobsRemote (map_option robs_error_of_broadcast err)"

primrec robs_error_of_mpsc :: "mpsc_recv_error \<Rightarrow> robs_error" where
  "robs_error_of_mpsc (MpscReceive err) = RobsReceive err"
| "robs_error_of_mpsc (MpscRecvConnect err) = RobsConnect err"
| "robs_error_of_mpsc (MpscRecvListen err) = RobsListen err"
| "robs_error_of_mpsc (MpscRemote err) = RobsRemote (map_option robs_error_of_mpsc err)"

section \<open>Sending change events\<close>

text \<open>The result tells the error handed to the error handler.\<close>

definition send_event :: "'e \<Rightarrow> 'e broadcast \<Rightarrow> (robs_send_error option \<times> 'e broadcast) exec" where
  "send_event ev b =
     exec_bind (broadcast_send ev b) (\<lambda>(res, b).
       case res of
         Inr _ \<Rightarrow> Ret (None, b)
       | Inl err \<Rightarrow>
           if broadcast_is_disconnected err then Ret (None, b)
           else (case robs_send_error_of err of Some e \<Rightarrow> Ret (Some e, b) | None \<Rightarrow> Panic))"

record 'c observable =
  ob_items :: 'c
  ob_done :: bool

datatype 'e robs_out = Notified | Sent 'e

type_synonym ('c, 'e, 'r) robs_result = "('r \<times> 'e robs_out list \<times> 'c observable) exec"

definition unless_done :: "'c observable \<Rightarrow> ('c, 'e, 'r) robs_result \<Rightarrow> ('c, 'e, 'r) robs_result" where
  "unless_done ob r = (if ob_done ob then Panic else r)"

fun events_of :: "'e robs_out list \<Rightarrow> 'e list" where
  "events_of [] = []"
| "events_of (Notified # out) = events_of out"
| "events_of (Sent ev # out) = ev # events_of out"

lemma events_of_append [simp]: "events_of (a @ b) = events_of a @ events_of b"
  by (induction a rule: events_of.induct) simp_all

text \<open>The events of an operation handed to the broadcast channel; errors go to the error handler.\<close>

fun publish :: "'e robs_out list \<Rightarrow> 'e broadcast \<Rightarrow> (robs_send_error list \<times> 'e broadcast) exec" where
  "publish [] b = Ret ([], b)"
| "publish (Notified # out) b = publish out b"
| "publish (Sent ev # out) b =
     exec_bind (send_event ev b) (\<lambda>(err, b).
       exec_bind (publish out b) (\<lambda>(errs, b).
         Ret ((case err of Some e \<Rightarrow> [e] | None \<Rightarrow> []) @ errs, b)))"

section \<open>Subscriptions\<close>

datatype ('c, 'i) initial_value = InitialValue 'c | Incremental nat "'i mpsc"

record ('c, 'i, 'e) subscription =
  sb_initial :: "('c, 'i) initial_value"
  sb_complete :: bool
  sb_events :: "'e broadcast_msg mpsc option"
  sb_done :: bool

definition new_subscription :: "('c, 'i) initial_value \<Rightarrow> 'e broadcast_msg mpsc option \<Rightarrow> ('c, 'i, 'e) subscription" where
  "new_subscription initial events =
     \<lparr>sb_initial = initial, sb_complete = False, sb_events = events, sb_done = False\<rparr>"

definition is_incremental :: "('c, 'i, 'e) subscription \<Rightarrow> bool" where
  "is_incremental sub \<longleftrightarrow> (case sb_initial sub of Incremental _ _ \<Rightarrow> True | InitialValue _ \<Rightarrow> False)"

definition sub_is_done :: "('c, 'i, 'e) subscription \<Rightarrow> bool" where
  "sub_is_done sub \<longleftrightarrow> sb_events sub = None \<or> sb_done sub"

text \<open>Subscribing to a collection: \<open>rx\<close> is the receiver the broadcast channel gives, and \<open>initial_rx\<close>
  that of the task that sends the initial items one by one.\<close>

definition subscribe_value :: "'c observable \<Rightarrow> 'e broadcast_msg mpsc \<Rightarrow> ('c, 'i, 'e) subscription" where
  "subscribe_value ob rx =
     new_subscription (InitialValue (ob_items ob)) (if ob_done ob then None else Some rx)"

definition subscribe_incremental :: "nat \<Rightarrow> 'i mpsc \<Rightarrow> 'c observable \<Rightarrow> 'e broadcast_msg mpsc \<Rightarrow> ('c, 'i, 'e) subscription" where
  "subscribe_incremental len initial_rx ob rx =
     new_subscription (Incremental len initial_rx) (if ob_done ob then None else Some rx)"

definition take_initial :: "'c \<Rightarrow> ('c, 'i, 'e) subscription \<Rightarrow> 'c option \<times> ('c, 'i, 'e) subscription" where
  "take_initial dflt sub =
     (case sb_initial sub of
        InitialValue c \<Rightarrow>
          if \<not> sb_complete sub then (Some c, sub\<lparr>sb_initial := InitialValue dflt, sb_complete := True\<rparr>)
          else (None, sub)
      | Incremental _ _ \<Rightarrow> (None, sub))"

text \<open>The done event; it is provided once.\<close>

definition provide_done :: "'e \<Rightarrow> ('c, 'i, 'e) subscription \<Rightarrow> (robs_error + 'e option) polled \<times> ('c, 'i, 'e) subscription" where
  "provide_done done_ev sub =
     (if sb_done sub then (Ready (Inr None), sub)
      else (Ready (Inr (Some done_ev)), sub\<lparr>sb_done := True\<rparr>))"

definition sub_recv :: "('i \<Rightarrow> 'e) \<Rightarrow> 'e \<Rightarrow> 'e \<Rightarrow> ('c, 'i, 'e) subscription \<Rightarrow>
    ((robs_error + 'e option) polled \<times> ('c, 'i, 'e) subscription) exec" where
  "sub_recv item_ev complete_ev done_ev sub =
     (if \<not> sb_complete sub
      then (case sb_initial sub of
              Incremental len rx \<Rightarrow>
                if len > 0
                then (case mpsc_recv rx of
                        (Pending, rx) \<Rightarrow> Ret (Pending, sub\<lparr>sb_initial := Incremental len rx\<rparr>)
                      | (Ready (Inl err), rx) \<Rightarrow>
                          Ret (Ready (Inl (robs_error_of_mpsc err)), sub\<lparr>sb_initial := Incremental len rx\<rparr>)
                      | (Ready (Inr (Some v)), rx) \<Rightarrow>
                          Ret (Ready (Inr (Some (item_ev v))), sub\<lparr>sb_initial := Incremental (len - 1) rx\<rparr>)
                      | (Ready (Inr None), rx) \<Rightarrow>
                          Ret (Ready (Inl RobsClosed), sub\<lparr>sb_initial := Incremental len rx\<rparr>))
                else Ret (Ready (Inr (Some complete_ev)), sub\<lparr>sb_complete := True\<rparr>)
            | InitialValue _ \<Rightarrow> Panic)
      else (case sb_events sub of
              Some rx \<Rightarrow>
                (case broadcast_recv rx of
                   (Pending, rx) \<Rightarrow> Ret (Pending, sub\<lparr>sb_events := Some rx\<rparr>)
                 | (Ready (Inl err), rx) \<Rightarrow>
                     Ret (Ready (Inl (robs_error_of_broadcast err)), sub\<lparr>sb_events := Some rx\<rparr>)
                 | (Ready (Inr ev), rx) \<Rightarrow>
                     if ev = done_ev then Ret (provide_done done_ev (sub\<lparr>sb_events := None\<rparr>))
                     else Ret (Ready (Inr (Some ev)), sub\<lparr>sb_events := Some rx\<rparr>))
            | None \<Rightarrow> Ret (provide_done done_ev sub)))"

section \<open>Mirrors\<close>

record 'c mirrored =
  mi_items :: 'c
  mi_complete :: bool
  mi_done :: bool
  mi_error :: "robs_error option"
  mi_max_size :: nat

type_synonym ('c, 'e) event_handler = "'e \<Rightarrow> 'c mirrored \<Rightarrow> robs_error option \<times> 'c mirrored"

definition mirror_start :: "'c \<Rightarrow> nat \<Rightarrow> ('c, 'i, 'e) subscription \<Rightarrow> 'c mirrored \<times> ('c, 'i, 'e) subscription" where
  "mirror_start dflt max_size sub =
     (case take_initial dflt sub of (initial, sub) \<Rightarrow>
        (\<lparr>mi_items = (case initial of Some c \<Rightarrow> c | None \<Rightarrow> dflt), mi_complete = sb_complete sub,
          mi_done = sub_is_done sub, mi_error = None, mi_max_size = max_size\<rparr>, sub))"

text \<open>The loop of the task. Besides the mirror it gives the events forwarded to the subscribers of the
  mirror, and whether the task still runs.\<close>

definition sub_size :: "('c, 'i, 'e) subscription \<Rightarrow> nat" where
  "sub_size sub =
     (if sb_complete sub then 0
      else case sb_initial sub of Incremental _ rx \<Rightarrow> length (mq_queue rx) + 1 | InitialValue _ \<Rightarrow> 0) +
     (case sb_events sub of Some rx \<Rightarrow> length (mq_queue rx) + 1 | None \<Rightarrow> 0) +
     (if sb_done sub then 0 else 1)"

lemma mpsc_recv_shorter:
  "mpsc_recv c = (Ready (Inr (Some v)), c') \<Longrightarrow> length (mq_queue c') < length (mq_queue c)"
proof (induction c rule: mpsc_recv.induct)
  case (1 c)
  show ?case
  proof (cases "mq_queue c")
    case Nil
    with 1(2) show ?thesis
      by (auto simp: mpsc_recv.simps [of c] take_error_def split: if_splits option.splits)
  next
    case (Cons x q)
    with 1 show ?thesis
      by (cases x) (fastforce simp: mpsc_recv.simps [of c] hold_error_def split: if_splits)+
  qed
qed

lemma broadcast_recv_shorter:
  "broadcast_recv c = (Ready (Inr ev), c') \<Longrightarrow> length (mq_queue c') < length (mq_queue c)"
  by (auto simp: broadcast_recv_def dest: mpsc_recv_shorter
      split: prod.splits polled.splits sum.splits option.splits broadcast_msg.splits)

lemma sub_recv_smaller:
  "sub_recv item_ev complete_ev done_ev sub = Ret (Ready (Inr (Some ev)), sub') \<Longrightarrow> sub_size sub' < sub_size sub"
  by (auto simp: sub_recv_def sub_size_def provide_done_def
      dest: mpsc_recv_shorter broadcast_recv_shorter
      split: if_splits option.splits prod.splits polled.splits sum.splits initial_value.splits)

function mirror_loop :: "('c, 'e) event_handler \<Rightarrow> ('i \<Rightarrow> 'e) \<Rightarrow> 'e \<Rightarrow> 'e \<Rightarrow>
    'c mirrored \<Rightarrow> ('c, 'i, 'e) subscription \<Rightarrow> (bool \<times> 'e list \<times> 'c mirrored \<times> ('c, 'i, 'e) subscription) exec" where
  "mirror_loop handle item_ev complete_ev done_ev m sub =
     (case sub_recv item_ev complete_ev done_ev sub of
        Panic \<Rightarrow> Panic
      | Ret (Pending, sub) \<Rightarrow> Ret (True, [], m, sub)
      | Ret (Ready (Inl err), sub) \<Rightarrow> Ret (False, [], m\<lparr>mi_error := Some err\<rparr>, sub)
      | Ret (Ready (Inr None), sub) \<Rightarrow> Ret (False, [], m, sub)
      | Ret (Ready (Inr (Some ev)), sub) \<Rightarrow>
          (case handle ev m of
             (Some err, m) \<Rightarrow> Ret (False, [ev], m\<lparr>mi_error := Some err\<rparr>, sub)
           | (None, m) \<Rightarrow>
               if mi_done m then Ret (False, [ev], m, sub)
               else exec_bind (mirror_loop handle item_ev complete_ev done_ev m sub)
                 (\<lambda>(running, evs, m, sub). Ret (running, ev # evs, m, sub))))"
  by auto
termination
  by (relation "measure (\<lambda>(handle, item_ev, complete_ev, done_ev, m, sub). sub_size sub)")
    (auto dest: sub_recv_smaller)

declare mirror_loop.simps [simp del]

definition mirror :: "('c, 'e) event_handler \<Rightarrow> ('i \<Rightarrow> 'e) \<Rightarrow> 'e \<Rightarrow> 'e \<Rightarrow> 'c \<Rightarrow> nat \<Rightarrow>
    ('c, 'i, 'e) subscription \<Rightarrow> (bool \<times> 'e list \<times> 'c mirrored \<times> ('c, 'i, 'e) subscription) exec" where
  "mirror handle item_ev complete_ev done_ev dflt max_size sub =
     (case mirror_start dflt max_size sub of (m, sub) \<Rightarrow>
        mirror_loop handle item_ev complete_ev done_ev m sub)"

definition mirror_borrow :: "'c mirrored \<Rightarrow> robs_error + ('c \<times> bool \<times> bool)" where
  "mirror_borrow m =
     (case mi_error m of None \<Rightarrow> Inr (mi_items m, mi_complete m, mi_done m) | Some err \<Rightarrow> Inl err)"

definition mirror_detach :: "'c mirrored \<Rightarrow> 'c" where
  "mirror_detach m = mi_items m"

text \<open>Subscribing to a mirror: \<open>upgraded\<close> tells whether the task still holds the broadcast sender.\<close>

definition mirror_subscribe :: "'c mirrored \<Rightarrow> bool \<Rightarrow> 'e broadcast_msg mpsc \<Rightarrow> robs_error + ('c, 'i, 'e) subscription" where
  "mirror_subscribe m upgraded rx =
     (case mirror_borrow m of
        Inl err \<Rightarrow> Inl err
      | Inr (c, _, finished) \<Rightarrow>
          Inr (new_subscription (InitialValue c) (if finished \<or> \<not> upgraded then None else Some rx)))"

section \<open>Collections and their change events\<close>

text \<open>Whether a mirror takes a list of events: \<open>refusal\<close> tells the error an event ends it with.\<close>

fun accepted :: "(nat \<Rightarrow> 'e \<Rightarrow> 'c \<Rightarrow> robs_error option) \<Rightarrow> ('e \<Rightarrow> 'c \<Rightarrow> 'c) \<Rightarrow> nat \<Rightarrow> 'e list \<Rightarrow> 'c \<Rightarrow> bool" where
  "accepted refusal effect n [] c \<longleftrightarrow> True"
| "accepted refusal effect n (ev # evs) c \<longleftrightarrow>
     refusal n ev c = None \<and> accepted refusal effect n evs (effect ev c)"

lemma accepted_append [simp]:
  "accepted refusal effect n (evs @ evs') c \<longleftrightarrow>
     accepted refusal effect n evs c \<and> accepted refusal effect n evs' (fold effect evs c)"
  by (induction evs arbitrary: c) auto

text \<open>How the channel of a subscription goes on after some change events.\<close>

datatype mirror_end = StillOpen | Finished | FailedWith robs_error

fun delivers :: "'e \<Rightarrow> 'e broadcast_msg mpsc \<Rightarrow> 'e list \<Rightarrow> mirror_end \<Rightarrow> bool" where
  "delivers done_ev rx evs StillOpen \<longleftrightarrow>
     mq_queue rx = map (Inr \<circ> BcValue) evs \<and> \<not> disconnected rx"
| "delivers done_ev rx evs Finished \<longleftrightarrow>
     (\<exists>rest. mq_queue rx = map (Inr \<circ> BcValue) evs @ Inr (BcValue done_ev) # rest)"
| "delivers done_ev rx evs (FailedWith err) \<longleftrightarrow>
     (err = RobsLagged \<and> (\<exists>rest. mq_queue rx = map (Inr \<circ> BcValue) evs @ Inr BcLagged # rest)) \<or>
     (err = RobsClosed \<and> mq_queue rx = map (Inr \<circ> BcValue) evs \<and> disconnected rx \<and> mq_final_error rx = None)"

text \<open>What a mirror holds once the events before the end of its channel have been applied.\<close>

definition mirrors :: "'c \<Rightarrow> mirror_end \<Rightarrow> nat \<Rightarrow> (bool \<times> 'e list \<times> 'c mirrored \<times> ('c, 'i, 'e) subscription) exec \<Rightarrow> bool" where
  "mirrors c fin n res \<longleftrightarrow>
     (\<exists>fwd m sub. res = Ret (fin = StillOpen, fwd, m, sub) \<and> mi_items m = c \<and> mi_complete m \<and>
        mi_done m = (fin = Finished) \<and> mi_max_size m = n \<and>
        mi_error m = (case fin of FailedWith err \<Rightarrow> Some err | _ \<Rightarrow> None))"

text \<open>The contract between a collection's event handler and the mirror: the done and the completion
  event set a flag, and a change event that is not refused only changes the items.\<close>

locale mirrored_collection =
  fixes handle :: "('c, 'e) event_handler"
    and item_ev :: "'i \<Rightarrow> 'e" and complete_ev :: 'e and done_ev :: 'e and dflt :: 'c
    and effect :: "'e \<Rightarrow> 'c \<Rightarrow> 'c" and refusal :: "nat \<Rightarrow> 'e \<Rightarrow> 'c \<Rightarrow> robs_error option"
  assumes handle_done: "handle done_ev m = (None, m\<lparr>mi_done := True\<rparr>)"
    and handle_complete: "handle complete_ev m = (None, m\<lparr>mi_complete := True\<rparr>)"
    and handle_change: "ev \<noteq> done_ev \<Longrightarrow> ev \<noteq> complete_ev \<Longrightarrow> refusal (mi_max_size m) ev (mi_items m) = None \<Longrightarrow>
      handle ev m = (None, m\<lparr>mi_items := effect ev (mi_items m)\<rparr>)"
    and handle_refused: "ev \<noteq> done_ev \<Longrightarrow> ev \<noteq> complete_ev \<Longrightarrow> refusal (mi_max_size m) ev (mi_items m) = Some err \<Longrightarrow>
      \<exists>c. handle ev m = (Some err, m\<lparr>mi_items := c\<rparr>)"
    and done_not_complete: "done_ev \<noteq> complete_ev"
    and item_ev_change: "item_ev v \<noteq> done_ev" "item_ev v \<noteq> complete_ev"
begin

lemma loop_events:
  assumes "sb_complete sub" "\<not> mi_done m" "sb_events sub = Some rx"
    "mq_queue rx = map (Inr \<circ> BcValue) evs @ rest" "done_ev \<notin> set evs" "complete_ev \<notin> set evs"
    "accepted refusal effect (mi_max_size m) evs (mi_items m)"
  shows "mirror_loop handle item_ev complete_ev done_ev m sub =
    exec_bind (mirror_loop handle item_ev complete_ev done_ev (m\<lparr>mi_items := fold effect evs (mi_items m)\<rparr>)
        (sub\<lparr>sb_events := Some (rx\<lparr>mq_queue := rest\<rparr>)\<rparr>))
      (\<lambda>(running, fwd, m, sub). Ret (running, evs @ fwd, m, sub))"
  using assms
proof (induction evs arbitrary: m sub rx)
  case Nil
  then have "sub\<lparr>sb_events := Some (rx\<lparr>mq_queue := rest\<rparr>)\<rparr> = sub"
    by simp
  then show ?case
    by (cases "mirror_loop handle item_ev complete_ev done_ev m sub") auto
next
  case (Cons ev evs)
  let ?rx = "rx\<lparr>mq_queue := map (Inr \<circ> BcValue) evs @ rest\<rparr>"
  have "sub_recv item_ev complete_ev done_ev sub = Ret (Ready (Inr (Some ev)), sub\<lparr>sb_events := Some ?rx\<rparr>)"
    using Cons.prems by (auto simp: sub_recv_def broadcast_recv_def)
  moreover have "handle ev m = (None, m\<lparr>mi_items := effect ev (mi_items m)\<rparr>)"
    using Cons.prems by (intro handle_change) auto
  ultimately have "mirror_loop handle item_ev complete_ev done_ev m sub =
      exec_bind (mirror_loop handle item_ev complete_ev done_ev (m\<lparr>mi_items := effect ev (mi_items m)\<rparr>)
          (sub\<lparr>sb_events := Some ?rx\<rparr>))
        (\<lambda>(running, fwd, m, sub). Ret (running, ev # fwd, m, sub))"
    using Cons.prems(2) by (simp add: mirror_loop.simps [of handle item_ev complete_ev done_ev m sub])
  also have "\<dots> = exec_bind (mirror_loop handle item_ev complete_ev done_ev
          (m\<lparr>mi_items := fold effect (ev # evs) (mi_items m)\<rparr>) (sub\<lparr>sb_events := Some (rx\<lparr>mq_queue := rest\<rparr>)\<rparr>))
      (\<lambda>(running, fwd, m, sub). Ret (running, (ev # evs) @ fwd, m, sub))"
    by (subst Cons.IH [where rx = ?rx]) (use Cons.prems in \<open>simp_all add: exec_bind_assoc case_prod_unfold\<close>)
  finally show ?case .
qed

lemma loop_initial:
  assumes "\<not> sb_complete sub" "\<not> mi_done m" "sb_initial sub = Incremental (length vs) rx"
    "mq_queue rx = map Inr vs @ rest" "accepted refusal effect (mi_max_size m) (map item_ev vs) (mi_items m)"
  shows "mirror_loop handle item_ev complete_ev done_ev m sub =
    exec_bind (mirror_loop handle item_ev complete_ev done_ev
        (m\<lparr>mi_items := fold effect (map item_ev vs) (mi_items m), mi_complete := True\<rparr>)
        (sub\<lparr>sb_initial := Incremental 0 (rx\<lparr>mq_queue := rest\<rparr>), sb_complete := True\<rparr>))
      (\<lambda>(running, fwd, m, sub). Ret (running, map item_ev vs @ complete_ev # fwd, m, sub))"
  using assms
proof (induction vs arbitrary: m sub rx)
  case Nil
  have "sub\<lparr>sb_initial := Incremental 0 (rx\<lparr>mq_queue := rest\<rparr>), sb_complete := True\<rparr> = sub\<lparr>sb_complete := True\<rparr>"
    using Nil by simp
  moreover have "m\<lparr>mi_items := fold effect (map item_ev []) (mi_items m), mi_complete := True\<rparr> = m\<lparr>mi_complete := True\<rparr>"
    by simp
  ultimately show ?case
    unfolding list.map list.size append_Nil using Nil
    by (simp only: mirror_loop.simps [of handle item_ev complete_ev done_ev m sub])
      (simp add: sub_recv_def handle_complete case_prod_unfold)
next
  case (Cons v vs)
  let ?rx = "rx\<lparr>mq_queue := map Inr vs @ rest\<rparr>"
  have "sub_recv item_ev complete_ev done_ev sub =
      Ret (Ready (Inr (Some (item_ev v))), sub\<lparr>sb_initial := Incremental (length vs) ?rx\<rparr>)"
    using Cons.prems by (simp add: sub_recv_def)
  moreover have "handle (item_ev v) m = (None, m\<lparr>mi_items := effect (item_ev v) (mi_items m)\<rparr>)"
    using Cons.prems item_ev_change by (intro handle_change) auto
  ultimately have "mirror_loop handle item_ev complete_ev done_ev m sub =
      exec_bind (mirror_loop handle item_ev complete_ev done_ev (m\<lparr>mi_items := effect (item_ev v) (mi_items m)\<rparr>)
          (sub\<lparr>sb_initial := Incremental (length vs) ?rx\<rparr>))
        (\<lambda>(running, fwd, m, sub). Ret (running, item_ev v # fwd, m, sub))"
    using Cons.prems(2) by (simp add: mirror_loop.simps [of handle item_ev complete_ev done_ev m sub])
  also have "\<dots> = exec_bind (mirror_loop handle item_ev complete_ev done_ev
          (m\<lparr>mi_items := fold effect (map item_ev (v # vs)) (mi_items m), mi_complete := True\<rparr>)
          (sub\<lparr>sb_initial := Incremental 0 (rx\<lparr>mq_queue := rest\<rparr>), sb_complete := True\<rparr>))
      (\<lambda>(running, fwd, m, sub). Ret (running, map item_ev (v # vs) @ complete_ev # fwd, m, sub))"
    by (subst Cons.IH [where rx = ?rx]) (use Cons.prems in \<open>simp_all add: exec_bind_assoc case_prod_unfold\<close>)
  finally show ?case .
qed

lemma loop_mirrors:
  assumes "sb_complete sub" "\<not> sb_done sub" "sb_events sub = Some rx" "delivers done_ev rx evs fin"
    "done_ev \<notin> set evs" "complete_ev \<notin> set evs" "accepted refusal effect (mi_max_size m) evs (mi_items m)"
    "\<not> mi_done m" "mi_complete m" "mi_error m = None"
  shows "mirrors (fold effect evs (mi_items m)) fin (mi_max_size m)
    (mirror_loop handle item_ev complete_ev done_ev m sub)"
proof -
  have stop: "mirrors (fold effect evs (mi_items m)) fin (mi_max_size m)
      (mirror_loop handle item_ev complete_ev done_ev m sub)"
    if q: "mq_queue rx = map (Inr \<circ> BcValue) evs @ rest"
      and e: "mirrors (fold effect evs (mi_items m)) fin (mi_max_size m)
        (mirror_loop handle item_ev complete_ev done_ev (m\<lparr>mi_items := fold effect evs (mi_items m)\<rparr>)
          (sub\<lparr>sb_events := Some (rx\<lparr>mq_queue := rest\<rparr>)\<rparr>))" for rest
    unfolding loop_events [OF assms(1,8,3) q assms(5-7)] using e by (auto simp: mirrors_def)
  show ?thesis
  proof (cases fin)
    case StillOpen
    show ?thesis
      by (rule stop [of "[]"])
        (use assms StillOpen in \<open>auto simp: mirrors_def mirror_loop.simps [of _ _ _ _ "m\<lparr>mi_items := x\<rparr>" for x]
          sub_recv_def broadcast_recv_def disconnected_def\<close>)
  next
    case Finished
    then obtain rest where q: "mq_queue rx = map (Inr \<circ> BcValue) evs @ Inr (BcValue done_ev) # rest"
      using assms(4) by auto
    show ?thesis
      by (rule stop [OF q])
        (use assms Finished in \<open>auto simp: mirrors_def mirror_loop.simps [of _ _ _ _ "m\<lparr>mi_items := x\<rparr>" for x]
          sub_recv_def broadcast_recv_def provide_done_def handle_done\<close>)
  next
    case (FailedWith err)
    with assms(4) consider
      rest where "err = RobsLagged" "mq_queue rx = map (Inr \<circ> BcValue) evs @ Inr BcLagged # rest"
    | "err = RobsClosed" "mq_queue rx = map (Inr \<circ> BcValue) evs" "disconnected rx" "mq_final_error rx = None"
      by auto
    then show ?thesis
    proof cases
      case 1
      show ?thesis
        by (rule stop [OF 1(2)])
          (use assms 1 FailedWith in \<open>auto simp: mirrors_def mirror_loop.simps [of _ _ _ _ "m\<lparr>mi_items := x\<rparr>" for x]
            sub_recv_def broadcast_recv_def\<close>)
    next
      case 2
      then have "mpsc_recv (rx\<lparr>mq_queue := []\<rparr>) = (Ready (Inr None), rx\<lparr>mq_queue := [], mq_final_error := None\<rparr>)"
        by (simp add: mpsc_recv.simps disconnected_def take_error_def)
      then show ?thesis
        by (intro stop [of "[]"])
          (use assms 2 FailedWith in \<open>auto simp: mirrors_def mirror_loop.simps [of _ _ _ _ "m\<lparr>mi_items := x\<rparr>" for x]
            sub_recv_def broadcast_recv_def\<close>)
    qed
  qed
qed

text \<open>A mirror of a subscription that carries the value, and of one that sends it item by item.\<close>

lemma mirror_value:
  assumes "delivers done_ev rx evs fin" "done_ev \<notin> set evs" "complete_ev \<notin> set evs"
    "accepted refusal effect n evs (ob_items ob)" "\<not> ob_done ob"
  shows "mirrors (fold effect evs (ob_items ob)) fin n
    (mirror handle item_ev complete_ev done_ev dflt n (subscribe_value ob rx))"
  using loop_mirrors [where evs = evs and fin = fin and rx = rx and
      m = "\<lparr>mi_items = ob_items ob, mi_complete = True, mi_done = False, mi_error = None, mi_max_size = n\<rparr>" and
      sub = "\<lparr>sb_initial = InitialValue dflt, sb_complete = True, sb_events = Some rx, sb_done = False\<rparr>"] assms
  by (simp add: mirror_def mirror_start_def take_initial_def subscribe_value_def new_subscription_def sub_is_done_def)

lemma mirror_incremental:
  assumes "mq_queue irx = map Inr vs @ rest" "fold effect (map item_ev vs) dflt = ob_items ob"
    "accepted refusal effect n (map item_ev vs @ evs) dflt"
    "delivers done_ev rx evs fin" "done_ev \<notin> set evs" "complete_ev \<notin> set evs" "\<not> ob_done ob"
  shows "mirrors (fold effect evs (ob_items ob)) fin n
    (mirror handle item_ev complete_ev done_ev dflt n (subscribe_incremental (length vs) irx ob rx))"
proof -
  let ?sub = "\<lparr>sb_initial = Incremental (length vs) irx, sb_complete = False, sb_events = Some rx, sb_done = False\<rparr>"
  let ?sub' = "\<lparr>sb_initial = Incremental 0 (irx\<lparr>mq_queue := rest\<rparr>), sb_complete = True, sb_events = Some rx,
    sb_done = False\<rparr>"
  let ?m = "\<lparr>mi_items = dflt, mi_complete = False, mi_done = False, mi_error = None, mi_max_size = n\<rparr>"
  let ?m' = "\<lparr>mi_items = ob_items ob, mi_complete = True, mi_done = False, mi_error = None, mi_max_size = n\<rparr>"
  have "mirror handle item_ev complete_ev done_ev dflt n (subscribe_incremental (length vs) irx ob rx) =
      mirror_loop handle item_ev complete_ev done_ev ?m ?sub"
    using assms(7) by (simp add: mirror_def mirror_start_def take_initial_def subscribe_incremental_def
        new_subscription_def sub_is_done_def)
  moreover have "mirror_loop handle item_ev complete_ev done_ev ?m ?sub =
      exec_bind (mirror_loop handle item_ev complete_ev done_ev ?m' ?sub')
        (\<lambda>(running, fwd, m, sub). Ret (running, map item_ev vs @ complete_ev # fwd, m, sub))"
    by (subst loop_initial [where vs = vs and rx = irx and rest = rest]) (use assms in simp_all)
  moreover have "mirrors (fold effect evs (ob_items ob)) fin n (mirror_loop handle item_ev complete_ev done_ev ?m' ?sub')"
    using loop_mirrors [where evs = evs and fin = fin and rx = rx and m = ?m' and sub = ?sub'] assms by simp
  ultimately show ?thesis
    by (auto simp: mirrors_def)
qed

text \<open>A subscription to a collection that is done: with the value the mirror is complete, item by item
  it stops after the first item.\<close>

lemma mirror_done:
  assumes "ob_done ob"
  shows "mirrors (ob_items ob) Finished n
    (mirror handle item_ev complete_ev done_ev dflt n (subscribe_value ob rx))"
  using assms by (simp add: mirrors_def mirror_def mirror_start_def take_initial_def subscribe_value_def
      new_subscription_def sub_is_done_def mirror_loop.simps sub_recv_def provide_done_def handle_done)

lemma mirror_done_truncated:
  assumes "ob_done ob" "mq_queue irx = Inr v # map Inr vs @ rest" "refusal n (item_ev v) dflt = None"
  shows "\<exists>fwd m sub. mirror handle item_ev complete_ev done_ev dflt n
      (subscribe_incremental (Suc (length vs)) irx ob rx) = Ret (False, fwd, m, sub) \<and>
    mi_items m = effect (item_ev v) dflt \<and> mi_done m \<and> \<not> mi_complete m \<and> mi_error m = None"
  using assms item_ev_change
  by (simp add: mirror_def mirror_start_def take_initial_def subscribe_incremental_def handle_change
      new_subscription_def sub_is_done_def mirror_loop.simps sub_recv_def)

end

section \<open>Observed collections\<close>

text \<open>A sequence of operations of a collection, with all it sends.\<close>

inductive robs_run ::
  "('c observable \<Rightarrow> 'e robs_out list \<Rightarrow> 'c observable \<Rightarrow> bool) \<Rightarrow>
     'c observable \<Rightarrow> 'e robs_out list \<Rightarrow> 'c observable \<Rightarrow> bool"
  for step where
  run_start: "robs_run step ob [] ob"
| run_step: "robs_run step ob out ob' \<Longrightarrow> step ob' out' ob'' \<Longrightarrow> robs_run step ob (out @ out') ob''"

lemma robs_run_3:
  assumes "step ob a ob1" "step ob1 b ob2" "step ob2 c ob3"
  shows "robs_run step ob (a @ b @ c) ob3"
proof -
  have "robs_run step ob ([] @ a) ob1"
    by (rule run_step [where ob' = ob]) (simp_all add: run_start assms)
  then have "robs_run step ob (([] @ a) @ b) ob2"
    by (rule run_step) (rule assms)
  then have "robs_run step ob ((([] @ a) @ b) @ c) ob3"
    by (rule run_step) (rule assms)
  then show ?thesis by simp
qed

text \<open>The size of the collection after each of the events.\<close>

definition sizes_within :: "('c \<Rightarrow> nat) \<Rightarrow> ('e \<Rightarrow> 'c \<Rightarrow> 'c) \<Rightarrow> nat \<Rightarrow> 'e list \<Rightarrow> 'c \<Rightarrow> bool" where
  "sizes_within size_of effect n evs c \<longleftrightarrow> (\<forall>k \<le> length evs. size_of (fold effect (take k evs) c) \<le> n)"

lemma sizes_within_append:
  "sizes_within size_of effect n (evs @ evs') c \<longleftrightarrow>
     sizes_within size_of effect n evs c \<and> sizes_within size_of effect n evs' (fold effect evs c)"
proof
  assume h: "sizes_within size_of effect n (evs @ evs') c"
  have "size_of (fold effect (take k evs) c) \<le> n" if "k \<le> length evs" for k
    using h [unfolded sizes_within_def, rule_format, of k] that by simp
  moreover have "size_of (fold effect (take k evs') (fold effect evs c)) \<le> n" if "k \<le> length evs'" for k
    using h [unfolded sizes_within_def, rule_format, of "length evs + k"] that by simp
  ultimately show "sizes_within size_of effect n evs c \<and> sizes_within size_of effect n evs' (fold effect evs c)"
    by (simp add: sizes_within_def)
next
  assume h: "sizes_within size_of effect n evs c \<and> sizes_within size_of effect n evs' (fold effect evs c)"
  show "sizes_within size_of effect n (evs @ evs') c"
    unfolding sizes_within_def
  proof (intro allI impI)
    fix k assume k: "k \<le> length (evs @ evs')"
    show "size_of (fold effect (take k (evs @ evs')) c) \<le> n"
    proof (cases "k \<le> length evs")
      case True
      with h show ?thesis by (simp add: sizes_within_def)
    next
      case False
      with h k show ?thesis
        by (simp add: sizes_within_def)
    qed
  qed
qed

lemma sizes_within_Cons:
  "sizes_within size_of effect n (ev # evs) c \<longleftrightarrow>
     size_of c \<le> n \<and> sizes_within size_of effect n evs (effect ev c)"
  using sizes_within_append [of size_of effect n "[ev]" evs c]
  by (auto simp: sizes_within_def le_Suc_eq numeral_2_eq_2)

lemma sizes_within_Nil [simp]: "sizes_within size_of effect n [] c \<longleftrightarrow> size_of c \<le> n"
  by (simp add: sizes_within_def)

lemma sizes_within_start: "sizes_within size_of effect n evs c \<Longrightarrow> size_of c \<le> n"
  by (auto simp: sizes_within_def)

lemma mirrored_same [simp]: "\<exists>c. m = m\<lparr>mi_items := c\<rparr>"
  by (rule exI [of _ "mi_items m"]) simp

text \<open>Events that replay a change of a collection: applied to the old items they give the new ones, and
  a mirror whose limit is not exceeded takes them.\<close>

definition replays :: "'e \<Rightarrow> 'e \<Rightarrow> ('e \<Rightarrow> 'c \<Rightarrow> 'c) \<Rightarrow> (nat \<Rightarrow> 'e \<Rightarrow> 'c \<Rightarrow> robs_error option) \<Rightarrow> ('c \<Rightarrow> nat) \<Rightarrow>
    'c observable \<Rightarrow> 'e robs_out list \<Rightarrow> 'c observable \<Rightarrow> bool" where
  "replays complete_ev done_ev effect refusal size_of ob out ob' \<longleftrightarrow> ob_done ob' = ob_done ob \<and>
     done_ev \<notin> set (events_of out) \<and> complete_ev \<notin> set (events_of out) \<and>
     fold effect (events_of out) (ob_items ob) = ob_items ob' \<and>
     (\<forall>n. sizes_within size_of effect n (events_of out) (ob_items ob) \<longrightarrow>
        accepted refusal effect n (events_of out) (ob_items ob))"

lemma replays_none [simp]: "replays complete_ev done_ev effect refusal size_of ob [] ob"
  by (simp add: replays_def)

lemma replays_trans:
  "replays complete_ev done_ev effect refusal size_of ob out ob' \<Longrightarrow>
   replays complete_ev done_ev effect refusal size_of ob' out' ob'' \<Longrightarrow>
   replays complete_ev done_ev effect refusal size_of ob (out @ out') ob''"
  by (auto simp: replays_def sizes_within_append)

text \<open>An operation: it replays, or it comes after \<^verbatim>\<open>done\<close> and changes nothing, or it is \<^verbatim>\<open>done\<close>.\<close>

definition replays_or_done :: "'e \<Rightarrow> 'e \<Rightarrow> ('e \<Rightarrow> 'c \<Rightarrow> 'c) \<Rightarrow> (nat \<Rightarrow> 'e \<Rightarrow> 'c \<Rightarrow> robs_error option) \<Rightarrow> ('c \<Rightarrow> nat) \<Rightarrow>
    'c observable \<Rightarrow> 'e robs_out list \<Rightarrow> 'c observable \<Rightarrow> bool" where
  "replays_or_done complete_ev done_ev effect refusal size_of ob out ob' \<longleftrightarrow>
     \<not> ob_done ob \<and> replays complete_ev done_ev effect refusal size_of ob out ob' \<or>
     ob_done ob \<and> events_of out = [] \<and> ob' = ob \<or>
     \<not> ob_done ob \<and> ob_done ob' \<and> events_of out = [done_ev] \<and> ob_items ob' = ob_items ob"

text \<open>The contract of an observable collection.\<close>

locale observed_collection = mirrored_collection handle item_ev complete_ev done_ev dflt effect refusal
  for handle :: "('c, 'e) event_handler"
    and item_ev :: "'i \<Rightarrow> 'e" and complete_ev :: 'e and done_ev :: 'e and dflt :: 'c
    and effect :: "'e \<Rightarrow> 'c \<Rightarrow> 'c" and refusal :: "nat \<Rightarrow> 'e \<Rightarrow> 'c \<Rightarrow> robs_error option" +
  fixes step :: "'c observable \<Rightarrow> 'e robs_out list \<Rightarrow> 'c observable \<Rightarrow> bool"
    and size_of :: "'c \<Rightarrow> nat"
  assumes step_replays: "step ob out ob' \<Longrightarrow> replays_or_done complete_ev done_ev effect refusal size_of ob out ob'"
begin

lemma run_events:
  assumes "robs_run step ob out ob'" "\<not> ob_done ob"
  shows "\<exists>evs. events_of out = evs @ (if ob_done ob' then [done_ev] else []) \<and>
    done_ev \<notin> set evs \<and> complete_ev \<notin> set evs \<and> fold effect evs (ob_items ob) = ob_items ob' \<and>
    (sizes_within size_of effect n (events_of out) (ob_items ob) \<longrightarrow> accepted refusal effect n evs (ob_items ob))"
  using assms
proof (induction rule: robs_run.induct)
  case (run_start ob)
  then show ?case by simp
next
  case (run_step ob out ob' out' ob'')
  then obtain evs where evs: "events_of out = evs @ (if ob_done ob' then [done_ev] else [])"
    "done_ev \<notin> set evs" "complete_ev \<notin> set evs" "fold effect evs (ob_items ob) = ob_items ob'"
    "sizes_within size_of effect n (events_of out) (ob_items ob) \<Longrightarrow> accepted refusal effect n evs (ob_items ob)"
    by blast
  from step_replays [OF run_step.hyps(2)] consider
    "\<not> ob_done ob'" "replays complete_ev done_ev effect refusal size_of ob' out' ob''"
  | "ob_done ob'" "events_of out' = []" "ob'' = ob'"
  | "\<not> ob_done ob'" "ob_done ob''" "events_of out' = [done_ev]" "ob_items ob'' = ob_items ob'"
    unfolding replays_or_done_def by blast
  then show ?case
  proof cases
    case 1
    with evs show ?thesis
      by (intro exI [of _ "evs @ events_of out'"]) (auto simp: replays_def sizes_within_append)
  next
    case 2
    with evs show ?thesis
      by (intro exI [of _ evs]) simp
  next
    case 3
    with evs show ?thesis
      by (intro exI [of _ evs]) (simp add: sizes_within_append)
  qed
qed

text \<open>A mirror that has received every event holds the observed collection.\<close>

lemma converges:
  assumes "robs_run step ob out ob'" "\<not> ob_done ob" "mq_queue rx = map (Inr \<circ> BcValue) (events_of out)"
    "\<not> disconnected rx" "sizes_within size_of effect n (events_of out) (ob_items ob)"
  shows "mirrors (ob_items ob') (if ob_done ob' then Finished else StillOpen) n
    (mirror handle item_ev complete_ev done_ev dflt n (subscribe_value ob rx))"
proof -
  from run_events [OF assms(1,2), of n] assms(5) obtain evs where
    evs: "events_of out = evs @ (if ob_done ob' then [done_ev] else [])" "done_ev \<notin> set evs"
      "complete_ev \<notin> set evs" "fold effect evs (ob_items ob) = ob_items ob'" "accepted refusal effect n evs (ob_items ob)"
    by blast
  have "delivers done_ev rx evs (if ob_done ob' then Finished else StillOpen)"
    using assms(3,4) evs(1) by auto
  from mirror_value [OF this evs(2,3,5) assms(2)] show ?thesis
    by (simp add: evs(4))
qed

lemma converges_incremental:
  assumes "robs_run step ob out ob'" "\<not> ob_done ob" "mq_queue rx = map (Inr \<circ> BcValue) (events_of out)"
    "\<not> disconnected rx" "mq_queue irx = map Inr vs" "fold effect (map item_ev vs) dflt = ob_items ob"
    "accepted refusal effect n (map item_ev vs) dflt"
    "sizes_within size_of effect n (events_of out) (ob_items ob)"
  shows "mirrors (ob_items ob') (if ob_done ob' then Finished else StillOpen) n
    (mirror handle item_ev complete_ev done_ev dflt n (subscribe_incremental (length vs) irx ob rx))"
proof -
  from run_events [OF assms(1,2), of n] assms(8) obtain evs where
    evs: "events_of out = evs @ (if ob_done ob' then [done_ev] else [])" "done_ev \<notin> set evs"
      "complete_ev \<notin> set evs" "fold effect evs (ob_items ob) = ob_items ob'" "accepted refusal effect n evs (ob_items ob)"
    by blast
  have "delivers done_ev rx evs (if ob_done ob' then Finished else StillOpen)"
    using assms(3,4) evs(1) by auto
  from mirror_incremental [OF _ assms(6) _ this evs(2,3) assms(2), of irx "[]" n] assms(5-7) evs(4,5) show ?thesis
    by simp
qed

text \<open>A mirror that missed events fails, and holds the collection as it was after some of the events.\<close>

lemma lagged:
  assumes "robs_run step ob out ob'" "\<not> ob_done ob" "synced (take m (events_of out)) got" "BcLagged \<in> set got"
    "mq_queue rx = map Inr got" "sizes_within size_of effect n (events_of out) (ob_items ob)"
  shows "\<exists>k < length (events_of out). mirrors (fold effect (take k (events_of out)) (ob_items ob)) (FailedWith RobsLagged) n
    (mirror handle item_ev complete_ev done_ev dflt n (subscribe_value ob rx))"
proof -
  obtain vs rest where got: "got = map BcValue vs @ BcLagged # rest"
  proof -
    from split_list_first [OF assms(4)] obtain ys zs where g: "got = ys @ BcLagged # zs" "BcLagged \<notin> set ys"
      by blast
    have "\<exists>vs. ys = map BcValue vs"
      using g(2)
    proof (induction ys)
      case (Cons y ys)
      then obtain vs v where "ys = map BcValue vs" "y = BcValue v"
        by (cases y) auto
      then show ?case by (intro exI [of _ "v # vs"]) simp
    qed simp
    with g that show ?thesis by blast
  qed
  from assms(3) have "synced (take m (events_of out)) ((map BcValue vs @ [BcLagged]) @ rest)"
    by (simp add: got)
  from synced_prefix [OF this] obtain j where "synced (take j (take m (events_of out))) (map BcValue vs @ [BcLagged])"
    by blast
  then obtain s r where s: "take (min j m) (events_of out) = s @ r" "r \<noteq> []" "synced s (map BcValue vs)"
    unfolding synced_snoc by auto
  from synced_no_lag [OF s(3)] have "vs = s"
    by (auto simp: inj_map_eq_map inj_def)
  moreover have "s = take (length s) (events_of out)" "length s < length (events_of out)"
  proof -
    have "length s < length (take (min j m) (events_of out))"
      unfolding s(1) using s(2) by simp
    then show "length s < length (events_of out)"
      by simp
    show "s = take (length s) (events_of out)"
      using arg_cong [OF s(1), of "take (length s)"] \<open>length s < length (take (min j m) (events_of out))\<close>
      by (simp add: min_def split: if_splits)
  qed
  ultimately have k: "vs = take (length vs) (events_of out)" "length vs < length (events_of out)"
    by simp_all
  from run_events [OF assms(1,2), of n] assms(6) obtain evs where
    evs: "events_of out = evs @ (if ob_done ob' then [done_ev] else [])" "done_ev \<notin> set evs"
      "complete_ev \<notin> set evs" "accepted refusal effect n evs (ob_items ob)"
    by blast
  have vs: "vs = take (length vs) evs"
    using k evs(1) by (auto split: if_splits)
  then have "set vs \<subseteq> set evs"
    by (metis set_take_subset)
  moreover have "accepted refusal effect n vs (ob_items ob)"
    using evs(4) vs by (metis accepted_append append_take_drop_id)
  moreover have "delivers done_ev rx vs (FailedWith RobsLagged)"
    using assms(5) by (simp add: got)
  ultimately have "mirrors (fold effect vs (ob_items ob)) (FailedWith RobsLagged) n
      (mirror handle item_ev complete_ev done_ev dflt n (subscribe_value ob rx))"
    using evs(2,3) by (intro mirror_value assms(2)) auto
  with k show ?thesis by metis
qed

end

end
