(* ===== verification/Robs_Seq.thy ===== *)
theory Robs_Seq
  imports Robs
begin

text \<open>
  The operations of the standard library's \<^verbatim>\<open>Vec\<close> and \<^verbatim>\<open>VecDeque\<close> on their contents, and the
  loops of \<^verbatim>\<open>retain\<close> that the observable sequences of \<^verbatim>\<open>remoc/src/robs/vec.rs\<close> and
  \<^verbatim>\<open>vec_deque.rs\<close> and their mirrors share.
\<close>

definition insert_at :: "nat \<Rightarrow> 'a \<Rightarrow> 'a list \<Rightarrow> 'a list" where
  "insert_at i x xs = take i xs @ x # drop i xs"

definition remove_at :: "nat \<Rightarrow> 'a list \<Rightarrow> 'a list" where
  "remove_at i xs = take i xs @ drop (Suc i) xs"

definition swap_remove_last :: "nat \<Rightarrow> 'a list \<Rightarrow> 'a list" where
  "swap_remove_last i xs = butlast (xs[i := last xs])"

definition swap_remove_first :: "nat \<Rightarrow> 'a list \<Rightarrow> 'a list" where
  "swap_remove_first i xs = tl (xs[i := hd xs])"

definition resize_to :: "nat \<Rightarrow> 'a \<Rightarrow> 'a list \<Rightarrow> 'a list" where
  "resize_to n x xs = take n xs @ replicate (n - length xs) x"

text \<open>The closure of \<^verbatim>\<open>retain\<close> records the positions kept and removed; the predicate may depend on the
  calls before.\<close>

fun retain_loop :: "(nat \<Rightarrow> 'a \<Rightarrow> bool) \<Rightarrow> nat \<Rightarrow> nat set \<Rightarrow> nat set \<Rightarrow> 'a list \<Rightarrow> nat set \<times> nat set \<times> 'a list" where
  "retain_loop f p keep remove [] = (keep, remove, [])"
| "retain_loop f p keep remove (x # xs) =
     (if f p x
      then (case retain_loop f (p + 1) (insert p keep) remove xs of (k, r, ys) \<Rightarrow> (k, r, x # ys))
      else retain_loop f (p + 1) keep (insert p remove) xs)"

text \<open>The closure of the mirror keeps the items at the positions a predicate holds for.\<close>

fun retain_positions :: "(nat \<Rightarrow> bool) \<Rightarrow> nat \<Rightarrow> 'a list \<Rightarrow> 'a list" where
  "retain_positions P p [] = []"
| "retain_positions P p (x # xs) =
     (if P p then x # retain_positions P (p + 1) xs else retain_positions P (p + 1) xs)"

lemma retain_positions_cong:
  "(\<And>i. p \<le> i \<Longrightarrow> i < p + length xs \<Longrightarrow> P i = Q i) \<Longrightarrow>
     retain_positions P p xs = retain_positions Q p xs"
  by (induction xs arbitrary: p) auto

lemma length_retain_positions: "length (retain_positions P p xs) \<le> length xs"
  by (induction xs arbitrary: p) (auto simp: le_SucI)

lemma retain_positions_all: "(\<And>i. p \<le> i \<Longrightarrow> i < p + length xs \<Longrightarrow> P i) \<Longrightarrow> retain_positions P p xs = xs"
  by (induction xs arbitrary: p) auto

text \<open>The loop of \<^verbatim>\<open>retain\<close> in closed form: the two sets partition the positions, and the items at
  the positions kept are those that stay.\<close>

lemma retain_loop_closed:
  "retain_loop f p keep remove xs =
     (keep \<union> {i \<in> {p..<p + length xs}. f i (xs ! (i - p))},
      remove \<union> {i \<in> {p..<p + length xs}. \<not> f i (xs ! (i - p))},
      retain_positions (\<lambda>i. f i (xs ! (i - p))) p xs)"
proof (induction xs arbitrary: p keep remove)
  case Nil
  then show ?case by simp
next
  case (Cons x xs)
  have i: "{p..<p + length (x # xs)} = insert p {Suc p..<Suc p + length xs}"
    by auto
  have n: "(x # xs) ! (i - p) = xs ! (i - Suc p)" if "Suc p \<le> i" for i
  proof -
    have "i - p = Suc (i - Suc p)"
      using that by simp
    then show ?thesis by simp
  qed
  have e: "{i. Suc p \<le> i \<and> i < Suc (p + length xs) \<and> f i ((x # xs) ! (i - p))} =
      {i. Suc p \<le> i \<and> i < Suc (p + length xs) \<and> f i (xs ! (i - Suc p))}"
    "{i. Suc p \<le> i \<and> i < Suc (p + length xs) \<and> \<not> f i ((x # xs) ! (i - p))} =
      {i. Suc p \<le> i \<and> i < Suc (p + length xs) \<and> \<not> f i (xs ! (i - Suc p))}"
    using n by auto
  have r: "retain_positions (\<lambda>i. f i ((x # xs) ! (i - p))) (Suc p) xs =
      retain_positions (\<lambda>i. f i (xs ! (i - Suc p))) (Suc p) xs"
    using n by (intro retain_positions_cong) simp
  have s: "{i \<in> insert p A. P i} = (if P p then insert p {i \<in> A. P i} else {i \<in> A. P i})" for A P
    by auto
  show ?case
    unfolding i s by (simp add: Cons.IH e r)
qed

lemma retain_loop_replay:
  assumes "retain_loop f 0 {} {} xs = (keep, remove, ys)"
  shows "retain_positions (\<lambda>i. i \<in> keep) 0 xs = ys" "retain_positions (\<lambda>i. i \<notin> remove) 0 xs = ys"
    "remove = {} \<Longrightarrow> ys = xs"
proof -
  have k: "keep = {i \<in> {0..<length xs}. f i (xs ! i)}" "remove = {i \<in> {0..<length xs}. \<not> f i (xs ! i)}"
    "ys = retain_positions (\<lambda>i. f i (xs ! i)) 0 xs"
    using assms by (simp_all add: retain_loop_closed)
  show "retain_positions (\<lambda>i. i \<in> keep) 0 xs = ys" "retain_positions (\<lambda>i. i \<notin> remove) 0 xs = ys"
    unfolding k by (rule retain_positions_cong, simp)+
  show "ys = xs" if "remove = {}"
    unfolding k(3) using that k(2) by (intro retain_positions_all) auto
qed

text \<open>A channel with some values, for examples.\<close>

definition example_channel :: "'a list \<Rightarrow> 'a mpsc" where
  "example_channel q = \<lparr>mq_queue = map Inr q, mq_capacity = 8, mq_reserved = 0, mq_tx_alive = True,
     mq_rx_alive = True, mq_closed_reason = None, mq_remote_error = None, mq_final_error = None\<rparr>"

end
