(* ===== verification/Robs_Vec.thy ===== *)
theory Robs_Vec
  imports Robs_Seq
begin

text \<open>
  The observable vector and its mirror, \<^verbatim>\<open>remoc/src/robs/vec.rs\<close>. A mutable reference to an item
  is modelled by its drop: \<open>None\<close> when the item was not accessed mutably, otherwise the value it
  was left with. The capacity of a vector is not modelled.
\<close>

section \<open>The observable vector\<close>

datatype 'a vec_event =
    VecPush 'a
  | VecPop
  | VecInsert nat 'a
  | VecSet nat 'a
  | VecRemove nat
  | VecSwapRemove nat
  | VecFill 'a
  | VecResize nat 'a
  | VecTruncate nat
  | VecRetain "nat set"
  | VecRetainNot "nat set"
  | VecClear
  | VecShrinkToFit
  | VecDone
  | VecInitialComplete

type_synonym ('a, 'r) vec_result = "('a list, 'a vec_event, 'r) robs_result"

definition vec_from :: "'a list \<Rightarrow> 'a list observable" where
  "vec_from xs = \<lparr>ob_items = xs, ob_done = False\<rparr>"

definition vec_push :: "'a \<Rightarrow> 'a list observable \<Rightarrow> ('a, unit) vec_result" where
  "vec_push x ob = unless_done ob
     (Ret ((), [Notified, Sent (VecPush x)], ob\<lparr>ob_items := ob_items ob @ [x]\<rparr>))"

definition vec_pop :: "'a list observable \<Rightarrow> ('a, 'a option) vec_result" where
  "vec_pop ob = unless_done ob
     (if ob_items ob = [] then Ret (None, [], ob)
      else Ret (Some (last (ob_items ob)), [Notified, Sent VecPop], ob\<lparr>ob_items := butlast (ob_items ob)\<rparr>))"

definition vec_ref_drop :: "nat \<Rightarrow> 'a option \<Rightarrow> 'a list observable \<Rightarrow> 'a vec_event robs_out list \<times> 'a list observable" where
  "vec_ref_drop i access ob =
     (case access of
        None \<Rightarrow> ([], ob)
      | Some x \<Rightarrow> ([Notified, Sent (VecSet i x)], ob\<lparr>ob_items := (ob_items ob)[i := x]\<rparr>))"

definition vec_get_mut :: "nat \<Rightarrow> 'a option \<Rightarrow> 'a list observable \<Rightarrow> ('a, 'a option) vec_result" where
  "vec_get_mut i access ob = unless_done ob
     (if i < length (ob_items ob)
      then (case vec_ref_drop i access ob of (out, ob') \<Rightarrow> Ret (Some (ob_items ob ! i), out, ob'))
      else Ret (None, [], ob))"

text \<open>The references of \<^verbatim>\<open>iter_mut\<close> in the order of their drops.\<close>

fun vec_refs_drop :: "(nat \<times> 'a option) list \<Rightarrow> 'a list observable \<Rightarrow> 'a vec_event robs_out list \<times> 'a list observable" where
  "vec_refs_drop [] ob = ([], ob)"
| "vec_refs_drop ((i, access) # refs) ob =
     (case vec_ref_drop i access ob of (out, ob) \<Rightarrow>
        case vec_refs_drop refs ob of (out', ob) \<Rightarrow> (out @ out', ob))"

definition vec_iter_mut :: "(nat \<times> 'a option) list \<Rightarrow> 'a list observable \<Rightarrow> ('a, unit) vec_result" where
  "vec_iter_mut refs ob = unless_done ob
     (case vec_refs_drop refs ob of (out, ob) \<Rightarrow> Ret ((), out, ob))"

definition vec_insert :: "nat \<Rightarrow> 'a \<Rightarrow> 'a list observable \<Rightarrow> ('a, unit) vec_result" where
  "vec_insert i x ob = unless_done ob
     (if i > length (ob_items ob) then Panic
      else Ret ((), [Notified, Sent (VecInsert i x)], ob\<lparr>ob_items := insert_at i x (ob_items ob)\<rparr>))"

definition vec_remove :: "nat \<Rightarrow> 'a list observable \<Rightarrow> ('a, 'a) vec_result" where
  "vec_remove i ob = unless_done ob
     (if i \<ge> length (ob_items ob) then Panic
      else Ret (ob_items ob ! i, [Notified, Sent (VecRemove i)], ob\<lparr>ob_items := remove_at i (ob_items ob)\<rparr>))"

definition vec_swap_remove :: "nat \<Rightarrow> 'a list observable \<Rightarrow> ('a, 'a) vec_result" where
  "vec_swap_remove i ob = unless_done ob
     (if i \<ge> length (ob_items ob) then Panic
      else Ret (ob_items ob ! i, [Notified, Sent (VecSwapRemove i)],
                ob\<lparr>ob_items := swap_remove_last i (ob_items ob)\<rparr>))"

definition vec_fill :: "'a \<Rightarrow> 'a list observable \<Rightarrow> ('a, unit) vec_result" where
  "vec_fill x ob = unless_done ob
     (Ret ((), [Notified, Sent (VecFill x)], ob\<lparr>ob_items := map (\<lambda>_. x) (ob_items ob)\<rparr>))"

definition vec_resize :: "nat \<Rightarrow> 'a \<Rightarrow> 'a list observable \<Rightarrow> ('a, unit) vec_result" where
  "vec_resize n x ob = unless_done ob
     (if n \<noteq> length (ob_items ob)
      then Ret ((), [Notified, Sent (VecResize n x)], ob\<lparr>ob_items := resize_to n x (ob_items ob)\<rparr>)
      else Ret ((), [], ob))"

definition vec_truncate :: "nat \<Rightarrow> 'a list observable \<Rightarrow> ('a, unit) vec_result" where
  "vec_truncate n ob = unless_done ob
     (if n < length (ob_items ob)
      then Ret ((), [Notified, Sent (VecTruncate n)], ob\<lparr>ob_items := take n (ob_items ob)\<rparr>)
      else Ret ((), [], ob))"

definition vec_clear :: "'a list observable \<Rightarrow> ('a, unit) vec_result" where
  "vec_clear ob = unless_done ob
     (if ob_items ob \<noteq> [] then Ret ((), [Notified, Sent VecClear], ob\<lparr>ob_items := []\<rparr>)
      else Ret ((), [], ob))"

definition vec_retain :: "(nat \<Rightarrow> 'a \<Rightarrow> bool) \<Rightarrow> 'a list observable \<Rightarrow> ('a, unit) vec_result" where
  "vec_retain f ob = unless_done ob
     (case retain_loop f 0 {} {} (ob_items ob) of (keep, remove, xs) \<Rightarrow>
        Ret ((),
             if remove \<noteq> {}
             then [Notified, Sent (if card keep < card remove then VecRetain keep else VecRetainNot remove)]
             else [],
             ob\<lparr>ob_items := xs\<rparr>))"

definition vec_shrink_to_fit :: "'a list observable \<Rightarrow> ('a, unit) vec_result" where
  "vec_shrink_to_fit ob = unless_done ob (Ret ((), [Sent VecShrinkToFit], ob))"

definition vec_done :: "'a list observable \<Rightarrow> ('a, unit) vec_result" where
  "vec_done ob =
     (if \<not> ob_done ob then Ret ((), [Sent VecDone], ob\<lparr>ob_done := True\<rparr>) else Ret ((), [], ob))"

fun vec_extend :: "'a list \<Rightarrow> 'a list observable \<Rightarrow> ('a, unit) vec_result" where
  "vec_extend [] ob = Ret ((), [], ob)"
| "vec_extend (x # xs) ob =
     exec_bind (vec_push x ob) (\<lambda>(_, out, ob).
       exec_bind (vec_extend xs ob) (\<lambda>(_, out', ob). Ret ((), out @ out', ob)))"

section \<open>The mirrored vector\<close>

fun vec_handle_event :: "'a vec_event \<Rightarrow> 'a list mirrored \<Rightarrow> robs_error option \<times> 'a list mirrored" where
  "vec_handle_event VecInitialComplete m = (None, m\<lparr>mi_complete := True\<rparr>)"
| "vec_handle_event (VecPush x) m =
     (let m = m\<lparr>mi_items := mi_items m @ [x]\<rparr>
      in if length (mi_items m) > mi_max_size m then (Some (MaxSizeExceeded (mi_max_size m)), m) else (None, m))"
| "vec_handle_event VecPop m = (None, m\<lparr>mi_items := butlast (mi_items m)\<rparr>)"
| "vec_handle_event (VecInsert i x) m =
     (if i > length (mi_items m) then (Some (InvalidIndex i), m)
      else (None, m\<lparr>mi_items := insert_at i x (mi_items m)\<rparr>))"
| "vec_handle_event (VecSet i x) m =
     (if i \<ge> length (mi_items m) then (Some (InvalidIndex i), m)
      else (None, m\<lparr>mi_items := (mi_items m)[i := x]\<rparr>))"
| "vec_handle_event (VecRemove i) m =
     (if i \<ge> length (mi_items m) then (Some (InvalidIndex i), m)
      else (None, m\<lparr>mi_items := remove_at i (mi_items m)\<rparr>))"
| "vec_handle_event (VecSwapRemove i) m =
     (if i \<ge> length (mi_items m) then (Some (InvalidIndex i), m)
      else (None, m\<lparr>mi_items := swap_remove_last i (mi_items m)\<rparr>))"
| "vec_handle_event (VecFill x) m = (None, m\<lparr>mi_items := map (\<lambda>_. x) (mi_items m)\<rparr>)"
| "vec_handle_event (VecResize n x) m = (None, m\<lparr>mi_items := resize_to n x (mi_items m)\<rparr>)"
| "vec_handle_event (VecTruncate n) m = (None, m\<lparr>mi_items := take n (mi_items m)\<rparr>)"
| "vec_handle_event (VecRetain r) m = (None, m\<lparr>mi_items := retain_positions (\<lambda>i. i \<in> r) 0 (mi_items m)\<rparr>)"
| "vec_handle_event (VecRetainNot nr) m = (None, m\<lparr>mi_items := retain_positions (\<lambda>i. i \<notin> nr) 0 (mi_items m)\<rparr>)"
| "vec_handle_event VecClear m = (None, m\<lparr>mi_items := []\<rparr>)"
| "vec_handle_event VecShrinkToFit m = (None, m)"
| "vec_handle_event VecDone m = (None, m\<lparr>mi_done := True\<rparr>)"

text \<open>The subscription and the mirror of a vector.\<close>

definition vec_subscribe :: "'a list observable \<Rightarrow> 'a vec_event broadcast_msg mpsc \<Rightarrow>
    ('a list, 'a, 'a vec_event) subscription" where
  "vec_subscribe ob rx = subscribe_value ob rx"

definition vec_subscribe_incremental :: "'a mpsc \<Rightarrow> 'a list observable \<Rightarrow> 'a vec_event broadcast_msg mpsc \<Rightarrow>
    ('a list, 'a, 'a vec_event) subscription" where
  "vec_subscribe_incremental irx ob rx = subscribe_incremental (length (ob_items ob)) irx ob rx"

definition vec_recv :: "('a list, 'a, 'a vec_event) subscription \<Rightarrow>
    ((robs_error + 'a vec_event option) polled \<times> ('a list, 'a, 'a vec_event) subscription) exec" where
  "vec_recv sub = sub_recv VecPush VecInitialComplete VecDone sub"

definition vec_mirror :: "nat \<Rightarrow> ('a list, 'a, 'a vec_event) subscription \<Rightarrow>
    (bool \<times> 'a vec_event list \<times> 'a list mirrored \<times> ('a list, 'a, 'a vec_event) subscription) exec" where
  "vec_mirror max_size sub = mirror vec_handle_event VecPush VecInitialComplete VecDone [] max_size sub"

section \<open>Every operation\<close>

inductive vec_step :: "'a list observable \<Rightarrow> 'a vec_event robs_out list \<Rightarrow> 'a list observable \<Rightarrow> bool" where
  vec_step_push: "vec_push x ob = Ret (u, out, ob') \<Longrightarrow> vec_step ob out ob'"
| vec_step_pop: "vec_pop ob = Ret (popped, out, ob') \<Longrightarrow> vec_step ob out ob'"
| vec_step_get_mut: "vec_get_mut i access ob = Ret (got, out, ob') \<Longrightarrow> vec_step ob out ob'"
| vec_step_iter_mut: "vec_iter_mut refs ob = Ret (u, out, ob') \<Longrightarrow> list_all (\<lambda>(i, _). i < length (ob_items ob)) refs \<Longrightarrow>
    vec_step ob out ob'"
| vec_step_insert: "vec_insert i x ob = Ret (u, out, ob') \<Longrightarrow> vec_step ob out ob'"
| vec_step_remove: "vec_remove i ob = Ret (x, out, ob') \<Longrightarrow> vec_step ob out ob'"
| vec_step_swap_remove: "vec_swap_remove i ob = Ret (x, out, ob') \<Longrightarrow> vec_step ob out ob'"
| vec_step_fill: "vec_fill x ob = Ret (u, out, ob') \<Longrightarrow> vec_step ob out ob'"
| vec_step_resize: "vec_resize n x ob = Ret (u, out, ob') \<Longrightarrow> vec_step ob out ob'"
| vec_step_truncate: "vec_truncate n ob = Ret (u, out, ob') \<Longrightarrow> vec_step ob out ob'"
| vec_step_clear: "vec_clear ob = Ret (u, out, ob') \<Longrightarrow> vec_step ob out ob'"
| vec_step_retain: "vec_retain f ob = Ret (u, out, ob') \<Longrightarrow> vec_step ob out ob'"
| vec_step_shrink_to_fit: "vec_shrink_to_fit ob = Ret (u, out, ob') \<Longrightarrow> vec_step ob out ob'"
| vec_step_done: "vec_done ob = Ret (u, out, ob') \<Longrightarrow> vec_step ob out ob'"
| vec_step_extend: "vec_extend xs ob = Ret (u, out, ob') \<Longrightarrow> vec_step ob out ob'"

text \<open>What an event does to the items, and when a mirror refuses it.\<close>

fun vec_effect :: "'a vec_event \<Rightarrow> 'a list \<Rightarrow> 'a list" where
  "vec_effect (VecPush x) xs = xs @ [x]"
| "vec_effect VecPop xs = butlast xs"
| "vec_effect (VecInsert i x) xs = insert_at i x xs"
| "vec_effect (VecSet i x) xs = xs[i := x]"
| "vec_effect (VecRemove i) xs = remove_at i xs"
| "vec_effect (VecSwapRemove i) xs = swap_remove_last i xs"
| "vec_effect (VecFill x) xs = map (\<lambda>_. x) xs"
| "vec_effect (VecResize n x) xs = resize_to n x xs"
| "vec_effect (VecTruncate n) xs = take n xs"
| "vec_effect (VecRetain r) xs = retain_positions (\<lambda>i. i \<in> r) 0 xs"
| "vec_effect (VecRetainNot nr) xs = retain_positions (\<lambda>i. i \<notin> nr) 0 xs"
| "vec_effect VecClear xs = []"
| "vec_effect _ xs = xs"

fun vec_refusal :: "nat \<Rightarrow> 'a vec_event \<Rightarrow> 'a list \<Rightarrow> robs_error option" where
  "vec_refusal n (VecPush x) xs = (if length xs + 1 > n then Some (MaxSizeExceeded n) else None)"
| "vec_refusal n (VecInsert i x) xs = (if i > length xs then Some (InvalidIndex i) else None)"
| "vec_refusal n (VecSet i x) xs = (if i \<ge> length xs then Some (InvalidIndex i) else None)"
| "vec_refusal n (VecRemove i) xs = (if i \<ge> length xs then Some (InvalidIndex i) else None)"
| "vec_refusal n (VecSwapRemove i) xs = (if i \<ge> length xs then Some (InvalidIndex i) else None)"
| "vec_refusal n _ xs = None"

abbreviation vec_replays :: "'a list observable \<Rightarrow> 'a vec_event robs_out list \<Rightarrow> 'a list observable \<Rightarrow> bool" where
  "vec_replays \<equiv> replays VecInitialComplete VecDone vec_effect vec_refusal length"

lemma vec_replays_ref: "i < length (ob_items ob) \<Longrightarrow> vec_ref_drop i access ob = (out, ob') \<Longrightarrow> vec_replays ob out ob'"
  by (auto simp: vec_ref_drop_def replays_def split: option.splits)

lemma vec_replays_refs:
  "vec_refs_drop refs ob = (out, ob') \<Longrightarrow> list_all (\<lambda>(i, _). i < length (ob_items ob)) refs \<Longrightarrow> vec_replays ob out ob'"
proof (induction refs ob arbitrary: out rule: vec_refs_drop.induct)
  case (1 ob)
  then show ?case by (simp add: replays_def)
next
  case (2 i access refs ob)
  obtain o1 ob1 where r: "vec_ref_drop i access ob = (o1, ob1)" by fastforce
  obtain o2 where r2: "vec_refs_drop refs ob1 = (o2, ob')" "out = o1 @ o2"
    using 2(2) r by (auto split: prod.splits)
  have "length (ob_items ob1) = length (ob_items ob)"
    using r by (auto simp: vec_ref_drop_def split: option.splits)
  with 2(1) [OF r [symmetric] r2(1)] 2(3) have "vec_replays ob1 o2 ob'"
    by simp
  with vec_replays_ref [OF _ r] 2(3) show ?case
    unfolding r2(2) by (intro replays_trans [where ob' = ob1]) auto
qed

lemma vec_push_replays: "vec_push x ob = Ret (u, out, ob') \<Longrightarrow> vec_replays ob out ob'"
  by (auto simp: vec_push_def unless_done_def replays_def sizes_within_Cons
      split: if_splits)

lemma vec_extend_replays: "vec_extend xs ob = Ret (u, out, ob') \<Longrightarrow> vec_replays ob out ob'"
proof (induction xs ob arbitrary: out rule: vec_extend.induct)
  case (1 ob)
  then show ?case by (simp add: replays_def)
next
  case (2 x xs ob)
  then obtain o1 ob1 o2 where "vec_push x ob = Ret ((), o1, ob1)" "vec_extend xs ob1 = Ret ((), o2, ob')" "out = o1 @ o2"
    by (auto simp: exec_bind_Ret)
  with 2 vec_push_replays replays_trans show ?case
    by fastforce
qed

lemma vec_step_replays:
  assumes "vec_step ob out ob'"
  shows "replays_or_done VecInitialComplete VecDone vec_effect vec_refusal length ob out ob'"
  using assms
proof cases
  case (vec_step_get_mut i access got)
  then show ?thesis
    using vec_replays_ref [of i ob access]
    by (auto simp: vec_get_mut_def unless_done_def replays_or_done_def replays_def split: if_splits prod.splits)
next
  case (vec_step_iter_mut refs u)
  then show ?thesis
    using vec_replays_refs [of refs ob] by (auto simp: vec_iter_mut_def unless_done_def replays_or_done_def split: if_splits prod.splits)
next
  case (vec_step_retain f u)
  obtain keep remove xs where r: "retain_loop f 0 {} {} (ob_items ob) = (keep, remove, xs)"
    by (cases "retain_loop f 0 {} {} (ob_items ob)")
  with vec_step_retain retain_loop_replay [OF r] show ?thesis
    by (auto simp: vec_retain_def unless_done_def replays_or_done_def replays_def split: if_splits)
next
  case (vec_step_push x u)
  with vec_push_replays [OF vec_step_push] show ?thesis
    by (simp add: vec_push_def unless_done_def replays_or_done_def split: if_splits)
next
  case (vec_step_extend xs u)
  with vec_extend_replays [OF vec_step_extend] show ?thesis
    by (cases xs) (auto simp: exec_bind_Ret vec_push_def unless_done_def replays_or_done_def replays_def split: if_splits)
qed (auto simp: vec_pop_def vec_insert_def vec_remove_def vec_swap_remove_def vec_fill_def vec_resize_def
      vec_truncate_def vec_clear_def vec_shrink_to_fit_def vec_done_def unless_done_def replays_or_done_def replays_def split: if_splits)

interpretation vec: observed_collection vec_handle_event VecPush VecInitialComplete VecDone "[]" vec_effect vec_refusal
  vec_step length
proof
  fix ev :: "'a vec_event" and m :: "'a list mirrored" and err
  assume "ev \<noteq> VecDone" "ev \<noteq> VecInitialComplete"
  then show "vec_refusal (mi_max_size m) ev (mi_items m) = None \<Longrightarrow>
      vec_handle_event ev m = (None, m\<lparr>mi_items := vec_effect ev (mi_items m)\<rparr>)"
    by (cases ev) (auto simp: Let_def split: if_splits)
next
  fix ev :: "'a vec_event" and m :: "'a list mirrored" and err
  assume "ev \<noteq> VecDone" "ev \<noteq> VecInitialComplete" "vec_refusal (mi_max_size m) ev (mi_items m) = Some err"
  then show "\<exists>c. vec_handle_event ev m = (Some err, m\<lparr>mi_items := c\<rparr>)"
    by (cases ev) (auto simp: Let_def split: if_splits)
qed (simp_all add: vec_step_replays)

section \<open>Properties\<close>

lemma fold_vec_push: "fold vec_effect (map VecPush xs) ys = ys @ xs"
  by (induction xs arbitrary: ys) simp_all

lemma accepted_vec_push: "length ys + length xs \<le> n \<Longrightarrow> accepted vec_refusal vec_effect n (map VecPush xs) ys"
  by (induction xs arbitrary: ys) simp_all

text \<open>C27: A mirror converges to the observed vector. Whatever operations follow a subscription, a mirror
  that has received all their events, and whose maximum size is never exceeded, holds exactly the
  contents of the observed vector, knows whether it is done and has no error: for a subscription
  that carries the value and for one that sends it item by item.\<close>

theorem vec_mirror_converges:
  assumes "robs_run vec_step ob out ob'" "\<not> ob_done ob" "mq_queue rx = map (Inr \<circ> BcValue) (events_of out)"
    "\<not> disconnected rx" "sizes_within length vec_effect n (events_of out) (ob_items ob)"
    "mq_queue irx = map Inr (ob_items ob)"
  shows "mirrors (ob_items ob') (if ob_done ob' then Finished else StillOpen) n (vec_mirror n (vec_subscribe ob rx)) \<and>
    mirrors (ob_items ob') (if ob_done ob' then Finished else StillOpen) n
      (vec_mirror n (vec_subscribe_incremental irx ob rx))"
  using vec.converges [OF assms(1-5)] vec.converges_incremental [OF assms(1-4,6) _ _ assms(5)]
    sizes_within_start [OF assms(5)]
  by (simp add: vec_mirror_def vec_subscribe_def vec_subscribe_incremental_def fold_vec_push accepted_vec_push)

lemma example_vec_run:
  "robs_run vec_step (vec_from [1, 2]) ([Notified, Sent (VecPush 3)] @ [Notified, Sent (VecRetainNot {1})] @ [Sent VecDone])
     \<lparr>ob_items = [1, 3 :: nat], ob_done = True\<rparr>"
proof -
  have 1: "vec_step (vec_from [1, 2]) [Notified, Sent (VecPush 3)] (vec_from [1, 2, 3 :: nat])"
    by (rule vec_step_push [of 3]) (simp add: vec_push_def unless_done_def vec_from_def)
  have 2: "vec_step (vec_from [1, 2, 3]) [Notified, Sent (VecRetainNot {1})] (vec_from [1, 3 :: nat])"
    by (rule vec_step_retain [of "\<lambda>_. odd"]) (simp add: vec_retain_def unless_done_def vec_from_def)
  have 3: "vec_step (vec_from [1, 3]) [Sent VecDone] \<lparr>ob_items = [1, 3 :: nat], ob_done = True\<rparr>"
    by (rule vec_step_done) (simp add: vec_done_def vec_from_def)
  show ?thesis
    using robs_run_3 [of vec_step, OF 1 2 3] by simp
qed

theorem vec_mirror_converges_witness:
  "mirrors [1, 3 :: nat] Finished 3
     (vec_mirror 3 (vec_subscribe (vec_from [1, 2]) (example_channel (map BcValue [VecPush 3, VecRetainNot {1}, VecDone]))))"
  using vec_mirror_converges [OF example_vec_run, of "example_channel (map BcValue [VecPush 3, VecRetainNot {1}, VecDone])" 3
      "example_channel [1, 2]"]
  by (simp add: example_channel_def vec_from_def disconnected_def sizes_within_Cons)



text \<open>A mirror does not enforce its maximum size. The limit is checked when an item is appended; a
  vector that is resized, or has items inserted, makes a mirror grow beyond the limit without an
  error.\<close>

theorem vec_max_size_bypassed:
  assumes "n < k" "mq_queue rx = map (Inr \<circ> BcValue) [VecResize k x, VecInsert 0 x]" "\<not> disconnected rx"
  shows "\<exists>xs. length xs = k + 1 \<and> mirrors xs StillOpen n (vec_mirror n (vec_subscribe (vec_from []) rx))"
proof -
  have "mirrors (x # replicate k x) StillOpen n (vec_mirror n (vec_subscribe (vec_from []) rx))"
    using vec.mirror_value [of rx "[VecResize k x, VecInsert 0 x]" StillOpen n "vec_from []"] assms
    by (simp add: vec_mirror_def vec_subscribe_def vec_from_def resize_to_def insert_at_def)
  then show ?thesis
    by (intro exI [of _ "x # replicate k x"]) simp
qed

theorem vec_max_size_bypassed_witness:
  "\<exists>xs. length xs = 5 + 1 \<and> mirrors xs StillOpen 2
     (vec_mirror 2 (vec_subscribe (vec_from []) (example_channel (map BcValue [VecResize 5 (0::nat), VecInsert 0 0]))))"
  by (rule vec_max_size_bypassed) (simp_all add: example_channel_def disconnected_def)

text \<open>C39: An incremental mirror of a vector that is done loses items. When the observed vector was done
  before the subscription, the mirror is done from the start and stops after the first item, with
  no error and not complete.\<close>

theorem vec_done_incremental_truncated:
  assumes "ob_done ob" "ob_items ob = x # xs" "mq_queue irx = map Inr (ob_items ob)" "0 < n"
  shows "\<exists>fwd m sub. vec_mirror n (vec_subscribe_incremental irx ob rx) = Ret (False, fwd, m, sub) \<and>
    mirror_borrow m = Inr ([x], False, True)"
proof -
  have "mq_queue irx = Inr x # map Inr xs @ []"
    using assms(2,3) by simp
  from vec.mirror_done_truncated [OF assms(1) this, of n rx] assms(2,4) show ?thesis
    by (auto simp: vec_mirror_def vec_subscribe_incremental_def mirror_borrow_def)
qed

theorem vec_done_incremental_truncated_witness:
  "\<exists>fwd m sub. vec_mirror 9 (vec_subscribe_incremental (example_channel [1, 2, 3 :: nat])
       \<lparr>ob_items = [1, 2, 3], ob_done = True\<rparr> (example_channel [])) = Ret (False, fwd, m, sub) \<and>
     mirror_borrow m = Inr ([1], False, True)"
  by (rule vec_done_incremental_truncated) (simp_all add: example_channel_def)

end
