(* ===== verification/Robs_Vec_Deque.thy ===== *)
theory Robs_Vec_Deque
  imports Robs_Seq
begin

text \<open>
  The observable deque and its mirror, \<^verbatim>\<open>remoc/src/robs/vec_deque.rs\<close>. A mutable reference to an item
  is modelled by its drop: \<open>None\<close> when the item was not accessed mutably, otherwise the value it
  was left with. The capacity of a deque is not modelled.
\<close>

section \<open>The observable deque\<close>

datatype 'a dq_event =
    DqPushBack 'a
  | DqPushFront 'a
  | DqPopBack
  | DqPopFront
  | DqInsert nat 'a
  | DqSet nat 'a
  | DqRemove nat
  | DqSwapRemoveBack nat
  | DqSwapRemoveFront nat
  | DqResize nat 'a
  | DqTruncate nat
  | DqRetain "nat set"
  | DqRetainNot "nat set"
  | DqClear
  | DqShrinkToFit
  | DqDone
  | DqInitialComplete

type_synonym ('a, 'r) dq_result = "('a list, 'a dq_event, 'r) robs_result"

definition dq_from :: "'a list \<Rightarrow> 'a list observable" where
  "dq_from xs = \<lparr>ob_items = xs, ob_done = False\<rparr>"

definition dq_push_back :: "'a \<Rightarrow> 'a list observable \<Rightarrow> ('a, unit) dq_result" where
  "dq_push_back x ob = unless_done ob
     (Ret ((), [Notified, Sent (DqPushBack x)], ob\<lparr>ob_items := ob_items ob @ [x]\<rparr>))"

definition dq_push_front :: "'a \<Rightarrow> 'a list observable \<Rightarrow> ('a, unit) dq_result" where
  "dq_push_front x ob = unless_done ob
     (Ret ((), [Notified, Sent (DqPushFront x)], ob\<lparr>ob_items := x # ob_items ob\<rparr>))"

definition dq_pop_back :: "'a list observable \<Rightarrow> ('a, 'a option) dq_result" where
  "dq_pop_back ob = unless_done ob
     (if ob_items ob = [] then Ret (None, [], ob)
      else Ret (Some (last (ob_items ob)), [Notified, Sent DqPopBack], ob\<lparr>ob_items := butlast (ob_items ob)\<rparr>))"

definition dq_pop_front :: "'a list observable \<Rightarrow> ('a, 'a option) dq_result" where
  "dq_pop_front ob = unless_done ob
     (if ob_items ob = [] then Ret (None, [], ob)
      else Ret (Some (hd (ob_items ob)), [Notified, Sent DqPopFront], ob\<lparr>ob_items := tl (ob_items ob)\<rparr>))"

definition dq_ref_drop :: "nat \<Rightarrow> 'a option \<Rightarrow> 'a list observable \<Rightarrow> 'a dq_event robs_out list \<times> 'a list observable" where
  "dq_ref_drop i access ob =
     (case access of
        None \<Rightarrow> ([], ob)
      | Some x \<Rightarrow> ([Notified, Sent (DqSet i x)], ob\<lparr>ob_items := (ob_items ob)[i := x]\<rparr>))"

definition dq_get_mut :: "nat \<Rightarrow> 'a option \<Rightarrow> 'a list observable \<Rightarrow> ('a, 'a option) dq_result" where
  "dq_get_mut i access ob = unless_done ob
     (if i < length (ob_items ob)
      then (case dq_ref_drop i access ob of (out, ob') \<Rightarrow> Ret (Some (ob_items ob ! i), out, ob'))
      else Ret (None, [], ob))"

text \<open>The references of \<^verbatim>\<open>iter_mut\<close> in the order of their drops.\<close>

fun dq_refs_drop :: "(nat \<times> 'a option) list \<Rightarrow> 'a list observable \<Rightarrow> 'a dq_event robs_out list \<times> 'a list observable" where
  "dq_refs_drop [] ob = ([], ob)"
| "dq_refs_drop ((i, access) # refs) ob =
     (case dq_ref_drop i access ob of (out, ob) \<Rightarrow>
        case dq_refs_drop refs ob of (out', ob) \<Rightarrow> (out @ out', ob))"

definition dq_iter_mut :: "(nat \<times> 'a option) list \<Rightarrow> 'a list observable \<Rightarrow> ('a, unit) dq_result" where
  "dq_iter_mut refs ob = unless_done ob
     (case dq_refs_drop refs ob of (out, ob) \<Rightarrow> Ret ((), out, ob))"

definition dq_insert :: "nat \<Rightarrow> 'a \<Rightarrow> 'a list observable \<Rightarrow> ('a, unit) dq_result" where
  "dq_insert i x ob = unless_done ob
     (if i > length (ob_items ob) then Panic
      else Ret ((), [Notified, Sent (DqInsert i x)], ob\<lparr>ob_items := insert_at i x (ob_items ob)\<rparr>))"

definition dq_remove :: "nat \<Rightarrow> 'a list observable \<Rightarrow> ('a, 'a option) dq_result" where
  "dq_remove i ob = unless_done ob
     (if i \<ge> length (ob_items ob) then Ret (None, [], ob)
      else Ret (Some (ob_items ob ! i), [Notified, Sent (DqRemove i)],
                ob\<lparr>ob_items := remove_at i (ob_items ob)\<rparr>))"

definition dq_swap_remove_back :: "nat \<Rightarrow> 'a list observable \<Rightarrow> ('a, 'a option) dq_result" where
  "dq_swap_remove_back i ob = unless_done ob
     (if i \<ge> length (ob_items ob) then Ret (None, [], ob)
      else Ret (Some (ob_items ob ! i), [Notified, Sent (DqSwapRemoveBack i)],
                ob\<lparr>ob_items := swap_remove_last i (ob_items ob)\<rparr>))"

definition dq_swap_remove_front :: "nat \<Rightarrow> 'a list observable \<Rightarrow> ('a, 'a option) dq_result" where
  "dq_swap_remove_front i ob = unless_done ob
     (if i \<ge> length (ob_items ob) then Ret (None, [], ob)
      else Ret (Some (ob_items ob ! i), [Notified, Sent (DqSwapRemoveFront i)],
                ob\<lparr>ob_items := swap_remove_first i (ob_items ob)\<rparr>))"

definition dq_resize :: "nat \<Rightarrow> 'a \<Rightarrow> 'a list observable \<Rightarrow> ('a, unit) dq_result" where
  "dq_resize n x ob = unless_done ob
     (if n \<noteq> length (ob_items ob)
      then Ret ((), [Notified, Sent (DqResize n x)], ob\<lparr>ob_items := resize_to n x (ob_items ob)\<rparr>)
      else Ret ((), [], ob))"

definition dq_truncate :: "nat \<Rightarrow> 'a list observable \<Rightarrow> ('a, unit) dq_result" where
  "dq_truncate n ob = unless_done ob
     (if n < length (ob_items ob)
      then Ret ((), [Notified, Sent (DqTruncate n)], ob\<lparr>ob_items := take n (ob_items ob)\<rparr>)
      else Ret ((), [], ob))"

definition dq_clear :: "'a list observable \<Rightarrow> ('a, unit) dq_result" where
  "dq_clear ob = unless_done ob
     (if ob_items ob \<noteq> [] then Ret ((), [Notified, Sent DqClear], ob\<lparr>ob_items := []\<rparr>)
      else Ret ((), [], ob))"

definition dq_retain :: "(nat \<Rightarrow> 'a \<Rightarrow> bool) \<Rightarrow> 'a list observable \<Rightarrow> ('a, unit) dq_result" where
  "dq_retain f ob = unless_done ob
     (case retain_loop f 0 {} {} (ob_items ob) of (keep, remove, xs) \<Rightarrow>
        Ret ((),
             if remove \<noteq> {}
             then [Notified, Sent (if card keep < card remove then DqRetain keep else DqRetainNot remove)]
             else [],
             ob\<lparr>ob_items := xs\<rparr>))"

definition dq_shrink_to_fit :: "'a list observable \<Rightarrow> ('a, unit) dq_result" where
  "dq_shrink_to_fit ob = unless_done ob (Ret ((), [Sent DqShrinkToFit], ob))"

definition dq_done :: "'a list observable \<Rightarrow> ('a, unit) dq_result" where
  "dq_done ob =
     (if \<not> ob_done ob then Ret ((), [Sent DqDone], ob\<lparr>ob_done := True\<rparr>) else Ret ((), [], ob))"

fun dq_extend :: "'a list \<Rightarrow> 'a list observable \<Rightarrow> ('a, unit) dq_result" where
  "dq_extend [] ob = Ret ((), [], ob)"
| "dq_extend (x # xs) ob =
     exec_bind (dq_push_back x ob) (\<lambda>(_, out, ob).
       exec_bind (dq_extend xs ob) (\<lambda>(_, out', ob). Ret ((), out @ out', ob)))"

section \<open>The mirrored deque\<close>

fun dq_handle_event :: "'a dq_event \<Rightarrow> 'a list mirrored \<Rightarrow> robs_error option \<times> 'a list mirrored" where
  "dq_handle_event DqInitialComplete m = (None, m\<lparr>mi_complete := True\<rparr>)"
| "dq_handle_event (DqPushBack x) m =
     (let m = m\<lparr>mi_items := mi_items m @ [x]\<rparr>
      in if length (mi_items m) > mi_max_size m then (Some (MaxSizeExceeded (mi_max_size m)), m) else (None, m))"
| "dq_handle_event (DqPushFront x) m =
     (let m = m\<lparr>mi_items := x # mi_items m\<rparr>
      in if length (mi_items m) > mi_max_size m then (Some (MaxSizeExceeded (mi_max_size m)), m) else (None, m))"
| "dq_handle_event DqPopBack m = (None, m\<lparr>mi_items := butlast (mi_items m)\<rparr>)"
| "dq_handle_event DqPopFront m = (None, m\<lparr>mi_items := tl (mi_items m)\<rparr>)"
| "dq_handle_event (DqInsert i x) m =
     (if i > length (mi_items m) then (Some (InvalidIndex i), m)
      else (None, m\<lparr>mi_items := insert_at i x (mi_items m)\<rparr>))"
| "dq_handle_event (DqSet i x) m =
     (if i \<ge> length (mi_items m) then (Some (InvalidIndex i), m)
      else (None, m\<lparr>mi_items := (mi_items m)[i := x]\<rparr>))"
| "dq_handle_event (DqRemove i) m =
     (if i \<ge> length (mi_items m) then (Some (InvalidIndex i), m)
      else (None, m\<lparr>mi_items := remove_at i (mi_items m)\<rparr>))"
| "dq_handle_event (DqSwapRemoveBack i) m =
     (if i \<ge> length (mi_items m) then (Some (InvalidIndex i), m)
      else (None, m\<lparr>mi_items := swap_remove_last i (mi_items m)\<rparr>))"
| "dq_handle_event (DqSwapRemoveFront i) m =
     (if i \<ge> length (mi_items m) then (Some (InvalidIndex i), m)
      else (None, m\<lparr>mi_items := swap_remove_first i (mi_items m)\<rparr>))"
| "dq_handle_event (DqResize n x) m = (None, m\<lparr>mi_items := resize_to n x (mi_items m)\<rparr>)"
| "dq_handle_event (DqTruncate n) m = (None, m\<lparr>mi_items := take n (mi_items m)\<rparr>)"
| "dq_handle_event (DqRetain r) m = (None, m\<lparr>mi_items := retain_positions (\<lambda>i. i \<in> r) 0 (mi_items m)\<rparr>)"
| "dq_handle_event (DqRetainNot nr) m = (None, m\<lparr>mi_items := retain_positions (\<lambda>i. i \<notin> nr) 0 (mi_items m)\<rparr>)"
| "dq_handle_event DqClear m = (None, m\<lparr>mi_items := []\<rparr>)"
| "dq_handle_event DqShrinkToFit m = (None, m)"
| "dq_handle_event DqDone m = (None, m\<lparr>mi_done := True\<rparr>)"

text \<open>The subscription and the mirror of a deque.\<close>

definition dq_subscribe :: "'a list observable \<Rightarrow> 'a dq_event broadcast_msg mpsc \<Rightarrow>
    ('a list, 'a, 'a dq_event) subscription" where
  "dq_subscribe ob rx = subscribe_value ob rx"

definition dq_subscribe_incremental :: "'a mpsc \<Rightarrow> 'a list observable \<Rightarrow> 'a dq_event broadcast_msg mpsc \<Rightarrow>
    ('a list, 'a, 'a dq_event) subscription" where
  "dq_subscribe_incremental irx ob rx = subscribe_incremental (length (ob_items ob)) irx ob rx"

definition dq_recv :: "('a list, 'a, 'a dq_event) subscription \<Rightarrow>
    ((robs_error + 'a dq_event option) polled \<times> ('a list, 'a, 'a dq_event) subscription) exec" where
  "dq_recv sub = sub_recv DqPushBack DqInitialComplete DqDone sub"

definition dq_mirror :: "nat \<Rightarrow> ('a list, 'a, 'a dq_event) subscription \<Rightarrow>
    (bool \<times> 'a dq_event list \<times> 'a list mirrored \<times> ('a list, 'a, 'a dq_event) subscription) exec" where
  "dq_mirror max_size sub = mirror dq_handle_event DqPushBack DqInitialComplete DqDone [] max_size sub"

section \<open>Every operation\<close>

inductive dq_step :: "'a list observable \<Rightarrow> 'a dq_event robs_out list \<Rightarrow> 'a list observable \<Rightarrow> bool" where
  dq_step_push_back: "dq_push_back x ob = Ret (u, out, ob') \<Longrightarrow> dq_step ob out ob'"
| dq_step_push_front: "dq_push_front x ob = Ret (u, out, ob') \<Longrightarrow> dq_step ob out ob'"
| dq_step_pop_back: "dq_pop_back ob = Ret (popped, out, ob') \<Longrightarrow> dq_step ob out ob'"
| dq_step_pop_front: "dq_pop_front ob = Ret (popped, out, ob') \<Longrightarrow> dq_step ob out ob'"
| dq_step_get_mut: "dq_get_mut i access ob = Ret (got, out, ob') \<Longrightarrow> dq_step ob out ob'"
| dq_step_iter_mut: "dq_iter_mut refs ob = Ret (u, out, ob') \<Longrightarrow> list_all (\<lambda>(i, _). i < length (ob_items ob)) refs \<Longrightarrow>
    dq_step ob out ob'"
| dq_step_insert: "dq_insert i x ob = Ret (u, out, ob') \<Longrightarrow> dq_step ob out ob'"
| dq_step_remove: "dq_remove i ob = Ret (removed, out, ob') \<Longrightarrow> dq_step ob out ob'"
| dq_step_swap_remove_back: "dq_swap_remove_back i ob = Ret (removed, out, ob') \<Longrightarrow> dq_step ob out ob'"
| dq_step_swap_remove_front: "dq_swap_remove_front i ob = Ret (removed, out, ob') \<Longrightarrow> dq_step ob out ob'"
| dq_step_resize: "dq_resize n x ob = Ret (u, out, ob') \<Longrightarrow> dq_step ob out ob'"
| dq_step_truncate: "dq_truncate n ob = Ret (u, out, ob') \<Longrightarrow> dq_step ob out ob'"
| dq_step_clear: "dq_clear ob = Ret (u, out, ob') \<Longrightarrow> dq_step ob out ob'"
| dq_step_retain: "dq_retain f ob = Ret (u, out, ob') \<Longrightarrow> dq_step ob out ob'"
| dq_step_shrink_to_fit: "dq_shrink_to_fit ob = Ret (u, out, ob') \<Longrightarrow> dq_step ob out ob'"
| dq_step_done: "dq_done ob = Ret (u, out, ob') \<Longrightarrow> dq_step ob out ob'"
| dq_step_extend: "dq_extend xs ob = Ret (u, out, ob') \<Longrightarrow> dq_step ob out ob'"

text \<open>What an event does to the items, and when a mirror refuses it.\<close>

fun dq_effect :: "'a dq_event \<Rightarrow> 'a list \<Rightarrow> 'a list" where
  "dq_effect (DqPushBack x) xs = xs @ [x]"
| "dq_effect (DqPushFront x) xs = x # xs"
| "dq_effect DqPopBack xs = butlast xs"
| "dq_effect DqPopFront xs = tl xs"
| "dq_effect (DqInsert i x) xs = insert_at i x xs"
| "dq_effect (DqSet i x) xs = xs[i := x]"
| "dq_effect (DqRemove i) xs = remove_at i xs"
| "dq_effect (DqSwapRemoveBack i) xs = swap_remove_last i xs"
| "dq_effect (DqSwapRemoveFront i) xs = swap_remove_first i xs"
| "dq_effect (DqResize n x) xs = resize_to n x xs"
| "dq_effect (DqTruncate n) xs = take n xs"
| "dq_effect (DqRetain r) xs = retain_positions (\<lambda>i. i \<in> r) 0 xs"
| "dq_effect (DqRetainNot nr) xs = retain_positions (\<lambda>i. i \<notin> nr) 0 xs"
| "dq_effect DqClear xs = []"
| "dq_effect _ xs = xs"

fun dq_refusal :: "nat \<Rightarrow> 'a dq_event \<Rightarrow> 'a list \<Rightarrow> robs_error option" where
  "dq_refusal n (DqPushBack x) xs = (if length xs + 1 > n then Some (MaxSizeExceeded n) else None)"
| "dq_refusal n (DqPushFront x) xs = (if length xs + 1 > n then Some (MaxSizeExceeded n) else None)"
| "dq_refusal n (DqInsert i x) xs = (if i > length xs then Some (InvalidIndex i) else None)"
| "dq_refusal n (DqSet i x) xs = (if i \<ge> length xs then Some (InvalidIndex i) else None)"
| "dq_refusal n (DqRemove i) xs = (if i \<ge> length xs then Some (InvalidIndex i) else None)"
| "dq_refusal n (DqSwapRemoveBack i) xs = (if i \<ge> length xs then Some (InvalidIndex i) else None)"
| "dq_refusal n (DqSwapRemoveFront i) xs = (if i \<ge> length xs then Some (InvalidIndex i) else None)"
| "dq_refusal n _ xs = None"

abbreviation dq_replays :: "'a list observable \<Rightarrow> 'a dq_event robs_out list \<Rightarrow> 'a list observable \<Rightarrow> bool" where
  "dq_replays \<equiv> replays DqInitialComplete DqDone dq_effect dq_refusal length"

lemma dq_replays_ref: "i < length (ob_items ob) \<Longrightarrow> dq_ref_drop i access ob = (out, ob') \<Longrightarrow> dq_replays ob out ob'"
  by (auto simp: dq_ref_drop_def replays_def split: option.splits)

lemma dq_replays_refs:
  "dq_refs_drop refs ob = (out, ob') \<Longrightarrow> list_all (\<lambda>(i, _). i < length (ob_items ob)) refs \<Longrightarrow> dq_replays ob out ob'"
proof (induction refs ob arbitrary: out rule: dq_refs_drop.induct)
  case (1 ob)
  then show ?case by (simp add: replays_def)
next
  case (2 i access refs ob)
  obtain o1 ob1 where r: "dq_ref_drop i access ob = (o1, ob1)" by fastforce
  obtain o2 where r2: "dq_refs_drop refs ob1 = (o2, ob')" "out = o1 @ o2"
    using 2(2) r by (auto split: prod.splits)
  have "length (ob_items ob1) = length (ob_items ob)"
    using r by (auto simp: dq_ref_drop_def split: option.splits)
  with 2(1) [OF r [symmetric] r2(1)] 2(3) have "dq_replays ob1 o2 ob'"
    by simp
  with dq_replays_ref [OF _ r] 2(3) show ?case
    unfolding r2(2) by (intro replays_trans [where ob' = ob1]) auto
qed

lemma dq_push_back_replays: "dq_push_back x ob = Ret (u, out, ob') \<Longrightarrow> dq_replays ob out ob'"
  by (auto simp: dq_push_back_def unless_done_def replays_def sizes_within_Cons
      split: if_splits)

lemma dq_extend_replays: "dq_extend xs ob = Ret (u, out, ob') \<Longrightarrow> dq_replays ob out ob'"
proof (induction xs ob arbitrary: out rule: dq_extend.induct)
  case (1 ob)
  then show ?case by (simp add: replays_def)
next
  case (2 x xs ob)
  then obtain o1 ob1 o2 where "dq_push_back x ob = Ret ((), o1, ob1)" "dq_extend xs ob1 = Ret ((), o2, ob')" "out = o1 @ o2"
    by (auto simp: exec_bind_Ret)
  with 2 dq_push_back_replays replays_trans show ?case
    by fastforce
qed

lemma dq_step_replays:
  assumes "dq_step ob out ob'"
  shows "replays_or_done DqInitialComplete DqDone dq_effect dq_refusal length ob out ob'"
  using assms
proof cases
  case (dq_step_get_mut i access got)
  then show ?thesis
    using dq_replays_ref [of i ob access]
    by (auto simp: dq_get_mut_def unless_done_def replays_or_done_def replays_def split: if_splits prod.splits)
next
  case (dq_step_iter_mut refs u)
  then show ?thesis
    using dq_replays_refs [of refs ob] by (auto simp: dq_iter_mut_def unless_done_def replays_or_done_def split: if_splits prod.splits)
next
  case (dq_step_retain f u)
  obtain keep remove xs where r: "retain_loop f 0 {} {} (ob_items ob) = (keep, remove, xs)"
    by (cases "retain_loop f 0 {} {} (ob_items ob)")
  with dq_step_retain retain_loop_replay [OF r] show ?thesis
    by (auto simp: dq_retain_def unless_done_def replays_or_done_def replays_def split: if_splits)
next
  case (dq_step_push_back x u)
  with dq_push_back_replays [OF dq_step_push_back] show ?thesis
    by (simp add: dq_push_back_def unless_done_def replays_or_done_def split: if_splits)
next
  case (dq_step_extend xs u)
  with dq_extend_replays [OF dq_step_extend] show ?thesis
    by (cases xs) (auto simp: exec_bind_Ret dq_push_back_def unless_done_def replays_or_done_def replays_def split: if_splits)
qed (auto simp: sizes_within_Cons dq_push_front_def dq_pop_back_def dq_pop_front_def dq_insert_def dq_remove_def
      dq_swap_remove_back_def dq_swap_remove_front_def dq_resize_def
      dq_truncate_def dq_clear_def dq_shrink_to_fit_def dq_done_def unless_done_def replays_or_done_def replays_def split: if_splits)

interpretation deque: observed_collection dq_handle_event DqPushBack DqInitialComplete DqDone "[]" dq_effect dq_refusal
  dq_step length
proof
  fix ev :: "'a dq_event" and m :: "'a list mirrored" and err
  assume "ev \<noteq> DqDone" "ev \<noteq> DqInitialComplete"
  then show "dq_refusal (mi_max_size m) ev (mi_items m) = None \<Longrightarrow>
      dq_handle_event ev m = (None, m\<lparr>mi_items := dq_effect ev (mi_items m)\<rparr>)"
    by (cases ev) (auto simp: Let_def split: if_splits)
next
  fix ev :: "'a dq_event" and m :: "'a list mirrored" and err
  assume "ev \<noteq> DqDone" "ev \<noteq> DqInitialComplete" "dq_refusal (mi_max_size m) ev (mi_items m) = Some err"
  then show "\<exists>c. dq_handle_event ev m = (Some err, m\<lparr>mi_items := c\<rparr>)"
    by (cases ev) (auto simp: Let_def split: if_splits)
qed (simp_all add: dq_step_replays)

section \<open>Properties\<close>

lemma fold_dq_push: "fold dq_effect (map DqPushBack xs) ys = ys @ xs"
  by (induction xs arbitrary: ys) simp_all

lemma accepted_dq_push: "length ys + length xs \<le> n \<Longrightarrow> accepted dq_refusal dq_effect n (map DqPushBack xs) ys"
  by (induction xs arbitrary: ys) simp_all

text \<open>C35: A mirror converges to the observed deque. Whatever operations follow a subscription, a mirror
  that has received all their events, and whose maximum size is never exceeded, holds exactly the
  contents of the observed deque, knows whether it is done and has no error: for a subscription
  that carries the value and for one that sends it item by item.\<close>

theorem dq_mirror_converges:
  assumes "robs_run dq_step ob out ob'" "\<not> ob_done ob" "mq_queue rx = map (Inr \<circ> BcValue) (events_of out)"
    "\<not> disconnected rx" "sizes_within length dq_effect n (events_of out) (ob_items ob)"
    "mq_queue irx = map Inr (ob_items ob)"
  shows "mirrors (ob_items ob') (if ob_done ob' then Finished else StillOpen) n (dq_mirror n (dq_subscribe ob rx)) \<and>
    mirrors (ob_items ob') (if ob_done ob' then Finished else StillOpen) n
      (dq_mirror n (dq_subscribe_incremental irx ob rx))"
  using deque.converges [OF assms(1-5)] deque.converges_incremental [OF assms(1-4,6) _ _ assms(5)]
    sizes_within_start [OF assms(5)]
  by (simp add: dq_mirror_def dq_subscribe_def dq_subscribe_incremental_def fold_dq_push accepted_dq_push)

lemma example_dq_run:
  "robs_run dq_step (dq_from [1, 2]) ([Notified, Sent (DqPushFront 3)] @ [Notified, Sent (DqRetain {0})] @ [Sent DqDone])
     \<lparr>ob_items = [3 :: nat], ob_done = True\<rparr>"
proof -
  have 1: "dq_step (dq_from [1, 2]) [Notified, Sent (DqPushFront 3)] (dq_from [3, 1, 2 :: nat])"
    by (rule dq_step_push_front [of 3]) (simp add: dq_push_front_def unless_done_def dq_from_def)
  have 2: "dq_step (dq_from [3, 1, 2]) [Notified, Sent (DqRetain {0})] (dq_from [3 :: nat])"
    by (rule dq_step_retain [of "\<lambda>_ x. x = 3"]) (simp add: dq_retain_def unless_done_def dq_from_def)
  have 3: "dq_step (dq_from [3]) [Sent DqDone] \<lparr>ob_items = [3 :: nat], ob_done = True\<rparr>"
    by (rule dq_step_done) (simp add: dq_done_def dq_from_def)
  show ?thesis
    using robs_run_3 [of dq_step, OF 1 2 3] by simp
qed

theorem dq_mirror_converges_witness:
  "mirrors [3 :: nat] Finished 3
     (dq_mirror 3 (dq_subscribe (dq_from [1, 2]) (example_channel (map BcValue [DqPushFront 3, DqRetain {0}, DqDone]))))"
  using dq_mirror_converges [OF example_dq_run, of "example_channel (map BcValue [DqPushFront 3, DqRetain {0}, DqDone])" 3
      "example_channel [1, 2]"]
  by (simp add: example_channel_def dq_from_def disconnected_def sizes_within_Cons)

end
