(* ===== verification/Robs_Hash_Map.thy ===== *)
theory Robs_Hash_Map
  imports Robs_Seq
begin

text \<open>
  The observable hash map and its mirror, \<^verbatim>\<open>remoc/src/robs/hash_map.rs\<close>. The order in which a hash
  map is iterated is an argument of the operations that iterate, and a mutable reference to a
  value is modelled by its drop: \<open>None\<close> when the value was not accessed mutably, otherwise the
  value it was left with. The capacity of a map is not modelled.
\<close>

section \<open>The observable hash map\<close>

datatype ('k, 'v) hm_event =
    HmSet 'k 'v
  | HmRemove 'k
  | HmClear
  | HmShrinkToFit
  | HmDone
  | HmInitialComplete

type_synonym ('k, 'v) hm = "('k \<rightharpoonup> 'v) observable"
type_synonym ('k, 'v, 'r) hm_result = "('k \<rightharpoonup> 'v, ('k, 'v) hm_event, 'r) robs_result"

definition hm_from :: "('k \<rightharpoonup> 'v) \<Rightarrow> ('k, 'v) hm" where
  "hm_from m = \<lparr>ob_items = m, ob_done = False\<rparr>"

definition hm_insert :: "'k \<Rightarrow> 'v \<Rightarrow> ('k, 'v) hm \<Rightarrow> ('k, 'v, 'v option) hm_result" where
  "hm_insert k v ob = unless_done ob
     (Ret (ob_items ob k, [Notified, Sent (HmSet k v)], ob\<lparr>ob_items := (ob_items ob)(k \<mapsto> v)\<rparr>))"

definition hm_remove :: "'k \<Rightarrow> ('k, 'v) hm \<Rightarrow> ('k, 'v, 'v option) hm_result" where
  "hm_remove k ob = unless_done ob
     (case ob_items ob k of
        Some v \<Rightarrow> Ret (Some v, [Notified, Sent (HmRemove k)], ob\<lparr>ob_items := (ob_items ob)(k := None)\<rparr>)
      | None \<Rightarrow> Ret (None, [], ob))"

definition hm_clear :: "('k, 'v) hm \<Rightarrow> ('k, 'v, unit) hm_result" where
  "hm_clear ob = unless_done ob
     (if dom (ob_items ob) \<noteq> {} then Ret ((), [Notified, Sent HmClear], ob\<lparr>ob_items := Map.empty\<rparr>)
      else Ret ((), [], ob))"

text \<open>The predicate of \<^verbatim>\<open>retain\<close> gets the value mutably: it returns the value it leaves and whether the
  entry stays. It may depend on the calls before.\<close>

fun hm_retain_loop :: "(nat \<Rightarrow> 'k \<Rightarrow> 'v \<Rightarrow> 'v \<times> bool) \<Rightarrow> nat \<Rightarrow> 'k list \<Rightarrow> ('k \<rightharpoonup> 'v) \<Rightarrow>
    ('k, 'v) hm_event robs_out list \<times> ('k \<rightharpoonup> 'v)" where
  "hm_retain_loop f n [] m = ([], m)"
| "hm_retain_loop f n (k # ks) m =
     (case m k of
        None \<Rightarrow> hm_retain_loop f n ks m
      | Some v \<Rightarrow>
          (case f n k v of
             (v', True) \<Rightarrow> hm_retain_loop f (n + 1) ks (m(k \<mapsto> v'))
           | (_, False) \<Rightarrow>
               (case hm_retain_loop f (n + 1) ks (m(k := None)) of
                  (out, m) \<Rightarrow> ([Notified, Sent (HmRemove k)] @ out, m))))"

definition hm_retain :: "(nat \<Rightarrow> 'k \<Rightarrow> 'v \<Rightarrow> 'v \<times> bool) \<Rightarrow> 'k list \<Rightarrow> ('k, 'v) hm \<Rightarrow> ('k, 'v, unit) hm_result" where
  "hm_retain f order ob = unless_done ob
     (case hm_retain_loop f 0 order (ob_items ob) of (out, m) \<Rightarrow> Ret ((), out, ob\<lparr>ob_items := m\<rparr>))"

definition hm_ref_drop :: "'k \<Rightarrow> 'v option \<Rightarrow> ('k, 'v) hm \<Rightarrow> ('k, 'v) hm_event robs_out list \<times> ('k, 'v) hm" where
  "hm_ref_drop k access ob =
     (case access of
        None \<Rightarrow> ([], ob)
      | Some v \<Rightarrow> ([Notified, Sent (HmSet k v)], ob\<lparr>ob_items := (ob_items ob)(k \<mapsto> v)\<rparr>))"

definition hm_get_mut :: "'k \<Rightarrow> 'v option \<Rightarrow> ('k, 'v) hm \<Rightarrow> ('k, 'v, 'v option) hm_result" where
  "hm_get_mut k access ob = unless_done ob
     (case ob_items ob k of
        Some v \<Rightarrow> (case hm_ref_drop k access ob of (out, ob) \<Rightarrow> Ret (Some v, out, ob))
      | None \<Rightarrow> Ret (None, [], ob))"

text \<open>The references of \<^verbatim>\<open>iter_mut\<close> in the order of their drops.\<close>

fun hm_refs_drop :: "('k \<times> 'v option) list \<Rightarrow> ('k, 'v) hm \<Rightarrow> ('k, 'v) hm_event robs_out list \<times> ('k, 'v) hm" where
  "hm_refs_drop [] ob = ([], ob)"
| "hm_refs_drop ((k, access) # refs) ob =
     (case hm_ref_drop k access ob of (out, ob) \<Rightarrow>
        case hm_refs_drop refs ob of (out', ob) \<Rightarrow> (out @ out', ob))"

definition hm_iter_mut :: "('k \<times> 'v option) list \<Rightarrow> ('k, 'v) hm \<Rightarrow> ('k, 'v, unit) hm_result" where
  "hm_iter_mut refs ob = unless_done ob
     (case hm_refs_drop refs ob of (out, ob) \<Rightarrow> Ret ((), out, ob))"

definition hm_shrink_to_fit :: "('k, 'v) hm \<Rightarrow> ('k, 'v, unit) hm_result" where
  "hm_shrink_to_fit ob = unless_done ob (Ret ((), [Sent HmShrinkToFit], ob))"

definition hm_done :: "('k, 'v) hm \<Rightarrow> ('k, 'v, unit) hm_result" where
  "hm_done ob =
     (if \<not> ob_done ob then Ret ((), [Sent HmDone], ob\<lparr>ob_done := True\<rparr>) else Ret ((), [], ob))"

fun hm_extend :: "('k \<times> 'v) list \<Rightarrow> ('k, 'v) hm \<Rightarrow> ('k, 'v, unit) hm_result" where
  "hm_extend [] ob = Ret ((), [], ob)"
| "hm_extend ((k, v) # kvs) ob =
     exec_bind (hm_insert k v ob) (\<lambda>(_, out, ob).
       exec_bind (hm_extend kvs ob) (\<lambda>(_, out', ob). Ret ((), out @ out', ob)))"

section \<open>Entries\<close>

text \<open>An entry of a map that is not done; what it is used for follows.\<close>

datatype 'k hm_entry = Occupied 'k | Vacant 'k

definition hm_entry_of :: "'k \<Rightarrow> ('k, 'v) hm \<Rightarrow> 'k hm_entry exec" where
  "hm_entry_of k ob =
     (if ob_done ob then Panic else Ret (case ob_items ob k of Some _ \<Rightarrow> Occupied k | None \<Rightarrow> Vacant k))"

type_synonym ('k, 'v) hm_effect = "('k, 'v) hm_event robs_out list \<times> ('k, 'v) hm"

definition occupied_remove_entry :: "'k \<Rightarrow> ('k, 'v) hm \<Rightarrow> ('k \<times> 'v) \<times> ('k, 'v) hm_effect" where
  "occupied_remove_entry k ob =
     ((k, the (ob_items ob k)), [Notified, Sent (HmRemove k)], ob\<lparr>ob_items := (ob_items ob)(k := None)\<rparr>)"

definition occupied_remove :: "'k \<Rightarrow> ('k, 'v) hm \<Rightarrow> 'v \<times> ('k, 'v) hm_effect" where
  "occupied_remove k ob =
     (the (ob_items ob k), [Notified, Sent (HmRemove k)], ob\<lparr>ob_items := (ob_items ob)(k := None)\<rparr>)"

definition occupied_insert :: "'k \<Rightarrow> 'v \<Rightarrow> ('k, 'v) hm \<Rightarrow> 'v \<times> ('k, 'v) hm_effect" where
  "occupied_insert k v ob =
     (the (ob_items ob k), [Notified, Sent (HmSet k v)], ob\<lparr>ob_items := (ob_items ob)(k \<mapsto> v)\<rparr>)"

definition vacant_insert :: "'k \<Rightarrow> 'v \<Rightarrow> ('k, 'v) hm \<Rightarrow> ('k, 'v) hm_effect" where
  "vacant_insert k v ob = ([Notified, Sent (HmSet k v)], ob\<lparr>ob_items := (ob_items ob)(k \<mapsto> v)\<rparr>)"

text \<open>\<^verbatim>\<open>or_insert_with_key\<close>; the other variants compute the value without the key. The reference
  returned is dropped with \<open>access\<close>.\<close>

definition entry_or_insert :: "('k \<Rightarrow> 'v) \<Rightarrow> 'v option \<Rightarrow> 'k hm_entry \<Rightarrow> ('k, 'v) hm \<Rightarrow> ('k, 'v) hm_effect" where
  "entry_or_insert dflt access entry ob =
     (case entry of
        Occupied k \<Rightarrow> hm_ref_drop k access ob
      | Vacant k \<Rightarrow>
          (case vacant_insert k (dflt k) ob of (out, ob) \<Rightarrow>
             case hm_ref_drop k access ob of (out', ob) \<Rightarrow> (out @ out', ob)))"

definition entry_and_modify :: "('v \<Rightarrow> 'v) \<Rightarrow> 'k hm_entry \<Rightarrow> ('k, 'v) hm \<Rightarrow> ('k, 'v) hm_effect" where
  "entry_and_modify f entry ob =
     (case entry of
        Occupied k \<Rightarrow> hm_ref_drop k (Some (f (the (ob_items ob k)))) ob
      | Vacant k \<Rightarrow> ([], ob))"

section \<open>The mirrored hash map\<close>

fun hm_handle_event :: "('k, 'v) hm_event \<Rightarrow> ('k \<rightharpoonup> 'v) mirrored \<Rightarrow> robs_error option \<times> ('k \<rightharpoonup> 'v) mirrored" where
  "hm_handle_event HmInitialComplete m = (None, m\<lparr>mi_complete := True\<rparr>)"
| "hm_handle_event (HmSet k v) m =
     (let m = m\<lparr>mi_items := (mi_items m)(k \<mapsto> v)\<rparr>
      in if card (dom (mi_items m)) > mi_max_size m then (Some (MaxSizeExceeded (mi_max_size m)), m) else (None, m))"
| "hm_handle_event (HmRemove k) m = (None, m\<lparr>mi_items := (mi_items m)(k := None)\<rparr>)"
| "hm_handle_event HmClear m = (None, m\<lparr>mi_items := Map.empty\<rparr>)"
| "hm_handle_event HmShrinkToFit m = (None, m)"
| "hm_handle_event HmDone m = (None, m\<lparr>mi_done := True\<rparr>)"

type_synonym ('k, 'v) hm_subscription = "('k \<rightharpoonup> 'v, 'k \<times> 'v, ('k, 'v) hm_event) subscription"

definition hm_subscribe :: "('k, 'v) hm \<Rightarrow> ('k, 'v) hm_event broadcast_msg mpsc \<Rightarrow> ('k, 'v) hm_subscription" where
  "hm_subscribe ob rx = subscribe_value ob rx"

definition hm_subscribe_incremental :: "('k \<times> 'v) mpsc \<Rightarrow> ('k, 'v) hm \<Rightarrow> ('k, 'v) hm_event broadcast_msg mpsc \<Rightarrow>
    ('k, 'v) hm_subscription" where
  "hm_subscribe_incremental irx ob rx = subscribe_incremental (card (dom (ob_items ob))) irx ob rx"

definition hm_recv :: "('k, 'v) hm_subscription \<Rightarrow>
    ((robs_error + ('k, 'v) hm_event option) polled \<times> ('k, 'v) hm_subscription) exec" where
  "hm_recv sub = sub_recv (\<lambda>(k, v). HmSet k v) HmInitialComplete HmDone sub"

definition hm_mirror :: "nat \<Rightarrow> ('k, 'v) hm_subscription \<Rightarrow>
    (bool \<times> ('k, 'v) hm_event list \<times> ('k \<rightharpoonup> 'v) mirrored \<times> ('k, 'v) hm_subscription) exec" where
  "hm_mirror max_size sub =
     mirror hm_handle_event (\<lambda>(k, v). HmSet k v) HmInitialComplete HmDone Map.empty max_size sub"

section \<open>Every operation\<close>

text \<open>Here \<^verbatim>\<open>retain\<close> gets a predicate that does not change the values it keeps.\<close>

inductive hm_step :: "('k, 'v) hm \<Rightarrow> ('k, 'v) hm_event robs_out list \<Rightarrow> ('k, 'v) hm \<Rightarrow> bool" where
  hm_step_insert: "hm_insert k v ob = Ret (old, out, ob') \<Longrightarrow> hm_step ob out ob'"
| hm_step_remove: "hm_remove k ob = Ret (old, out, ob') \<Longrightarrow> hm_step ob out ob'"
| hm_step_clear: "hm_clear ob = Ret (u, out, ob') \<Longrightarrow> hm_step ob out ob'"
| hm_step_retain: "hm_retain f order ob = Ret (u, out, ob') \<Longrightarrow> (\<And>n k v. snd (f n k v) \<Longrightarrow> fst (f n k v) = v) \<Longrightarrow>
    hm_step ob out ob'"
| hm_step_get_mut: "hm_get_mut k access ob = Ret (got, out, ob') \<Longrightarrow> hm_step ob out ob'"
| hm_step_iter_mut: "hm_iter_mut refs ob = Ret (u, out, ob') \<Longrightarrow>
    list_all (\<lambda>(k, _). k \<in> dom (ob_items ob)) refs \<Longrightarrow> hm_step ob out ob'"
| hm_step_or_insert: "hm_entry_of k ob = Ret entry \<Longrightarrow> entry_or_insert mk access entry ob = (out, ob') \<Longrightarrow>
    hm_step ob out ob'"
| hm_step_and_modify: "hm_entry_of k ob = Ret entry \<Longrightarrow> entry_and_modify g entry ob = (out, ob') \<Longrightarrow>
    hm_step ob out ob'"
| hm_step_occupied_insert: "hm_entry_of k ob = Ret (Occupied k) \<Longrightarrow> occupied_insert k v ob = (v', out, ob') \<Longrightarrow>
    hm_step ob out ob'"
| hm_step_occupied_remove: "hm_entry_of k ob = Ret (Occupied k) \<Longrightarrow> occupied_remove k ob = (v', out, ob') \<Longrightarrow>
    hm_step ob out ob'"
| hm_step_occupied_remove_entry: "hm_entry_of k ob = Ret (Occupied k) \<Longrightarrow>
    occupied_remove_entry k ob = (kv, out, ob') \<Longrightarrow> hm_step ob out ob'"
| hm_step_shrink_to_fit: "hm_shrink_to_fit ob = Ret (u, out, ob') \<Longrightarrow> hm_step ob out ob'"
| hm_step_done: "hm_done ob = Ret (u, out, ob') \<Longrightarrow> hm_step ob out ob'"
| hm_step_extend: "hm_extend kvs ob = Ret (u, out, ob') \<Longrightarrow> hm_step ob out ob'"

fun hm_effect :: "('k, 'v) hm_event \<Rightarrow> ('k \<rightharpoonup> 'v) \<Rightarrow> ('k \<rightharpoonup> 'v)" where
  "hm_effect (HmSet k v) m = m(k \<mapsto> v)"
| "hm_effect (HmRemove k) m = m(k := None)"
| "hm_effect HmClear m = Map.empty"
| "hm_effect _ m = m"

definition hm_size :: "('k \<rightharpoonup> 'v) \<Rightarrow> nat" where
  "hm_size m = card (dom m)"

fun hm_refusal :: "nat \<Rightarrow> ('k, 'v) hm_event \<Rightarrow> ('k \<rightharpoonup> 'v) \<Rightarrow> robs_error option" where
  "hm_refusal n (HmSet k v) m = (if hm_size (m(k \<mapsto> v)) > n then Some (MaxSizeExceeded n) else None)"
| "hm_refusal n _ m = None"

abbreviation hm_replays :: "('k, 'v) hm \<Rightarrow> ('k, 'v) hm_event robs_out list \<Rightarrow> ('k, 'v) hm \<Rightarrow> bool" where
  "hm_replays \<equiv> replays HmInitialComplete HmDone hm_effect hm_refusal hm_size"

lemma hm_accepted:
  "sizes_within hm_size hm_effect n evs m \<Longrightarrow> accepted hm_refusal hm_effect n evs m"
proof (induction evs arbitrary: m)
  case (Cons ev evs)
  then have "sizes_within hm_size hm_effect n evs (hm_effect ev m)"
    by (simp add: sizes_within_Cons)
  with Cons.IH sizes_within_start [OF this] show ?case
    by (cases ev) auto
qed simp

lemma hm_replays_iff:
  "hm_replays ob out ob' \<longleftrightarrow> ob_done ob' = ob_done ob \<and> HmDone \<notin> set (events_of out) \<and>
     HmInitialComplete \<notin> set (events_of out) \<and> fold hm_effect (events_of out) (ob_items ob) = ob_items ob'"
  by (auto simp: replays_def hm_accepted)

lemma hm_ref_replays: "hm_ref_drop k access ob = (out, ob') \<Longrightarrow> hm_replays ob out ob'"
  by (auto simp: hm_ref_drop_def hm_replays_iff split: option.splits)

lemma hm_refs_replays: "hm_refs_drop refs ob = (out, ob') \<Longrightarrow> hm_replays ob out ob'"
proof (induction refs ob arbitrary: out rule: hm_refs_drop.induct)
  case (2 k access refs ob)
  then obtain o1 ob1 o2 where "hm_ref_drop k access ob = (o1, ob1)" "hm_refs_drop refs ob1 = (o2, ob')" "out = o1 @ o2"
    by (auto split: prod.splits)
  with 2(1) hm_ref_replays replays_trans show ?case by metis
qed simp

lemma hm_retain_replays:
  assumes "\<And>n k v. snd (f n k v) \<Longrightarrow> fst (f n k v) = v"
  shows "hm_retain_loop f n order m = (out, m') \<Longrightarrow>
    HmDone \<notin> set (events_of out) \<and> HmInitialComplete \<notin> set (events_of out) \<and> fold hm_effect (events_of out) m = m'"
proof (induction order arbitrary: n m out)
  case (Cons k ks)
  show ?case
  proof (cases "m k")
    case None
    with Cons show ?thesis by simp
  next
    case (Some v)
    obtain v' b where f: "f n k v = (v', b)" by fastforce
    show ?thesis
    proof (cases b)
      case True
      with assms [of n k v] f have "v' = v"
        by simp
      with Cons Some f True show ?thesis
        by (simp add: fun_upd_idem)
    next
      case False
      with Cons Some f show ?thesis
        by (fastforce split: prod.splits)
    qed
  qed
qed simp

lemma hm_insert_replays: "hm_insert k v ob = Ret (old, out, ob') \<Longrightarrow> hm_replays ob out ob'"
  by (auto simp: hm_insert_def unless_done_def hm_replays_iff split: if_splits)

lemma hm_extend_replays: "hm_extend kvs ob = Ret (u, out, ob') \<Longrightarrow> hm_replays ob out ob'"
proof (induction kvs ob arbitrary: out rule: hm_extend.induct)
  case (2 k v kvs ob)
  then obtain old o1 ob1 o2 where
    "hm_insert k v ob = Ret (old, o1, ob1)" "hm_extend kvs ob1 = Ret ((), o2, ob')" "out = o1 @ o2"
    by (auto simp: exec_bind_Ret)
  with 2 hm_insert_replays replays_trans show ?case
    by fastforce
qed simp

lemma hm_step_replays:
  assumes "hm_step ob out ob'"
  shows "replays_or_done HmInitialComplete HmDone hm_effect hm_refusal hm_size ob out ob'"
  using assms
proof cases
  case (hm_step_retain f order u)
  then obtain m where r: "\<not> ob_done ob" "hm_retain_loop f 0 order (ob_items ob) = (out, m)" "ob' = ob\<lparr>ob_items := m\<rparr>"
    by (auto simp: hm_retain_def unless_done_def split: if_splits prod.splits)
  with hm_retain_replays [OF hm_step_retain(2) r(2)] show ?thesis
    by (simp add: replays_or_done_def hm_replays_iff)
next
  case (hm_step_get_mut k access got)
  then show ?thesis
    using hm_ref_replays [of k access ob]
    by (auto simp: hm_get_mut_def unless_done_def replays_or_done_def split: if_splits prod.splits option.splits)
next
  case (hm_step_iter_mut refs u)
  then show ?thesis
    using hm_refs_replays [of refs ob]
    by (auto simp: hm_iter_mut_def unless_done_def replays_or_done_def split: if_splits prod.splits)
next
  case (hm_step_or_insert k entry mk access)
  then show ?thesis
    using hm_ref_replays
    by (auto simp: hm_entry_of_def entry_or_insert_def vacant_insert_def hm_ref_drop_def replays_or_done_def hm_replays_iff
        split: if_splits option.splits hm_entry.splits)
next
  case (hm_step_extend kvs u)
  with hm_extend_replays [OF hm_step_extend] show ?thesis
    by (cases kvs) (auto simp: exec_bind_Ret hm_insert_def unless_done_def replays_or_done_def replays_def split: if_splits)
qed (auto simp: hm_insert_def hm_remove_def hm_clear_def hm_entry_of_def entry_and_modify_def hm_ref_drop_def
      occupied_insert_def occupied_remove_def occupied_remove_entry_def hm_shrink_to_fit_def hm_done_def unless_done_def
      replays_or_done_def hm_replays_iff dom_def split: if_splits option.splits)

interpretation hash_map: observed_collection hm_handle_event "\<lambda>(k, v). HmSet k v" HmInitialComplete HmDone Map.empty
  hm_effect hm_refusal hm_step hm_size
proof
  fix ev :: "('k, 'v) hm_event" and m :: "('k \<rightharpoonup> 'v) mirrored" and err
  assume "ev \<noteq> HmDone" "ev \<noteq> HmInitialComplete"
  then show "hm_refusal (mi_max_size m) ev (mi_items m) = None \<Longrightarrow>
      hm_handle_event ev m = (None, m\<lparr>mi_items := hm_effect ev (mi_items m)\<rparr>)"
    by (cases ev) (auto simp: Let_def hm_size_def split: if_splits)
next
  fix ev :: "('k, 'v) hm_event" and m :: "('k \<rightharpoonup> 'v) mirrored" and err
  assume "ev \<noteq> HmDone" "ev \<noteq> HmInitialComplete" "hm_refusal (mi_max_size m) ev (mi_items m) = Some err"
  then show "\<exists>c. hm_handle_event ev m = (Some err, m\<lparr>mi_items := c\<rparr>)"
    by (cases ev) (auto simp: Let_def hm_size_def split: if_splits)
qed (auto simp: hm_step_replays)

section \<open>Properties\<close>

lemma fold_hm_set: "fold hm_effect (map (\<lambda>(k, v). HmSet k v) kvs) m = m ++ map_of (rev kvs)"
  by (induction kvs arbitrary: m) auto

lemma fold_hm_entries:
  assumes "distinct (map fst kvs)"
  shows "fold hm_effect (map (\<lambda>(k, v). HmSet k v) kvs) Map.empty = map_of kvs"
proof -
  have "map_of (rev kvs) = map_of kvs"
    using assms by (intro map_of_inject_set [THEN iffD2]) (simp_all add: rev_map [symmetric])
  then show ?thesis
    by (simp add: fold_hm_set)
qed

lemma hm_size_upd_le: "hm_size (m(k \<mapsto> v)) \<le> Suc (hm_size m)"
  unfolding hm_size_def by (cases "finite (dom m)") (simp_all add: card_insert_if)

lemma accepted_hm_sets:
  "hm_size m + length kvs \<le> n \<Longrightarrow> accepted hm_refusal hm_effect n (map (\<lambda>(k, v). HmSet k v) kvs) m"
proof (induction kvs arbitrary: m)
  case (Cons kv kvs)
  obtain k v where "kv = (k, v)" by fastforce
  moreover have "hm_size (m(k \<mapsto> v)) + length kvs \<le> n"
    using Cons.prems hm_size_upd_le [of m k v] by simp
  ultimately show ?case
    using Cons.prems hm_size_upd_le [of m k v] Cons.IH [of "m(k \<mapsto> v)"] by (simp del: fun_upd_apply)
qed simp

text \<open>C36: A mirror converges to the observed hash map: after any operations, a mirror that has received
  all their events holds the same entries, without an error, also when the initial entries were sent
  one by one in any order. The limit of the mirror is never to be exceeded, and no predicate of
  \<^verbatim>\<open>retain\<close> changes a value it keeps.\<close>

theorem hm_mirror_converges:
  assumes "robs_run hm_step ob out ob'" "\<not> ob_done ob" "mq_queue rx = map (Inr \<circ> BcValue) (events_of out)"
    "\<not> disconnected rx" "sizes_within hm_size hm_effect n (events_of out) (ob_items ob)"
    "distinct (map fst kvs)" "ob_items ob = map_of kvs" "mq_queue irx = map Inr kvs"
  shows "mirrors (ob_items ob') (if ob_done ob' then Finished else StillOpen) n (hm_mirror n (hm_subscribe ob rx)) \<and>
    mirrors (ob_items ob') (if ob_done ob' then Finished else StillOpen) n
      (hm_mirror n (hm_subscribe_incremental irx ob rx))"
proof -
  have s: "hm_size (map_of kvs) = length kvs"
    using distinct_card [OF assms(6)] by (simp add: hm_size_def dom_map_of_conv_image_fst)
  have "accepted hm_refusal hm_effect n (map (\<lambda>(k, v). HmSet k v) kvs) Map.empty"
    using sizes_within_start [OF assms(5)] by (intro accepted_hm_sets) (simp add: assms(7) s, simp add: hm_size_def)
  with hash_map.converges [OF assms(1-5)] hash_map.converges_incremental [OF assms(1-4,8) _ _ assms(5)] s
  show ?thesis
    by (simp add: hm_mirror_def hm_subscribe_def hm_subscribe_incremental_def fold_hm_entries assms(6,7) hm_size_def)
qed

lemma example_hm_run:
  "robs_run hm_step (hm_from [1 \<mapsto> 10 :: nat]) ([Notified, Sent (HmSet 2 20)] @ [Notified, Sent (HmRemove 1)] @ [Sent HmDone])
     \<lparr>ob_items = [2 :: nat \<mapsto> 20], ob_done = True\<rparr>"
proof -
  have 1: "hm_step (hm_from [1 \<mapsto> 10]) [Notified, Sent (HmSet 2 20)] (hm_from [1 :: nat \<mapsto> 10 :: nat, 2 \<mapsto> 20])"
    by (rule hm_step_insert [of 2 20]) (simp add: hm_insert_def unless_done_def hm_from_def)
  have 2: "hm_step (hm_from [1 \<mapsto> 10, 2 \<mapsto> 20]) [Notified, Sent (HmRemove 1)] (hm_from [2 :: nat \<mapsto> 20 :: nat])"
    by (rule hm_step_retain [of "\<lambda>_ k v. (v, even k)" "[2, 1]"])
      (simp_all add: hm_retain_def unless_done_def hm_from_def fun_eq_iff)
  have 3: "hm_step (hm_from [2 \<mapsto> 20]) [Sent HmDone] \<lparr>ob_items = [2 :: nat \<mapsto> 20 :: nat], ob_done = True\<rparr>"
    by (rule hm_step_done) (simp add: hm_done_def hm_from_def)
  show ?thesis
    using robs_run_3 [of hm_step, OF 1 2 3] by simp
qed

theorem hm_mirror_converges_witness:
  "mirrors [2 :: nat \<mapsto> 20 :: nat] Finished 2
     (hm_mirror 2 (hm_subscribe (hm_from [1 \<mapsto> 10]) (example_channel (map BcValue [HmSet 2 20, HmRemove 1, HmDone]))))"
proof -
  have "sizes_within hm_size hm_effect 2 [HmSet 2 20, HmRemove 1, HmDone] [1 :: nat \<mapsto> 10 :: nat]"
    by (simp add: sizes_within_Cons hm_size_def)
  with hm_mirror_converges [OF example_hm_run, of "example_channel (map BcValue [HmSet 2 20, HmRemove 1, HmDone])" 2
      "[(1, 10)]" "example_channel [(1, 10)]"]
  show ?thesis
    by (simp add: example_channel_def hm_from_def disconnected_def)
qed

text \<open>\<^verbatim>\<open>retain\<close> can make mirrors diverge. Its predicate may change the values it keeps, but no event is
  sent for them: the observed map then holds a changed value, and a mirror that has received every
  event still holds the old one.\<close>

theorem hm_retain_diverges:
  assumes "ob_items ob = [k \<mapsto> v]" "\<not> ob_done ob" "v' \<noteq> v" "mq_queue rx = []" "\<not> disconnected rx"
  shows "\<exists>out ob'. hm_retain (\<lambda>_ _ _. (v', True)) [k] ob = Ret ((), out, ob') \<and> events_of out = [] \<and>
    ob_items ob' = [k \<mapsto> v'] \<and> mirrors [k \<mapsto> v] StillOpen n (hm_mirror n (hm_subscribe ob rx)) \<and> ob_items ob' \<noteq> [k \<mapsto> v]"
proof -
  have "mirrors (fold hm_effect [] (ob_items ob)) StillOpen n
      (mirror hm_handle_event (\<lambda>(k, v). HmSet k v) HmInitialComplete HmDone Map.empty n (subscribe_value ob rx))"
    by (rule hash_map.mirror_value) (use assms in simp_all)
  with assms show ?thesis
    by (simp add: hm_retain_def unless_done_def hm_mirror_def hm_subscribe_def fun_upd_eqD) (metis fun_upd_eqD option.inject)
qed

theorem hm_retain_diverges_witness:
  "\<exists>out ob'. hm_retain (\<lambda>_ _ _. (7 :: nat, True)) [1 :: nat] (hm_from [1 \<mapsto> 5]) = Ret ((), out, ob') \<and> events_of out = [] \<and>
     ob_items ob' = [1 \<mapsto> 7] \<and> mirrors [1 \<mapsto> 5] StillOpen 9
       (hm_mirror 9 (hm_subscribe (hm_from [1 :: nat \<mapsto> 5 :: nat]) (example_channel []))) \<and>
     ob_items ob' \<noteq> [1 \<mapsto> 5]"
  by (rule hm_retain_diverges) (simp_all add: hm_from_def example_channel_def disconnected_def)

end
