(* ===== verification/Robs_Hash_Set.thy ===== *)
theory Robs_Hash_Set
  imports Robs_Seq
begin

text \<open>
  The observable hash set and its mirror, \<^verbatim>\<open>remoc/src/robs/hash_set.rs\<close>. An item is a pair of the part
  that its \<^verbatim>\<open>Eq\<close> and \<^verbatim>\<open>Hash\<close> look at and the rest (which is \<open>unit\<close> when equal items are the same); a set
  maps the first part of each of its items to the rest. The order in which a set is iterated is an
  argument; the capacity of a set is not modelled.
\<close>

section \<open>The observable hash set\<close>

datatype ('k, 'x) hs_event =
    HsSet "'k \<times> 'x"
  | HsRemove "'k \<times> 'x"
  | HsClear
  | HsShrinkToFit
  | HsDone
  | HsInitialComplete

type_synonym ('k, 'x) hs = "('k \<rightharpoonup> 'x) observable"
type_synonym ('k, 'x, 'r) hs_result = "('k \<rightharpoonup> 'x, ('k, 'x) hs_event, 'r) robs_result"

text \<open>The operations of the standard library: inserting keeps the item of the set when it has an equal
  one, replacing does not.\<close>

definition set_insert :: "'k \<times> 'x \<Rightarrow> ('k \<rightharpoonup> 'x) \<Rightarrow> ('k \<rightharpoonup> 'x)" where
  "set_insert v m = (case v of (k, x) \<Rightarrow> if m k = None then m(k \<mapsto> x) else m)"

definition set_replace :: "'k \<times> 'x \<Rightarrow> ('k \<rightharpoonup> 'x) \<Rightarrow> ('k \<rightharpoonup> 'x)" where
  "set_replace v m = (case v of (k, x) \<Rightarrow> m(k \<mapsto> x))"

definition hs_from :: "('k \<rightharpoonup> 'x) \<Rightarrow> ('k, 'x) hs" where
  "hs_from m = \<lparr>ob_items = m, ob_done = False\<rparr>"

definition hs_insert :: "'k \<times> 'x \<Rightarrow> ('k, 'x) hs \<Rightarrow> ('k, 'x, bool) hs_result" where
  "hs_insert v ob = unless_done ob
     (Ret (ob_items ob (fst v) = None, [Notified, Sent (HsSet v)], ob\<lparr>ob_items := set_insert v (ob_items ob)\<rparr>))"

definition hs_replace :: "'k \<times> 'x \<Rightarrow> ('k, 'x) hs \<Rightarrow> ('k, 'x, ('k \<times> 'x) option) hs_result" where
  "hs_replace v ob = unless_done ob
     (Ret (map_option (Pair (fst v)) (ob_items ob (fst v)), [Notified, Sent (HsSet v)],
       ob\<lparr>ob_items := set_replace v (ob_items ob)\<rparr>))"

definition hs_remove :: "'k \<Rightarrow> ('k, 'x) hs \<Rightarrow> ('k, 'x, bool) hs_result" where
  "hs_remove k ob = unless_done ob
     (case ob_items ob k of
        Some x \<Rightarrow> Ret (True, [Notified, Sent (HsRemove (k, x))], ob\<lparr>ob_items := (ob_items ob)(k := None)\<rparr>)
      | None \<Rightarrow> Ret (False, [], ob))"

definition hs_take :: "'k \<Rightarrow> ('k, 'x) hs \<Rightarrow> ('k, 'x, ('k \<times> 'x) option) hs_result" where
  "hs_take k ob = unless_done ob
     (case ob_items ob k of
        Some x \<Rightarrow> Ret (Some (k, x), [Notified, Sent (HsRemove (k, x))], ob\<lparr>ob_items := (ob_items ob)(k := None)\<rparr>)
      | None \<Rightarrow> Ret (None, [], ob))"

definition hs_clear :: "('k, 'x) hs \<Rightarrow> ('k, 'x, unit) hs_result" where
  "hs_clear ob = unless_done ob
     (if dom (ob_items ob) \<noteq> {} then Ret ((), [Notified, Sent HsClear], ob\<lparr>ob_items := Map.empty\<rparr>)
      else Ret ((), [], ob))"

fun hs_retain_loop :: "(nat \<Rightarrow> 'k \<times> 'x \<Rightarrow> bool) \<Rightarrow> nat \<Rightarrow> 'k list \<Rightarrow> ('k \<rightharpoonup> 'x) \<Rightarrow>
    ('k, 'x) hs_event robs_out list \<times> ('k \<rightharpoonup> 'x)" where
  "hs_retain_loop f n [] m = ([], m)"
| "hs_retain_loop f n (k # ks) m =
     (case m k of
        None \<Rightarrow> hs_retain_loop f n ks m
      | Some x \<Rightarrow>
          if f n (k, x) then hs_retain_loop f (n + 1) ks m
          else (case hs_retain_loop f (n + 1) ks (m(k := None)) of
                  (out, m) \<Rightarrow> ([Notified, Sent (HsRemove (k, x))] @ out, m)))"

definition hs_retain :: "(nat \<Rightarrow> 'k \<times> 'x \<Rightarrow> bool) \<Rightarrow> 'k list \<Rightarrow> ('k, 'x) hs \<Rightarrow> ('k, 'x, unit) hs_result" where
  "hs_retain f order ob = unless_done ob
     (case hs_retain_loop f 0 order (ob_items ob) of (out, m) \<Rightarrow> Ret ((), out, ob\<lparr>ob_items := m\<rparr>))"

definition hs_shrink_to_fit :: "('k, 'x) hs \<Rightarrow> ('k, 'x, unit) hs_result" where
  "hs_shrink_to_fit ob = unless_done ob (Ret ((), [Sent HsShrinkToFit], ob))"

definition hs_done :: "('k, 'x) hs \<Rightarrow> ('k, 'x, unit) hs_result" where
  "hs_done ob =
     (if \<not> ob_done ob then Ret ((), [Sent HsDone], ob\<lparr>ob_done := True\<rparr>) else Ret ((), [], ob))"

fun hs_extend :: "('k \<times> 'x) list \<Rightarrow> ('k, 'x) hs \<Rightarrow> ('k, 'x, unit) hs_result" where
  "hs_extend [] ob = Ret ((), [], ob)"
| "hs_extend (v # vs) ob =
     exec_bind (hs_insert v ob) (\<lambda>(_, out, ob).
       exec_bind (hs_extend vs ob) (\<lambda>(_, out', ob). Ret ((), out @ out', ob)))"

section \<open>The mirrored hash set\<close>

fun hs_handle_event :: "('k, 'x) hs_event \<Rightarrow> ('k \<rightharpoonup> 'x) mirrored \<Rightarrow> robs_error option \<times> ('k \<rightharpoonup> 'x) mirrored" where
  "hs_handle_event HsInitialComplete m = (None, m\<lparr>mi_complete := True\<rparr>)"
| "hs_handle_event (HsSet v) m =
     (let m = m\<lparr>mi_items := set_insert v (mi_items m)\<rparr>
      in if card (dom (mi_items m)) > mi_max_size m then (Some (MaxSizeExceeded (mi_max_size m)), m) else (None, m))"
| "hs_handle_event (HsRemove v) m = (None, m\<lparr>mi_items := (mi_items m)(fst v := None)\<rparr>)"
| "hs_handle_event HsClear m = (None, m\<lparr>mi_items := Map.empty\<rparr>)"
| "hs_handle_event HsShrinkToFit m = (None, m)"
| "hs_handle_event HsDone m = (None, m\<lparr>mi_done := True\<rparr>)"

type_synonym ('k, 'x) hs_subscription = "('k \<rightharpoonup> 'x, 'k \<times> 'x, ('k, 'x) hs_event) subscription"

definition hs_subscribe :: "('k, 'x) hs \<Rightarrow> ('k, 'x) hs_event broadcast_msg mpsc \<Rightarrow> ('k, 'x) hs_subscription" where
  "hs_subscribe ob rx = subscribe_value ob rx"

definition hs_subscribe_incremental :: "('k \<times> 'x) mpsc \<Rightarrow> ('k, 'x) hs \<Rightarrow> ('k, 'x) hs_event broadcast_msg mpsc \<Rightarrow>
    ('k, 'x) hs_subscription" where
  "hs_subscribe_incremental irx ob rx = subscribe_incremental (card (dom (ob_items ob))) irx ob rx"

definition hs_recv :: "('k, 'x) hs_subscription \<Rightarrow>
    ((robs_error + ('k, 'x) hs_event option) polled \<times> ('k, 'x) hs_subscription) exec" where
  "hs_recv sub = sub_recv HsSet HsInitialComplete HsDone sub"

definition hs_mirror :: "nat \<Rightarrow> ('k, 'x) hs_subscription \<Rightarrow>
    (bool \<times> ('k, 'x) hs_event list \<times> ('k \<rightharpoonup> 'x) mirrored \<times> ('k, 'x) hs_subscription) exec" where
  "hs_mirror max_size sub = mirror hs_handle_event HsSet HsInitialComplete HsDone Map.empty max_size sub"

section \<open>Every operation\<close>

text \<open>Here \<^verbatim>\<open>replace\<close> does not replace an item by a different one.\<close>

inductive hs_step :: "('k, 'x) hs \<Rightarrow> ('k, 'x) hs_event robs_out list \<Rightarrow> ('k, 'x) hs \<Rightarrow> bool" where
  hs_step_insert: "hs_insert v ob = Ret (r, out, ob') \<Longrightarrow> hs_step ob out ob'"
| hs_step_replace: "hs_replace v ob = Ret (old, out, ob') \<Longrightarrow> old \<in> {None, Some v} \<Longrightarrow> hs_step ob out ob'"
| hs_step_remove: "hs_remove k ob = Ret (r, out, ob') \<Longrightarrow> hs_step ob out ob'"
| hs_step_take: "hs_take k ob = Ret (old, out, ob') \<Longrightarrow> hs_step ob out ob'"
| hs_step_clear: "hs_clear ob = Ret (u, out, ob') \<Longrightarrow> hs_step ob out ob'"
| hs_step_retain: "hs_retain f order ob = Ret (u, out, ob') \<Longrightarrow> hs_step ob out ob'"
| hs_step_shrink_to_fit: "hs_shrink_to_fit ob = Ret (u, out, ob') \<Longrightarrow> hs_step ob out ob'"
| hs_step_done: "hs_done ob = Ret (u, out, ob') \<Longrightarrow> hs_step ob out ob'"
| hs_step_extend: "hs_extend vs ob = Ret (u, out, ob') \<Longrightarrow> hs_step ob out ob'"

fun hs_effect :: "('k, 'x) hs_event \<Rightarrow> ('k \<rightharpoonup> 'x) \<Rightarrow> ('k \<rightharpoonup> 'x)" where
  "hs_effect (HsSet v) m = set_insert v m"
| "hs_effect (HsRemove v) m = m(fst v := None)"
| "hs_effect HsClear m = Map.empty"
| "hs_effect _ m = m"

definition hs_size :: "('k \<rightharpoonup> 'x) \<Rightarrow> nat" where
  "hs_size m = card (dom m)"

fun hs_refusal :: "nat \<Rightarrow> ('k, 'x) hs_event \<Rightarrow> ('k \<rightharpoonup> 'x) \<Rightarrow> robs_error option" where
  "hs_refusal n (HsSet v) m = (if hs_size (set_insert v m) > n then Some (MaxSizeExceeded n) else None)"
| "hs_refusal n _ m = None"

abbreviation hs_replays :: "('k, 'x) hs \<Rightarrow> ('k, 'x) hs_event robs_out list \<Rightarrow> ('k, 'x) hs \<Rightarrow> bool" where
  "hs_replays \<equiv> replays HsInitialComplete HsDone hs_effect hs_refusal hs_size"

lemma hs_accepted:
  "sizes_within hs_size hs_effect n evs m \<Longrightarrow> accepted hs_refusal hs_effect n evs m"
proof (induction evs arbitrary: m)
  case (Cons ev evs)
  then have "sizes_within hs_size hs_effect n evs (hs_effect ev m)"
    by (simp add: sizes_within_Cons)
  with Cons.IH sizes_within_start [OF this] show ?case
    by (cases ev) auto
qed simp

lemma hs_replays_iff:
  "hs_replays ob out ob' \<longleftrightarrow> ob_done ob' = ob_done ob \<and> HsDone \<notin> set (events_of out) \<and>
     HsInitialComplete \<notin> set (events_of out) \<and> fold hs_effect (events_of out) (ob_items ob) = ob_items ob'"
  by (auto simp: replays_def hs_accepted)

lemma hs_retain_replays:
  "hs_retain_loop f n order m = (out, m') \<Longrightarrow>
    HsDone \<notin> set (events_of out) \<and> HsInitialComplete \<notin> set (events_of out) \<and> fold hs_effect (events_of out) m = m'"
proof (induction order arbitrary: n m out)
  case (Cons k ks)
  show ?case
  proof (cases "m k")
    case None
    with Cons show ?thesis by simp
  next
    case (Some x)
    show ?thesis
    proof (cases "f n (k, x)")
      case True
      with Cons Some show ?thesis by simp
    next
      case False
      then obtain out1 where "hs_retain_loop f (n + 1) ks (m(k := None)) = (out1, m')"
        "out = [Notified, Sent (HsRemove (k, x))] @ out1"
        using Cons.prems Some by (auto split: prod.splits)
      with Cons.IH [of "n + 1" "m(k := None)" out1] show ?thesis by (simp del: fun_upd_apply)
    qed
  qed
qed simp

lemma hs_insert_replays: "hs_insert v ob = Ret (r, out, ob') \<Longrightarrow> hs_replays ob out ob'"
  by (auto simp: hs_insert_def unless_done_def hs_replays_iff split: if_splits)

lemma hs_extend_replays: "hs_extend vs ob = Ret (u, out, ob') \<Longrightarrow> hs_replays ob out ob'"
proof (induction vs arbitrary: ob out)
  case (Cons v vs)
  then obtain r o1 ob1 o2 where
    "hs_insert v ob = Ret (r, o1, ob1)" "hs_extend vs ob1 = Ret (u, o2, ob')" "out = o1 @ o2"
    by (auto simp: exec_bind_Ret)
  with Cons.IH [of ob1 o2] hs_insert_replays replays_trans show ?case
    by metis
qed simp

lemma hs_step_replays:
  assumes "hs_step ob out ob'"
  shows "replays_or_done HsInitialComplete HsDone hs_effect hs_refusal hs_size ob out ob'"
  using assms
proof cases
  case (hs_step_replace v old)
  then show ?thesis
    by (cases v) (auto simp: hs_replace_def set_insert_def set_replace_def unless_done_def replays_or_done_def
        hs_replays_iff fun_upd_idem split: if_splits)
next
  case (hs_step_retain f order u)
  then obtain m where r: "\<not> ob_done ob" "hs_retain_loop f 0 order (ob_items ob) = (out, m)" "ob' = ob\<lparr>ob_items := m\<rparr>"
    by (auto simp: hs_retain_def unless_done_def split: if_splits prod.splits)
  with hs_retain_replays [OF r(2)] show ?thesis
    by (simp add: replays_or_done_def hs_replays_iff)
next
  case (hs_step_extend vs u)
  with hs_extend_replays [OF hs_step_extend] show ?thesis
    by (cases vs) (auto simp: exec_bind_Ret hs_insert_def unless_done_def replays_or_done_def replays_def split: if_splits)
qed (auto simp: hs_insert_def hs_remove_def hs_take_def hs_clear_def hs_shrink_to_fit_def hs_done_def unless_done_def
      replays_or_done_def hs_replays_iff split: if_splits option.splits)

interpretation hash_set: observed_collection hs_handle_event HsSet HsInitialComplete HsDone Map.empty
  hs_effect hs_refusal hs_step hs_size
proof
  fix ev :: "('k, 'x) hs_event" and m :: "('k \<rightharpoonup> 'x) mirrored" and err
  assume "ev \<noteq> HsDone" "ev \<noteq> HsInitialComplete"
  then show "hs_refusal (mi_max_size m) ev (mi_items m) = None \<Longrightarrow>
      hs_handle_event ev m = (None, m\<lparr>mi_items := hs_effect ev (mi_items m)\<rparr>)"
    by (cases ev) (auto simp: Let_def hs_size_def split: if_splits)
next
  fix ev :: "('k, 'x) hs_event" and m :: "('k \<rightharpoonup> 'x) mirrored" and err
  assume "ev \<noteq> HsDone" "ev \<noteq> HsInitialComplete" "hs_refusal (mi_max_size m) ev (mi_items m) = Some err"
  then show "\<exists>c. hs_handle_event ev m = (Some err, m\<lparr>mi_items := c\<rparr>)"
    by (cases ev) (auto simp: Let_def hs_size_def split: if_splits)
qed (auto simp: hs_step_replays)

section \<open>Properties\<close>

lemma fold_hs_set:
  "distinct (map fst vs) \<Longrightarrow> (\<And>k. k \<in> fst ` set vs \<Longrightarrow> m k = None) \<Longrightarrow> fold hs_effect (map HsSet vs) m = m ++ map_of vs"
proof (induction vs arbitrary: m)
  case (Cons v vs)
  obtain k x where v: "v = (k, x)" by fastforce
  then have "set_insert v m = m(k \<mapsto> x)"
    using Cons.prems(2) [of k] by (simp add: set_insert_def)
  moreover have "fold hs_effect (map HsSet vs) (m(k \<mapsto> x)) = m(k \<mapsto> x) ++ map_of vs"
    using Cons.prems v by (intro Cons.IH) auto
  moreover have "m(k \<mapsto> x) ++ map_of vs = m ++ map_of (v # vs)"
    using Cons.prems(1) v by (simp add: map_add_upd_left dom_map_of_conv_image_fst)
  ultimately show ?case by (simp del: fun_upd_apply)
qed simp

lemma hs_size_insert_le: "hs_size (set_insert v m) \<le> Suc (hs_size m)"
  unfolding hs_size_def set_insert_def
  by (cases "finite (dom m)") (auto simp: card_insert_if split: prod.splits)

lemma accepted_hs_sets: "hs_size m + length vs \<le> n \<Longrightarrow> accepted hs_refusal hs_effect n (map HsSet vs) m"
proof (induction vs arbitrary: m)
  case (Cons v vs)
  have "hs_size (set_insert v m) + length vs \<le> n"
    using Cons.prems hs_size_insert_le [of v m] by simp
  with Cons.IH [OF this] show ?case by simp
qed simp

text \<open>C37: A mirror converges to the observed hash set: after any operations, a mirror that has received
  all their events holds the same items, without an error, also when the initial items were sent one
  by one in any order. The limit of the mirror is never to be exceeded, and \<^verbatim>\<open>replace\<close> does not put a
  different item in the place of an equal one.\<close>

theorem hs_mirror_converges:
  assumes "robs_run hs_step ob out ob'" "\<not> ob_done ob" "mq_queue rx = map (Inr \<circ> BcValue) (events_of out)"
    "\<not> disconnected rx" "sizes_within hs_size hs_effect n (events_of out) (ob_items ob)"
    "distinct (map fst vs)" "ob_items ob = map_of vs" "mq_queue irx = map Inr vs"
  shows "mirrors (ob_items ob') (if ob_done ob' then Finished else StillOpen) n (hs_mirror n (hs_subscribe ob rx)) \<and>
    mirrors (ob_items ob') (if ob_done ob' then Finished else StillOpen) n
      (hs_mirror n (hs_subscribe_incremental irx ob rx))"
proof -
  have s: "hs_size (map_of vs) = length vs"
    using distinct_card [OF assms(6)] by (simp add: hs_size_def dom_map_of_conv_image_fst)
  have "accepted hs_refusal hs_effect n (map HsSet vs) Map.empty"
    using sizes_within_start [OF assms(5)] by (intro accepted_hs_sets) (simp add: assms(7) s, simp add: hs_size_def)
  moreover have "fold hs_effect (map HsSet vs) Map.empty = map_of vs"
    using fold_hs_set [OF assms(6), of Map.empty] by simp
  ultimately show ?thesis
    using hash_set.converges [OF assms(1-5)] hash_set.converges_incremental [OF assms(1-4,8) _ _ assms(5)] s
    by (simp add: hs_mirror_def hs_subscribe_def hs_subscribe_incremental_def assms(7) hs_size_def)
qed

lemma example_hs_run:
  "robs_run hs_step (hs_from [1 :: nat \<mapsto> ()]) ([Notified, Sent (HsSet (2, ()))] @ [Notified, Sent (HsRemove (1, ()))] @ [Sent HsDone])
     \<lparr>ob_items = [2 \<mapsto> ()], ob_done = True\<rparr>"
proof -
  have 1: "hs_step (hs_from [1 :: nat \<mapsto> ()]) [Notified, Sent (HsSet (2, ()))] (hs_from [1 \<mapsto> (), 2 \<mapsto> ()])"
    by (rule hs_step_insert [of "(2, ())"]) (simp add: hs_insert_def set_insert_def unless_done_def hs_from_def)
  have 2: "hs_step (hs_from [1 \<mapsto> (), 2 \<mapsto> ()]) [Notified, Sent (HsRemove (1, ()))] (hs_from [2 :: nat \<mapsto> ()])"
    by (rule hs_step_retain [of "\<lambda>_ (k, _). even k" "[2, 1]"])
      (simp_all add: hs_retain_def unless_done_def hs_from_def fun_eq_iff)
  have 3: "hs_step (hs_from [2 :: nat \<mapsto> ()]) [Sent HsDone] \<lparr>ob_items = [2 \<mapsto> ()], ob_done = True\<rparr>"
    by (rule hs_step_done) (simp add: hs_done_def hs_from_def)
  show ?thesis
    using robs_run_3 [of hs_step, OF 1 2 3] by simp
qed

theorem hs_mirror_converges_witness:
  "mirrors [2 :: nat \<mapsto> ()] Finished 2
     (hs_mirror 2 (hs_subscribe (hs_from [1 \<mapsto> ()]) (example_channel (map BcValue [HsSet (2, ()), HsRemove (1, ()), HsDone]))))"
proof -
  have "sizes_within hs_size hs_effect 2 [HsSet (2, ()), HsRemove (1, ()), HsDone] [1 :: nat \<mapsto> ()]"
    by (simp add: sizes_within_Cons hs_size_def set_insert_def)
  with hs_mirror_converges [OF example_hs_run, of "example_channel (map BcValue [HsSet (2, ()), HsRemove (1, ()), HsDone])" 2
      "[(1, ())]" "example_channel [(1, ())]"]
  show ?thesis
    by (simp add: example_channel_def hs_from_def disconnected_def)
qed

text \<open>\<^verbatim>\<open>replace\<close> makes mirrors diverge when equal items can differ. It puts the new item into the
  observed set and sends it as set, but a mirror inserts it, which keeps the old item.\<close>

theorem hs_replace_diverges:
  assumes "ob_items ob = [k \<mapsto> x]" "\<not> ob_done ob" "y \<noteq> x" "mq_queue rx = [Inr (BcValue (HsSet (k, y)))]"
    "\<not> disconnected rx" "0 < n"
  shows "\<exists>out ob'. hs_replace (k, y) ob = Ret (Some (k, x), out, ob') \<and> events_of out = [HsSet (k, y)] \<and>
    ob_items ob' = [k \<mapsto> y] \<and> mirrors [k \<mapsto> x] StillOpen n (hs_mirror n (hs_subscribe ob rx)) \<and> ob_items ob' \<noteq> [k \<mapsto> x]"
proof -
  have "mirrors (fold hs_effect [HsSet (k, y)] (ob_items ob)) StillOpen n
      (mirror hs_handle_event HsSet HsInitialComplete HsDone Map.empty n (subscribe_value ob rx))"
    by (rule hash_set.mirror_value) (use assms in \<open>simp_all add: set_insert_def hs_size_def\<close>)
  with assms show ?thesis
    by (simp add: hs_replace_def set_replace_def set_insert_def unless_done_def hs_mirror_def hs_subscribe_def)
      (metis fun_upd_eqD option.inject)
qed

theorem hs_replace_diverges_witness:
  "\<exists>out ob'. hs_replace (1 :: nat, 7 :: nat) (hs_from [1 \<mapsto> 5]) = Ret (Some (1, 5), out, ob') \<and>
     events_of out = [HsSet (1, 7)] \<and> ob_items ob' = [1 \<mapsto> 7] \<and>
     mirrors [1 \<mapsto> 5] StillOpen 9
       (hs_mirror 9 (hs_subscribe (hs_from [1 :: nat \<mapsto> 5 :: nat]) (example_channel [BcValue (HsSet (1, 7))]))) \<and>
     ob_items ob' \<noteq> [1 \<mapsto> 5]"
  by (rule hs_replace_diverges) (simp_all add: hs_from_def example_channel_def disconnected_def)

end
