(* ===== verification/Spec2Isabelle.thy ===== *)
theory Spec2Isabelle
  imports Msg_Codec GlobalCredits SendProgress Listener Frame Base_Transfer Robs_Vec Robs_Vec_Deque Robs_Hash_Map Robs_Hash_Set
begin

text \<open>
  Verification library of Remoc, a library for remote channels, objects and collections. Paths
  are those of the crate \<^verbatim>\<open>remoc/src\<close>.

  \<^bold>\<open>The program.\<close> A connection is a pair of endpoints over a transport that keeps frames in order.
  Each endpoint runs one event loop, the multiplexer (\<^verbatim>\<open>chmux/mux.rs\<close>), which owns the table of
  ports. The handles of the application, senders, receivers, listener and clients, talk to it by
  port events over a bounded queue; it talks to the other endpoint by messages. Sending is paid for
  with credits, of the port and of a buffer that all ports share. Above the ports are typed
  channels (\<^verbatim>\<open>rch\<close>), above them collections whose changes are broadcast to mirrors (\<^verbatim>\<open>robs\<close>).

  \<^bold>\<open>Conventions.\<close> A Rust struct is a record, an enum a datatype; \<^verbatim>\<open>u32\<close> and smaller integers of the
  protocol are words, a \<^verbatim>\<open>usize\<close> that counts items in memory is a natural number. A panic is
  \<open>Panic\<close> of the type \<open>exec\<close> (theory \<open>Prelude\<close>), an error is the left side of a sum or a
  constructor of the result. An \<^verbatim>\<open>async\<close> function that waits gives \<open>Pending\<close> or \<open>RecvWaiting\<close> with
  the state a cancelled call leaves, or takes the answers of its environment from a list; tasks and
  interleavings are step relations with reachable states. What comes from other crates is a
  parameter: the byte order codec (\<open>byteorder\<close>), the codec of the Hello message (\<open>postbag\<close>), the codec of
  the values of a channel.
  Queues, watches and atomic cells of the asynchronous runtime are modelled by their documented
  behaviour where a state machine needs them, and are answers of the environment elsewhere. Time is
  not modelled.

  \<^bold>\<open>Wire format.\<close>
  \<^item> \<open>Varint\<close>: \<^verbatim>\<open>varint.rs\<close>. Both encodings of an integer, reader and byte-wise decoder; round trip
    and bounds of what is consumed.
  \<^item> \<open>Cfg\<close>, \<open>Msg\<close>, \<open>Msg_Codec\<close>: \<^verbatim>\<open>chmux/cfg.rs\<close> and \<^verbatim>\<open>chmux/msg.rs\<close>. Configuration, its check, all
    messages with \<open>write_msg\<close> and \<open>read_msg\<close>; every message is read back, and how long it is.
  \<^item> \<open>Frame\<close>: \<^verbatim>\<open>connect/io_transport.rs\<close>. Length headers, sink and stream over a writer and a reader
    that answer as they like; frames are transported, a cut stream fails.

  \<^bold>\<open>Ports and flow control.\<close>
  \<^item> \<open>PortAlloc\<close>: \<^verbatim>\<open>chmux/port_allocator.rs\<close>. The allocator as a record, its operations and the drops of
    its handles; uniqueness of numbers, the limit, the quarantine, and that the search for a
    free number returns.
  \<^item> \<open>Sizer\<close>: \<^verbatim>\<open>chmux/sizer.rs\<close>. Fixed and dynamic size of the shared buffer.
  \<^item> \<open>SendCredit\<close>, \<open>RecvCredit\<close>: \<^verbatim>\<open>chmux/credit.rs\<close>. Credit stores, requests that wait, monitors, and the
    returner with its queue of pending events.
  \<^item> \<open>CreditLoop\<close>, \<open>PortCredits\<close>, \<open>GlobalCredits\<close>: the cycle of credits between two endpoints. The
    locale \<open>credit_receiver\<close> is the contract of a monitor; its lemmas on conservation and progress
    are proved once and interpreted for the monitor of a port and for the shared buffer with both
    sizers.
  \<^item> \<open>Sender\<close>, \<open>Receiver\<close>: \<^verbatim>\<open>chmux/sender.rs\<close> and \<^verbatim>\<open>chmux/receiver.rs\<close>, with all error paths.
    \<open>Transmission\<close> joins them: a message is received whole, streamed, discarded or skipped.
    \<open>SendProgress\<close>: sends complete when their credits arrive.

  \<^bold>\<open>The multiplexer.\<close>
  \<^item> \<open>Events\<close>: errors, port events and requests that the parts share.
  \<^item> \<open>Mux\<close>: \<^verbatim>\<open>chmux/mux.rs\<close>. \<open>handle_event\<close> and \<open>handle_received_msg\<close> with all their cases.
  \<^item> \<open>Endpoint\<close>: the event loop with the handles the application holds, as a step relation whose
    invariant ties table, allocator and handles together. No event and no message makes the loop
    panic, no number leaks, and the table holds exactly the ports in use.
  \<^item> \<open>Connection\<close>: two event loops and the queue between them; the way of a message end to end, and
    orders of events that end the connection.
  \<^item> \<open>Listener\<close>: \<^verbatim>\<open>chmux/listener.rs\<close>. Requests and their answers.

  \<^bold>\<open>Channels and collections.\<close>
  \<^item> \<open>Base\<close>: \<^verbatim>\<open>rch/base\<close>. A value is serialised as a whole or streamed, its ports follow; the receive
    loop with its restarts, whose termination is by a weight of what is left to receive. The codec is
    a record of functions. \<open>Base_Transfer\<close>: values arrive, whatever the way they take; bounds; the loop
    does not panic.
  \<^item> \<open>Mpsc\<close>: \<^verbatim>\<open>rch/mpsc\<close>. Both halves of a channel with many senders and the cells they share.
  \<^item> \<open>Broadcast\<close>: \<^verbatim>\<open>rch/broadcast\<close>. The sender, the tasks of subscribers that lag, the receiver, over
    all interleavings.
  \<^item> \<open>Robs\<close>: what the observable collections share, with the locales \<open>mirrored_collection\<close> and
    \<open>observed_collection\<close>: the contract between the operations of a collection, its events and the
    handler of its mirror. Interpreted in \<open>Robs_Vec\<close>, \<open>Robs_Vec_Deque\<close>, \<open>Robs_Hash_Map\<close> and
    \<open>Robs_Hash_Set\<close> (\<^verbatim>\<open>robs/vec.rs\<close> and so on; \<open>Robs_Seq\<close> holds what the two sequences share): a
    mirror that received all events equals the collection.

  \<^bold>\<open>Not modelled.\<close> Sockets and other transports, timeouts and pings, tracing, the adapters to the
  traits \<^verbatim>\<open>Stream\<close>, \<^verbatim>\<open>Sink\<close>, \<^verbatim>\<open>AsyncRead\<close> and \<^verbatim>\<open>AsyncWrite\<close>, \<^verbatim>\<open>Debug\<close> and \<^verbatim>\<open>Display\<close>: input and output
  without logic of their own. The codecs (Serde and the formats built on it), the stable encodings of
  \<^verbatim>\<open>versioned\<close> and the code the macros of \<^verbatim>\<open>remoc_macro\<close> generate: declarations for third-party
  libraries and generated code.
\<close>

end
